(* ===== verification/Prelude.thy ===== *)
theory Prelude
  imports Main "HOL-Library.Word"
begin

text \<open>
  Shared vocabulary of the development: the outcome of a piece of C++ code, the machine
  types the code uses, the lemma collections the component theories fill, and a few
  generic facts on lists and words.
\<close>

named_theorems queue_simps \<open>defining equations of the queue operations\<close>
named_theorems loop_simps \<open>one-step equations of the event loops\<close>
named_theorems sock_simps \<open>defining equations of the socket operations\<close>

section \<open>Outcomes\<close>

text \<open>
  A call returns a value, leaves by a C++ exception, has undefined behaviour (null or
  dangling pointer, read outside an object), or has not returned yet: the next system call
  is still waiting, or a loop that runs on fuel in the model has used it up. \<open>Abort\<close> is the end of
  the process by a failed \<open>assert\<close> or by \<open>exit\<close>.
\<close>

datatype 'a outcome = Ret 'a | Throw | Undef | Blocked | Abort

fun bind_out :: "'a outcome \<Rightarrow> ('a \<Rightarrow> 'b outcome) \<Rightarrow> 'b outcome" where
  "bind_out (Ret x) f = f x"
| "bind_out Throw f = Throw"
| "bind_out Undef f = Undef"
| "bind_out Blocked f = Blocked"
| "bind_out Abort f = Abort"

lemma bind_out_cong [fundef_cong]:
  "m = m' \<Longrightarrow> (\<And>x. m' = Ret x \<Longrightarrow> f x = g x) \<Longrightarrow> bind_out m f = bind_out m' g"
  by (cases m') auto

text \<open>\<open>assert\<close>, and a list of pieces computed one after the other.\<close>

definition assert_out :: "bool \<Rightarrow> unit outcome" where
  "assert_out b = (if b then Ret () else Abort)"

fun seq_out :: "'a outcome list \<Rightarrow> 'a list outcome" where
  "seq_out [] = Ret []"
| "seq_out (m # ms) = bind_out m (\<lambda>x. bind_out (seq_out ms) (\<lambda>xs. Ret (x # xs)))"

lemma seq_out_Ret: "seq_out (map (\<lambda>x. Ret (f x)) xs) = Ret (map f xs)"
  by (induction xs) auto

lemma bind_out_Ret_iff:
  "bind_out m f = Ret y \<longleftrightarrow> (\<exists>x. m = Ret x \<and> f x = Ret y)"
  by (cases m) auto

lemma bind_out_Ret_right [simp]: "bind_out m Ret = m"
  by (cases m) auto

lemma bind_out_assoc: "bind_out (bind_out m f) g = bind_out m (\<lambda>x. bind_out (f x) g)"
  by (cases m) auto

text \<open>The value of a call that returns.\<close>

fun ret_of :: "'a outcome \<Rightarrow> 'a" where
  "ret_of (Ret x) = x"

text \<open>What a piece of code ensures if it returns.\<close>

definition ensures :: "('b \<Rightarrow> bool) \<Rightarrow> 'b outcome \<Rightarrow> bool" where
  "ensures Q m \<longleftrightarrow> (\<forall>x. m = Ret x \<longrightarrow> Q x)"

lemma ensures_rules:
  shows ensures_Ret: "Q x \<Longrightarrow> ensures Q (Ret x)"
    and ensures_Throw: "ensures Q Throw"
    and ensures_if: "(c \<Longrightarrow> ensures Q m1) \<Longrightarrow> (\<not> c \<Longrightarrow> ensures Q m2) \<Longrightarrow> ensures Q (if c then m1 else m2)"
    and ensures_bind: "(\<And>x. m = Ret x \<Longrightarrow> ensures Q (f x)) \<Longrightarrow> ensures Q (bind_out m f)"
    and ensures_after: "ensures P m \<Longrightarrow> (\<And>x. P x \<Longrightarrow> ensures Q (f x)) \<Longrightarrow> ensures Q (bind_out m f)"
  by (auto simp: ensures_def bind_out_Ret_iff)

section \<open>Machine types\<close>

type_synonym size_t = "64 word"
type_synonym u32 = "32 word"

abbreviation NUL :: char where "NUL \<equiv> CHR 0x00"
abbreviation CR :: char where "CR \<equiv> CHR 0x0D"
abbreviation LF :: char where "LF \<equiv> CHR 0x0A"
abbreviation HT :: char where "HT \<equiv> CHR 0x09"
abbreviation DQ :: char where "DQ \<equiv> CHR 0x22"

text \<open>An \<open>ssize_t\<close> (or \<open>int\<close>) assigned to a \<open>size_t\<close> variable.\<close>

definition to_size_t :: "int \<Rightarrow> size_t" where
  "to_size_t i = word_of_int i"

lemma to_size_t_neg1: "to_size_t (- 1) = - 1"
  by (simp add: to_size_t_def)

lemma to_size_t_of_nat: "to_size_t (int n) = of_nat n"
  by (simp add: to_size_t_def)

lemma unat_add_no_wrap:
  fixes a :: size_t
  assumes "unat a + n < 2 ^ 64"
  shows "unat (a + of_nat n) = unat a + n"
proof -
  have "unat (of_nat n :: size_t) = n"
    using assms by (simp add: unat_of_nat take_bit_nat_eq_self)
  then show ?thesis
    using assms by (simp add: unat_word_ariths)
qed

lemma unat_of_nat_size: "n < 2 ^ 64 \<Longrightarrow> unat (of_nat n :: size_t) = n"
  by (simp add: unat_of_nat take_bit_nat_eq_self)

section \<open>Lists\<close>

lemma take_drop_glue: "a \<le> b \<Longrightarrow> take (b - a) (drop a xs) @ drop b xs = drop a xs"
  by (metis append_take_drop_id drop_drop le_add_diff_inverse2)

lemma take_append_drop_chunk:
  "take n (drop a xs) @ take m (drop (a + n) xs) = take (n + m) (drop a xs)"
  by (simp add: take_add [of n m] add.commute [of n a])

end
