(* ===== verification/CppString.thy ===== *)
theory CppString
  imports Prelude
begin

text \<open>
  The operations of \<open>std::string\<close> and \<open>std::getline\<close> that the HTTP code uses. A position is a
  \<open>nat option\<close>: \<open>None\<close> is \<open>npos\<close>, the largest \<open>size_t\<close>, which is larger than the size
  of any string. Where the code computes with \<open>npos\<close> the wrap-around is written out:
  \<open>npos + k\<close> is \<open>k - 1\<close>, and a count that wrapped below zero exceeds every string.
\<close>

section \<open>Searching\<close>

primrec find_if :: "('a \<Rightarrow> bool) \<Rightarrow> 'a list \<Rightarrow> nat option" where
  "find_if P [] = None"
| "find_if P (x # xs) = (if P x then Some 0 else map_option Suc (find_if P xs))"

lemma find_if_None_iff: "find_if P xs = None \<longleftrightarrow> (\<forall>x\<in>set xs. \<not> P x)"
  by (induction xs) auto

lemma find_if_Some_length: "find_if P xs = Some i \<Longrightarrow> i < length xs"
  by (induction xs arbitrary: i) (auto split: if_splits)

lemma find_if_Some_nth: "find_if P xs = Some i \<Longrightarrow> P (xs ! i)"
  by (induction xs arbitrary: i) (auto split: if_splits)

lemma find_if_Some_take: "find_if P xs = Some i \<Longrightarrow> x \<in> set (take i xs) \<Longrightarrow> \<not> P x"
  by (induction xs arbitrary: i) (auto split: if_splits)

lemma find_if_append:
  "\<forall>x\<in>set xs. \<not> P x \<Longrightarrow> find_if P (xs @ ys) = map_option ((+) (length xs)) (find_if P ys)"
proof (induction xs)
  case Nil
  then show ?case by (cases "find_if P ys") auto
next
  case (Cons x xs)
  then show ?case by (cases "find_if P ys") auto
qed

lemma find_if_append_Cons:
  "\<forall>x\<in>set xs. \<not> P x \<Longrightarrow> P y \<Longrightarrow> find_if P (xs @ y # ys) = Some (length xs)"
  by (simp add: find_if_append)

lemma find_if_all_not: "\<forall>x\<in>set xs. \<not> P x \<Longrightarrow> find_if P xs = None"
  by (simp add: find_if_None_iff)

definition find_char :: "char \<Rightarrow> string \<Rightarrow> nat \<Rightarrow> nat option" where
  "find_char c s pos = map_option ((+) pos) (find_if (\<lambda>x. x = c) (drop pos s))"

definition find_first_of :: "string \<Rightarrow> string \<Rightarrow> nat \<Rightarrow> nat option" where
  "find_first_of cs s pos = map_option ((+) pos) (find_if (\<lambda>x. x \<in> set cs) (drop pos s))"

definition find_first_not_of :: "char \<Rightarrow> string \<Rightarrow> nat option" where
  "find_first_not_of c s = find_if (\<lambda>x. x \<noteq> c) s"

definition find_last_not_of :: "char \<Rightarrow> string \<Rightarrow> nat option" where
  "find_last_not_of c s =
     map_option (\<lambda>i. length s - Suc i) (find_if (\<lambda>x. x \<noteq> c) (rev s))"

definition find_last_of :: "char \<Rightarrow> string \<Rightarrow> nat option" where
  "find_last_of c s = map_option (\<lambda>i. length s - Suc i) (find_if (\<lambda>x. x = c) (rev s))"

primrec find_sub :: "string \<Rightarrow> string \<Rightarrow> nat option" where
  "find_sub p [] = (if p = [] then Some 0 else None)"
| "find_sub p (x # xs) =
     (if take (length p) (x # xs) = p then Some 0 else map_option Suc (find_sub p xs))"

lemma find_char_bounds:
  assumes "find_char c s pos = Some i"
  shows "pos \<le> i" "i < length s" "s ! i = c"
proof -
  from assms obtain k where k: "find_if (\<lambda>x. x = c) (drop pos s) = Some k" "i = pos + k"
    by (auto simp: find_char_def)
  from find_if_Some_length[OF k(1)] have "k < length s - pos" by simp
  with k(2) show "pos \<le> i" "i < length s" by auto
  from find_if_Some_nth[OF k(1)] k(2) \<open>k < length s - pos\<close> show "s ! i = c" by simp
qed

lemma find_char_advance:
  assumes "find_char c s pos = Some i"
  shows "length s - Suc i < length s - pos"
  using find_char_bounds(1,2) [OF assms] by simp

lemma find_first_of_bounds:
  assumes "find_first_of cs s pos = Some i"
  shows "pos \<le> i" "i < length s"
proof -
  from assms obtain k where k: "find_if (\<lambda>x. x \<in> set cs) (drop pos s) = Some k" "i = pos + k"
    by (auto simp: find_first_of_def)
  from find_if_Some_length[OF k(1)] k(2) show "pos \<le> i" "i < length s" by auto
qed

lemma find_sub_length: "find_sub p s = Some i \<Longrightarrow> i + length p \<le> length s"
proof (induction s arbitrary: i)
  case Nil
  then show ?case by (simp split: if_splits)
next
  case (Cons x xs)
  show ?case
  proof (cases "take (length p) (x # xs) = p")
    case True
    then have "length p \<le> length (x # xs)"
      by (metis length_take min.cobounded1)
    with True Cons.prems show ?thesis by simp
  next
    case False
    with Cons.prems obtain k where "find_sub p xs = Some k" "i = Suc k" by auto
    with Cons.IH show ?thesis by fastforce
  qed
qed

section \<open>Substrings\<close>

text \<open>
  \<open>substr s pos n\<close> throws \<open>std::out_of_range\<close> when \<open>pos\<close> is past the end; the count
  \<open>None\<close> stands for \<open>npos\<close> and for every count larger than the rest of the string.
\<close>

definition substr :: "string \<Rightarrow> nat \<Rightarrow> nat option \<Rightarrow> string outcome" where
  "substr s pos n =
     (if length s < pos then Throw
      else Ret (case n of None \<Rightarrow> drop pos s | Some k \<Rightarrow> take k (drop pos s)))"

text \<open>\<open>a - b\<close> as a count: \<open>None\<close> when \<open>a\<close> is \<open>npos\<close> or the difference wraps.\<close>

definition count_sub :: "nat option \<Rightarrow> nat \<Rightarrow> nat option" where
  "count_sub a b = (case a of None \<Rightarrow> None | Some p \<Rightarrow> if b \<le> p then Some (p - b) else None)"

text \<open>\<open>p + k\<close> for a position that may be \<open>npos\<close>.\<close>

definition pos_add :: "nat option \<Rightarrow> nat \<Rightarrow> nat" where
  "pos_add p k = (case p of None \<Rightarrow> k - 1 | Some i \<Rightarrow> i + k)"

lemma substr_Ret_iff [simp]: "substr s pos n = Ret r \<longleftrightarrow>
  pos \<le> length s \<and> r = (case n of None \<Rightarrow> drop pos s | Some k \<Rightarrow> take k (drop pos s))"
  by (auto simp: substr_def)

lemma pos_add_simps [simp]: "pos_add None k = k - 1" "pos_add (Some i) k = i + k"
  by (simp_all add: pos_add_def)

section \<open>Lines and segments\<close>

text \<open>
  \<open>while (getline(ss, line, d))\<close> sees these lines: the text between delimiters, with no
  empty line after a final delimiter.
\<close>

fun getlines :: "char \<Rightarrow> string \<Rightarrow> string list" where
  "getlines d [] = []"
| "getlines d (c # cs) =
     (if c = d then [] # getlines d cs
      else case getlines d cs of
             [] \<Rightarrow> [[c]]
           | l # ls \<Rightarrow> (c # l) # ls)"

fun split_on :: "char \<Rightarrow> string \<Rightarrow> string list" where
  "split_on d [] = [[]]"
| "split_on d (c # cs) =
     (if c = d then [] # split_on d cs
      else case split_on d cs of [] \<Rightarrow> [[c]] | w # ws \<Rightarrow> (c # w) # ws)"

lemma split_on_not_Nil [simp]: "split_on d s \<noteq> []"
  by (cases s) (auto split: list.splits)

lemma split_on_no_delim: "d \<notin> set s \<Longrightarrow> split_on d s = [s]"
  by (induction s) auto

lemma split_on_append_delim:
  "d \<notin> set s \<Longrightarrow> split_on d (s @ d # t) = s # split_on d t"
  by (induction s) auto

lemma split_on_find_Some:
  assumes "find_if (\<lambda>x. x = d) s = Some i"
  shows "split_on d s = take i s # split_on d (drop (Suc i) s)"
proof -
  have len: "i < length s" and nth: "s ! i = d"
    using find_if_Some_length[OF assms] find_if_Some_nth[OF assms] by auto
  have pre: "d \<notin> set (take i s)"
    using find_if_Some_take[OF assms] by auto
  have "s = take i s @ d # drop (Suc i) s"
    using id_take_nth_drop[OF len] nth by simp
  with split_on_append_delim[OF pre, of "drop (Suc i) s"] show ?thesis by metis
qed

lemma split_on_find_None:
  "find_if (\<lambda>x. x = d) s = None \<Longrightarrow> split_on d s = [s]"
  by (auto simp: find_if_None_iff intro!: split_on_no_delim)

lemma getlines_append_delim:
  "d \<notin> set s \<Longrightarrow> getlines d (s @ d # t) = s # getlines d t"
proof (induction s)
  case (Cons c s)
  then show ?case by (cases s) (auto split: list.splits)
qed simp

lemma getlines_no_delim: "d \<notin> set s \<Longrightarrow> s \<noteq> [] \<Longrightarrow> getlines d s = [s]"
proof (induction s)
  case (Cons c s)
  then show ?case by (cases s) (auto split: list.splits)
qed simp

end
