(* ===== verification/HttpFilter.thy ===== *)
theory HttpFilter
  imports CppString
begin

text \<open>
  The URL filters of \<open>http_conn\<close> (\<open>src/http/http_conn.h\<close>): the tree of \<open>filter::node\<close>,
  \<open>_register_filter\<close> and \<open>match\<close>. A filter is known here by its \<open>url\<close> and a value
  of type \<open>'f\<close>, the pointer. The children of a node are owned by that node only, so the tree
  is a datatype and the walk with the shared pointer \<open>cur\<close> rebuilds it.
\<close>

section \<open>The code\<close>

datatype 'f node = Node "'f option" "string \<Rightarrow> 'f node option"

fun node_filter :: "'f node \<Rightarrow> 'f option" where
  "node_filter (Node g ch) = g"

fun node_children :: "'f node \<Rightarrow> string \<Rightarrow> 'f node option" where
  "node_children (Node g ch) = ch"

definition new_node :: "'f node" where
  "new_node = Node None (\<lambda>_. None)"

text \<open>
  The loop of \<open>_register_filter\<close> from position \<open>pre\<close> at the node \<open>cur\<close>. Every
  \<open>children[sub_str] = make_shared<node>()\<close> puts a new node in place of what was there.
\<close>

function register_walk :: "'f \<Rightarrow> string \<Rightarrow> nat \<Rightarrow> 'f node \<Rightarrow> 'f node" where
  "register_walk f url pre cur =
     (case find_char (CHR ''/'') url pre of
        Some pos \<Rightarrow>
          (let sub_str = take (pos - pre) (drop pre url) in
           Node (node_filter cur)
             ((node_children cur)(sub_str \<mapsto> register_walk f url (pos + 1) new_node)))
      | None \<Rightarrow>
          (let sub_str = drop pre url in
           if sub_str = ''*'' then Node (Some f) (node_children cur)
           else Node (node_filter cur)
                  ((node_children cur)(sub_str \<mapsto> Node (Some f) (\<lambda>_. None)))))"
  by pat_completeness auto
termination
  by (relation "measure (\<lambda>(f, url, pre, cur). length url - pre)")
     (auto intro: find_char_advance)

declare register_walk.simps [simp del]

definition register_filter :: "'f \<Rightarrow> string \<Rightarrow> 'f node \<Rightarrow> 'f node" where
  "register_filter f url root =
     (if length url < 2 \<or> url ! 0 \<noteq> CHR ''/'' \<or> url ! (length url - 1) = CHR ''/'' then root
      else if url ! 1 = CHR ''*'' then Node (Some f) (node_children root)
      else register_walk f url 1 root)"

text \<open>
  The loop of \<open>match\<close> and the lookup after it. \<open>pos < url.size() - 1\<close> keeps a final slash
  out of the loop; the count \<open>pos - pre - 1\<close> after it wraps when the last segment is empty.
\<close>

function match_walk :: "string \<Rightarrow> nat \<Rightarrow> 'f node \<Rightarrow> 'f option \<Rightarrow> 'f option" where
  "match_walk url pre cur tmp =
     (let pos = find_char (CHR ''/'') url pre;
          finish = (\<lambda>sub_str. case node_children cur sub_str of
                       None \<Rightarrow> tmp
                     | Some n \<Rightarrow> node_filter n)
      in case pos of
           Some p \<Rightarrow>
             (if p < length url - 1 then
                (case node_children cur (take (p - pre) (drop pre url)) of
                   None \<Rightarrow> tmp
                 | Some n \<Rightarrow> match_walk url (p + 1) n (node_filter n))
              else finish (case count_sub (Some p) (pre + 1) of
                             None \<Rightarrow> drop pre url
                           | Some k \<Rightarrow> take k (drop pre url)))
         | None \<Rightarrow> finish (drop pre url))"
  by pat_completeness auto
termination
  by (relation "measure (\<lambda>(url, pre, cur, tmp). length url - pre)")
     (auto intro: find_char_advance [OF sym])

declare match_walk.simps [simp del]

definition match_filter :: "'f node \<Rightarrow> string \<Rightarrow> 'f option" where
  "match_filter root url =
     (if url = [] then None
      else if url ! 0 \<noteq> CHR ''/'' then None
      else if 1 < length url \<and> url ! 1 = CHR ''*'' then node_filter root
      else match_walk url 1 root (node_filter root))"


text \<open>\<open>filter::allow\<close>, the default that derived filters may override.\<close>

definition filter_allow :: "'m list \<Rightarrow> 'm \<Rightarrow> bool" where
  "filter_allow not_allow m = (m \<notin> set not_allow)"

section \<open>Reference: paths of segments\<close>

fun register_path :: "'f \<Rightarrow> string list \<Rightarrow> 'f node \<Rightarrow> 'f node" where
  "register_path f [] n = n"
| "register_path f [s] n =
     (if s = ''*'' then Node (Some f) (node_children n)
      else Node (node_filter n) ((node_children n)(s \<mapsto> Node (Some f) (\<lambda>_. None))))"
| "register_path f (s # ss) n =
     Node (node_filter n) ((node_children n)(s \<mapsto> register_path f ss new_node))"

fun match_path :: "string list \<Rightarrow> 'f node \<Rightarrow> 'f option \<Rightarrow> 'f option" where
  "match_path [] n tmp = tmp"
| "match_path (s # ss) n tmp =
     (case node_children n s of None \<Rightarrow> tmp | Some k \<Rightarrow> match_path ss k (node_filter k))"

text \<open>The segments \<open>match\<close> really looks up: a final slash costs the last segment its last
  character, and an empty segment before a final slash is read as the slash itself.\<close>

fun match_segs :: "string list \<Rightarrow> string list" where
  "match_segs [a, []] = [if a = [] then ''/'' else butlast a]"
| "match_segs (a # ss) = a # match_segs ss"
| "match_segs [] = []"

lemma split_on_eq_single_Nil: "split_on d s = [[]] \<longleftrightarrow> s = []"
  by (cases s) (auto split: list.splits)

lemma match_segs_Cons: "ss \<noteq> [[]] \<Longrightarrow> match_segs (a # ss) = a # match_segs ss"
  by (cases ss rule: match_segs.cases) (auto simp: neq_Nil_conv)

lemma match_segs_last: "last ss \<noteq> [] \<Longrightarrow> match_segs ss = ss"
  by (induction ss rule: match_segs.induct) (auto split: if_splits)

lemma match_segs_append_two:
  "match_segs (xs @ [a, []]) = xs @ [if a = [] then ''/'' else butlast a]"
proof (induction xs)
  case (Cons x xs)
  have "xs @ [a, []] \<noteq> [[]]" by simp
  then show ?case using Cons by (simp add: match_segs_Cons del: match_segs.simps)
qed simp

lemma split_on_drop_Some:
  assumes "find_char d url pre = Some p"
  shows "split_on d (drop pre url) = take (p - pre) (drop pre url) # split_on d (drop (Suc p) url)"
proof -
  from assms obtain k where k: "find_if (\<lambda>x. x = d) (drop pre url) = Some k" "p = pre + k"
    by (auto simp: find_char_def)
  have "drop (Suc k) (drop pre url) = drop (Suc p) url"
    using k(2) by (simp add: add.commute)
  with split_on_find_Some [OF k(1)] k(2) show ?thesis by simp
qed

lemma split_on_drop_None:
  "find_char d url pre = None \<Longrightarrow> split_on d (drop pre url) = [drop pre url]"
  by (auto simp: find_char_def intro: split_on_find_None)

lemma register_walk_path:
  "register_walk f url pre cur = register_path f (split_on (CHR ''/'') (drop pre url)) cur"
proof (induction f url pre cur rule: register_walk.induct)
  case (1 f url pre cur)
  show ?case
  proof (cases "find_char (CHR ''/'') url pre")
    case None
    then show ?thesis
      by (subst register_walk.simps) (simp add: split_on_drop_None Let_def)
  next
    case (Some p)
    obtain w ws where w: "split_on (CHR ''/'') (drop (Suc p) url) = w # ws"
      by (metis list.exhaust split_on_not_Nil)
    from Some w 1 show ?thesis
      by (subst register_walk.simps) (simp add: split_on_drop_Some Let_def)
  qed
qed

lemma match_walk_path:
  "match_walk url pre cur tmp =
     match_path (match_segs (split_on (CHR ''/'') (drop pre url))) cur tmp"
proof (induction url pre cur tmp rule: match_walk.induct)
  case (1 url pre cur tmp)
  show ?case
  proof (cases "find_char (CHR ''/'') url pre")
    case None
    then show ?thesis
      by (subst match_walk.simps) (simp add: split_on_drop_None Let_def split: option.split)
  next
    case (Some p)
    note b = find_char_bounds [OF Some]
    show ?thesis
    proof (cases "p < length url - 1")
      case True
      have "split_on (CHR ''/'') (drop (Suc p) url) \<noteq> [[]]"
        using True by (simp add: split_on_eq_single_Nil)
      with Some True 1 show ?thesis
        by (subst match_walk.simps)
           (simp add: split_on_drop_Some match_segs_Cons Let_def split: option.split)
    next
      case False
      with b have p: "p = length url - 1" "drop (Suc p) url = []" by auto
      have seg: "split_on (CHR ''/'') (drop pre url) = [take (p - pre) (drop pre url), []]"
        using split_on_drop_Some [OF Some] p by simp
      show ?thesis
      proof (cases "p = pre")
        case True
        have "drop pre url = [url ! pre]"
          using True b p by (metis Cons_nth_drop_Suc)
        with True b(3) have "drop pre url = ''/''" by simp
        with Some False seg True show ?thesis
          by (subst match_walk.simps) (simp add: count_sub_def Let_def split: option.split)
      next
        case neq: False
        with b(1) have le: "Suc pre \<le> p" by simp
        have "butlast (take (p - pre) (drop pre url)) = take (p - Suc pre) (drop pre url)"
          using le b(2) by (simp add: butlast_take)
        with Some False seg le b neq show ?thesis
          by (subst match_walk.simps) (auto simp add: count_sub_def Let_def split: option.split)
      qed
    qed
  qed
qed


definition segments :: "string \<Rightarrow> string list" where
  "segments url = split_on (CHR ''/'') (tl url)"

definition plain_url :: "string \<Rightarrow> bool" where
  "plain_url url \<longleftrightarrow>
     2 \<le> length url \<and> hd url = CHR ''/'' \<and> last url \<noteq> CHR ''/'' \<and> url ! 1 \<noteq> CHR ''*''"

lemma segments_not_Nil [simp]: "segments url \<noteq> []"
  by (simp add: segments_def)

lemma register_filter_path:
  assumes "plain_url url"
  shows "register_filter f url root = register_path f (segments url) root"
proof -
  have ne: "url \<noteq> []" using assms by (auto simp: plain_url_def)
  show ?thesis
    using assms by (simp add: plain_url_def register_filter_def register_walk_path segments_def
        drop_Suc hd_conv_nth [OF ne] last_conv_nth [OF ne])
qed

lemma match_filter_path:
  assumes "hd u = CHR ''/''" "u \<noteq> []" "1 < length u \<longrightarrow> u ! 1 \<noteq> CHR ''*''"
  shows "match_filter root u = match_path (match_segs (segments u)) root (node_filter root)"
  using assms by (cases u) (auto simp: match_filter_def match_walk_path segments_def drop_Suc)

lemma last_split_on_Nil: "last (split_on d s) = [] \<longleftrightarrow> s = [] \<or> last s = d"
proof (induction s)
  case (Cons c s)
  then show ?case
    by (cases s) (auto split: list.splits if_splits)
qed simp

lemma last_split_on: "s \<noteq> [] \<Longrightarrow> last s \<noteq> d \<Longrightarrow> last (split_on d s) \<noteq> []"
  by (simp add: last_split_on_Nil)

lemma match_segs_plain: "plain_url u \<Longrightarrow> match_segs (segments u) = segments u"
  by (rule match_segs_last)
     (cases u, auto simp: segments_def plain_url_def last_split_on_Nil split: if_splits)

lemma match_filter_plain:
  "plain_url u \<Longrightarrow> match_filter root u = match_path (segments u) root (node_filter root)"
  by (subst match_filter_path) (auto simp: match_segs_plain, auto simp: plain_url_def)

lemmas filter_paths = register_filter_path match_filter_plain

lemma match_register_path:
  "ss \<noteq> [] \<Longrightarrow> last ss \<noteq> ''*'' \<Longrightarrow> match_path ss (register_path f ss n) tmp = Some f"
  by (induction f ss n arbitrary: tmp rule: register_path.induct) auto

lemma match_register_star:
  "ps \<noteq> [] \<Longrightarrow>
   match_path (ps @ qs) (register_path f (ps @ [''*'']) n) tmp = Some f"
proof (induction ps arbitrary: n tmp)
  case (Cons p ps)
  show ?case
  proof (cases ps)
    case Nil
    then show ?thesis by (cases qs) (auto simp: new_node_def)
  next
    case (Cons a as)
    with Cons.IH show ?thesis by simp
  qed
qed simp

lemma register_path_other:
  "hd ss \<noteq> hd ts \<Longrightarrow> ss \<noteq> [] \<Longrightarrow> ts \<noteq> [] \<Longrightarrow> ss \<noteq> [''*''] \<Longrightarrow>
   match_path ts (register_path f ss n) tmp = match_path ts n tmp"
  by (cases ts; cases "(f, ss, n)" rule: register_path.cases) auto

lemma register_path_root_filter:
  "ss \<noteq> [] \<Longrightarrow> ss \<noteq> [''*''] \<Longrightarrow> node_filter (register_path f ss n) = node_filter n"
  by (cases "(f, ss, n)" rule: register_path.cases) auto

lemma segments_plain_not_star: "plain_url u \<Longrightarrow> hd (segments u) \<noteq> ''*''"
  by (cases u rule: list.exhaust [case_names Nil Cons];
      cases "tl u")
     (auto simp: plain_url_def segments_def split: list.splits if_splits)

lemma segments_append_slash: "u \<noteq> [] \<Longrightarrow> segments (u @ [c]) = split_on (CHR ''/'') (tl u @ [c])"
  by (simp add: segments_def tl_append2)

lemma split_on_snoc_delim: "split_on d (s @ [d]) = split_on d s @ [[]]"
  by (induction s) (auto split: list.splits)

lemma split_on_snoc_other:
  "c \<noteq> d \<Longrightarrow> split_on d (s @ [c]) = butlast (split_on d s) @ [last (split_on d s) @ [c]]"
  by (induction s) (auto split: list.splits)

section \<open>Properties\<close>

text \<open>C15: A filter registered under a plain URL (no wildcard in its first or last segment)
  is the one \<open>match\<close> finds for exactly that URL, whatever was registered before.\<close>

theorem register_then_match:
  assumes "plain_url url" and "last (segments url) \<noteq> ''*''"
  shows "match_filter (register_filter f url root) url = Some f"
proof -
  have "match_path (segments url) (register_path f (segments url) root) tmp = Some f" for tmp
    using match_register_path [OF segments_not_Nil assms(2)] .
  with assms(1) show ?thesis by (simp add: filter_paths)
qed

theorem register_then_match_witness:
  "match_filter (register_filter (7::nat) ''/api/user'' new_node) ''/api/user'' = Some 7"
  by (rule register_then_match) (simp_all add: plain_url_def segments_def)



text \<open>Registering a filter changes nothing for URLs that start with another segment.\<close>

theorem register_frame:
  assumes "plain_url url" "plain_url u" "hd (segments url) \<noteq> hd (segments u)"
  shows "match_filter (register_filter f url root) u = match_filter root u"
proof -
  have "segments url \<noteq> [''*'']"
    using segments_plain_not_star [OF assms(1)] by auto
  with assms show ?thesis
    by (simp add: filter_paths register_path_other register_path_root_filter)
qed

theorem register_frame_witness:
  "match_filter (register_filter (7::nat) ''/api/user'' (register_filter 3 ''/img'' new_node)) ''/img''
     = match_filter (register_filter 3 ''/img'' new_node) ''/img''"
  by (rule register_frame) (simp_all add: plain_url_def segments_def)

text \<open>Registering a second filter under the same first segment discards the first one:
  after \<open>/a/b\<close> and then \<open>/a/c\<close> are registered, \<open>/a/b\<close> has no filter any more.\<close>

theorem second_registration_discards_first:
  assumes "plain_url u1" "segments u1 = [a, b]" "plain_url u2" "segments u2 = [a, c]"
    and "b \<noteq> c" "c \<noteq> ''*''"
  shows "match_filter (register_filter f2 u2 (register_filter f1 u1 root)) u1 = None"
  using assms by (simp add: filter_paths new_node_def)

theorem second_registration_discards_first_witness:
  "match_filter (register_filter (2::nat) ''/admin/log''
     (register_filter 1 ''/admin/users'' new_node)) ''/admin/users'' = None"
  by (rule second_registration_discards_first [where a = "''admin''" and b = "''users''" and c = "''log''"])
     (simp_all add: plain_url_def segments_def)

text \<open>With a final slash \<open>match\<close> looks up the URL without its last character: \<open>/admin/\<close> is
  matched as \<open>/admi\<close>, so the filter of \<open>/admin\<close> does not apply to it.\<close>

theorem trailing_slash_drops_character:
  assumes "plain_url u" "last (butlast u) \<noteq> CHR ''/''" "2 < length u"
  shows "match_filter root (u @ ''/'') = match_filter root (butlast u)"
proof -
  obtain v c where u: "u = v @ [c]" "c \<noteq> CHR ''/''"
    using assms(1) by (cases u rule: rev_cases) (auto simp: plain_url_def)
  from u assms have v: "plain_url v" "v \<noteq> []"
    by (auto simp: plain_url_def nth_append hd_append split: if_splits)
  let ?ss = "split_on (CHR ''/'') (tl v)"
  have ss: "segments v = ?ss" "segments u = butlast ?ss @ [last ?ss @ [c]]"
    using u v by (simp_all add: segments_def tl_append2 split_on_snoc_other)
  have "segments (u @ ''/'') = segments u @ [[]]"
    using u v split_on_snoc_delim [of "CHR ''/''" "tl v @ [c]"]
    by (simp add: segments_def tl_append2)
  then have "match_segs (segments (u @ ''/'')) = segments v"
    using ss match_segs_append_two [of "butlast ?ss" "last ?ss @ [c]"] by simp
  with u v assms(1) show ?thesis
    by (simp add: match_filter_plain) (subst match_filter_path, auto simp: plain_url_def nth_append)
qed

theorem trailing_slash_drops_character_witness:
  "match_filter (register_filter (7::nat) ''/admin'' new_node) ''/admin/''
     = match_filter (register_filter (7::nat) ''/admin'' new_node) ''/admi''"
  using trailing_slash_drops_character
    [of "''/admin''" "register_filter (7::nat) ''/admin'' new_node"]
  by (simp add: plain_url_def)

end
