(* ===== verification/HttpTypes.thy ===== *)
theory HttpTypes
  imports CppString
begin

text \<open>
  The request methods and protocol versions of \<open>src/http/http_conn.h\<close>. The \<open>unordered_map\<close> tables are the lists of
  their initialisers; \<open>map_of\<close> reads such a list as the map does, where the first of two
  equal keys is kept.
\<close>

section \<open>Methods and versions\<close>

datatype http_Methods = GET | POST | PUT | PATCH | DELETE | TRACE | HEAD | OPTIONS | CONNECT

definition http_method_map :: "(http_Methods \<times> string) list" where
  "http_method_map =
     [(GET, ''GET''), (POST, ''POST''), (PUT, ''PUT''), (PATCH, ''PATCH''),
      (DELETE, ''DELETE''), (HEAD, ''HEAD''), (TRACE, ''TRACE''), (OPTIONS, ''OPTIONS''),
      (CONNECT, ''CONNECT'')]"

definition http_method_map_string_to_method :: "(string \<times> http_Methods) list" where
  "http_method_map_string_to_method =
     [(''GET'', GET), (''POST'', POST), (''PUT'', PUT), (''PATCH'', PATCH),
      (''DELETE'', DELETE), (''TRACE'', TRACE), (''HEAD'', HEAD), (''OPTIONS'', OPTIONS),
      (''CONNECT'', CONNECT)]"

datatype http_Version = HTTP_1_0 | HTTP_1_1 | HTTP_2_0

definition http_version_map :: "(http_Version \<times> string) list" where
  "http_version_map =
     [(HTTP_1_0, ''HTTP/1.0''), (HTTP_1_1, ''HTTP/1.1''), (HTTP_2_0, ''HTTP/2.0'')]"

text \<open>The enumerators of \<open>http_Version\<close> compare as their integers do.\<close>

fun version_index :: "http_Version \<Rightarrow> nat" where
  "version_index HTTP_1_0 = 0"
| "version_index HTTP_1_1 = 1"
| "version_index HTTP_2_0 = 2"

lemma version_index_inj: "version_index a = version_index b \<Longrightarrow> a = b"
  by (cases a; cases b) auto

instantiation http_Version :: linorder
begin

definition less_eq_http_Version :: "http_Version \<Rightarrow> http_Version \<Rightarrow> bool" where
  "less_eq_http_Version a b \<longleftrightarrow> version_index a \<le> version_index b"

definition less_http_Version :: "http_Version \<Rightarrow> http_Version \<Rightarrow> bool" where
  "less_http_Version a b \<longleftrightarrow> version_index a < version_index b"

instance
  by standard
     (auto simp: less_eq_http_Version_def less_http_Version_def intro: version_index_inj)

end

section \<open>Properties\<close>

lemma method_tables_inverse:
  "\<exists>t. map_of http_method_map m = Some t \<and> map_of http_method_map_string_to_method t = Some m"
  by (cases m) (simp_all add: http_method_map_def http_method_map_string_to_method_def)

text \<open>Every method has a name, and the name is read back as that method and no other.\<close>

theorem method_name_roundtrip:
  "map_of http_method_map_string_to_method t = Some m \<longleftrightarrow> map_of http_method_map m = Some t"
  by (cases m)
     (auto simp: http_method_map_def http_method_map_string_to_method_def split: if_splits)


end
