(* ===== verification/HttpParse.thy ===== *)
theory HttpParse
  imports HttpTypes
begin

text \<open>
  \<open>http_conn::request_header\<close> and \<open>http_conn::parse_header\<close> of \<open>src/http/http_conn.h\<close>: the
  request line with the query parameters, and the header lines. An exception inside the
  \<open>try\<close> block keeps what was assigned before it. The loop over the query parameters does
  not always end, so it runs on fuel: \<open>None\<close> is a loop that is still running.
\<close>

section \<open>The code\<close>

record request_header =
  rq_method :: http_Methods
  rq_url :: string
  rq_version :: http_Version
  rq_parameters :: "string \<rightharpoonup> string"
  rq_headers :: "string \<rightharpoonup> string list"

text \<open>\<open>clear\<close> leaves the method and the version as they were.\<close>

definition clear_request_header :: "request_header \<Rightarrow> request_header" where
  "clear_request_header h =
     h\<lparr>rq_url := [], rq_parameters := Map.empty, rq_headers := Map.empty\<rparr>"

definition emplace :: "'k \<Rightarrow> 'v \<Rightarrow> ('k \<rightharpoonup> 'v) \<Rightarrow> ('k \<rightharpoonup> 'v)" where
  "emplace k v m = (case m k of None \<Rightarrow> m(k \<mapsto> v) | Some _ \<Rightarrow> m)"

text \<open>One round of the parameter loop: the next \<open>start\<close>, whether \<open>end != npos\<close>, the map.\<close>

definition params_step ::
  "string \<Rightarrow> nat \<Rightarrow> (string \<rightharpoonup> string) \<Rightarrow> (nat \<times> bool \<times> (string \<rightharpoonup> string)) outcome" where
  "params_step url start m =
     (let end1 = find_first_of ''&='' url start in
      bind_out (substr url start (count_sub end1 start)) (\<lambda>key.
      (let start1 = pos_add end1 1;
           end2 = find_first_of ''&'' url start1 in
       bind_out (substr url start1 (count_sub end2 start1)) (\<lambda>value.
       Ret (pos_add end2 1, end2 \<noteq> None, emplace key value m)))))"

fun params_loop ::
  "nat \<Rightarrow> string \<Rightarrow> nat \<Rightarrow> (string \<rightharpoonup> string) \<Rightarrow> (string \<rightharpoonup> string) outcome option" where
  "params_loop 0 url start m = None"
| "params_loop (Suc n) url start m =
     (case params_step url start m of
        Ret (start', again, m') \<Rightarrow>
          if again then params_loop n url start' m' else Some (Ret m')
      | Throw \<Rightarrow> Some Throw
      | Undef \<Rightarrow> Some Undef
      | Blocked \<Rightarrow> Some Blocked)"

text \<open>The version: anything but the three known texts throws.\<close>

definition read_version :: "string \<Rightarrow> http_Version outcome" where
  "read_version v =
     (if v = ''HTTP/1.0'' then Ret HTTP_1_0
      else if v = ''HTTP/1.1'' then Ret HTTP_1_1
      else if v = ''HTTP/2.0'' then Ret HTTP_2_0
      else Throw)"

text \<open>
  The block \<open>if(p1 != npos) { ... try { ... } catch(...) { return false; } }\<close>: the flag is
  false where the catch clause returns. \<open>request_line_pos\<close> is \<open>rl\<close>.
\<close>

definition parse_request_line ::
  "nat \<Rightarrow> string \<Rightarrow> nat option \<Rightarrow> request_header \<Rightarrow> (bool \<times> request_header) option" where
  "parse_request_line fuel data rl h =
     (case find_char (CHR '' '') data 0 of
        None \<Rightarrow> Some (True, h)
      | Some p1 \<Rightarrow>
          (case map_of http_method_map_string_to_method (take p1 data) of
             None \<Rightarrow> Some (False, h)
           | Some m \<Rightarrow>
               (let h1 = h\<lparr>rq_method := m\<rparr> in
                case find_char (CHR '' '') data (p1 + 1) of
                  None \<Rightarrow> Some (True, h1)
                | Some p2 \<Rightarrow>
                    (let url = take (p2 - p1 - 1) (drop (p1 + 1) data);
                         parsed =
                           (case find_char (CHR ''?'') url 0 of
                              None \<Rightarrow> Some (Ret (h1\<lparr>rq_url := url\<rparr>))
                            | Some q \<Rightarrow>
                                (let h2 = h1\<lparr>rq_url := take q url\<rparr> in
                                 map_option
                                   (\<lambda>r. bind_out r (\<lambda>m. Ret (h2\<lparr>rq_parameters := m\<rparr>)))
                                   (params_loop fuel url (q + 1) (rq_parameters h2))))
                     in case parsed of
                          None \<Rightarrow> None
                        | Some (Ret h3) \<Rightarrow>
                            (case bind_out (substr data (p2 + 1) (count_sub rl (p2 + 1))) read_version of
                               Ret v \<Rightarrow> Some (True, h3\<lparr>rq_version := v\<rparr>)
                             | _ \<Rightarrow> Some (False, h3))
                        | Some _ \<Rightarrow> Some (False, h1\<lparr>rq_url := takeWhile (\<lambda>c. c \<noteq> CHR ''?'') url\<rparr>)))))"

text \<open>\<open>value.erase(0, find_first_not_of(' '))\<close>, then \<open>value.erase(find_last_not_of(' ') + 1)\<close>.\<close>

definition trim_value :: "string \<Rightarrow> string" where
  "trim_value v =
     (let v1 = (case find_first_not_of (CHR '' '') v of None \<Rightarrow> [] | Some i \<Rightarrow> drop i v)
      in take (pos_add (find_last_not_of (CHR '' '') v1) 1) v1)"

text \<open>\<open>headers[last].back() += line\<close>; \<open>back()\<close> of an empty vector is undefined.\<close>

definition append_continuation ::
  "string \<Rightarrow> string \<Rightarrow> (string \<rightharpoonup> string list) \<Rightarrow> (string \<rightharpoonup> string list) outcome" where
  "append_continuation last_header line hs =
     (case hs last_header of
        None \<Rightarrow> Undef
      | Some vs \<Rightarrow>
          if vs = [] then Undef
          else Ret (hs(last_header \<mapsto> butlast vs @ [last vs @ line])))"

fun parse_lines ::
  "string list \<Rightarrow> string \<Rightarrow> (string \<rightharpoonup> string list) \<Rightarrow> (string \<rightharpoonup> string list) outcome" where
  "parse_lines [] last_header hs = Ret hs"
| "parse_lines (raw # rest) last_header hs =
     (if raw = [] then Ret hs
      else let line = butlast raw in
        if line \<noteq> [] \<and> (hd line = CHR '' '' \<or> hd line = HT) then
          (if last_header \<noteq> [] then
             bind_out (append_continuation last_header line hs)
               (\<lambda>hs'. parse_lines rest last_header hs')
           else parse_lines rest last_header hs)
        else
          (case find_char (CHR '':'') line 0 of
             None \<Rightarrow> parse_lines rest last_header hs
           | Some pos \<Rightarrow>
               (let name = take pos line;
                    value = trim_value (drop (pos + 1) line) in
                if name = ''User-Agent'' then parse_lines rest last_header (hs(name \<mapsto> [value]))
                else parse_lines rest name (hs(name \<mapsto> getlines (CHR '','') value)))))"

definition parse_header ::
  "nat \<Rightarrow> string \<Rightarrow> request_header \<Rightarrow> (bool \<times> request_header) outcome option" where
  "parse_header fuel data h =
     (let rl = find_sub [CR, LF] data in
      case parse_request_line fuel data rl h of
        None \<Rightarrow> None
      | Some (ok, h1) \<Rightarrow>
          if \<not> ok then Some (Ret (False, h1))
          else Some (bind_out (substr data (pos_add rl 2) None) (\<lambda>text.
                     bind_out (parse_lines (getlines LF text) [] (rq_headers h1)) (\<lambda>hs.
                     Ret (True, h1\<lparr>rq_headers := hs\<rparr>)))))"

section \<open>Query parameters\<close>

definition query_key :: "string \<Rightarrow> bool" where
  "query_key k \<longleftrightarrow> CHR ''&'' \<notin> set k \<and> CHR ''='' \<notin> set k"

definition query_value :: "string \<Rightarrow> bool" where
  "query_value v \<longleftrightarrow> CHR ''&'' \<notin> set v"

fun show_query :: "(string \<times> string) list \<Rightarrow> string" where
  "show_query [] = []"
| "show_query [(k, v)] = k @ CHR ''='' # v"
| "show_query ((k, v) # kvs) = k @ CHR ''='' # v @ CHR ''&'' # show_query kvs"

lemma find_first_of_hit:
  assumes "drop pos s = a @ c # b" "c \<in> set cs" "set a \<inter> set cs = {}"
  shows "find_first_of cs s pos = Some (pos + length a)"
proof -
  have "find_if (\<lambda>x. x \<in> set cs) (a @ c # b) = Some (length a)"
    by (rule find_if_append_Cons) (use assms in auto)
  with assms(1) show ?thesis by (simp add: find_first_of_def)
qed

lemma find_first_of_miss:
  "set (drop pos s) \<inter> set cs = {} \<Longrightarrow> find_first_of cs s pos = None"
  by (auto simp: find_first_of_def find_if_None_iff)

lemma drop_shift:
  assumes "drop pos s = a @ b"
  shows "drop (pos + length a) s = b"
proof -
  have "drop (pos + length a) s = drop (length a) (drop pos s)" by (simp add: add.commute)
  with assms show ?thesis by simp
qed

lemma drop_eq_length: "drop pos s = t \<Longrightarrow> t \<noteq> [] \<Longrightarrow> pos + length t = length s"
  by auto

lemma params_step_no_throw:
  assumes "start \<le> length url"
  shows "\<exists>s' b m'. params_step url start m = Ret (s', b, m') \<and> s' \<le> length url"
proof -
  have bound: "pos_add p 1 \<le> length url"
    if "p = find_first_of cs url i" for p cs i
    using that find_first_of_bounds(2) [of cs url i] by (cases p) (fastforce simp: Suc_le_eq)+
  show ?thesis
    using assms bound [OF refl, of "''&=''" start]
      bound [OF refl, of "''&''" "pos_add (find_first_of ''&='' url start) 1"]
    by (auto simp: params_step_def substr_def Let_def)
qed

lemma step_pair_more:
  assumes d: "drop start url = k @ CHR ''='' # v @ CHR ''&'' # rest"
    and ok: "query_key k" "query_value v"
  shows "params_step url start m =
     Ret (start + length k + length v + 2, True, emplace k v m)"
    and "drop (start + length k + length v + 2) url = rest"
    and "start + length k + length v + 2 \<le> length url"
proof -
  have len: "start + (length k + length v + length rest + 2) = length url"
    using drop_eq_length [OF d] by simp
  have e1: "find_first_of ''&='' url start = Some (start + length k)"
    by (rule find_first_of_hit [OF d]) (use ok in \<open>auto simp: query_key_def\<close>)
  have d1: "drop (start + length k + 1) url = v @ CHR ''&'' # rest"
    using drop_shift [of start url "k @ ''=''"] d by simp
  have e2: "find_first_of ''&'' url (start + length k + 1) = Some (start + length k + 1 + length v)"
    by (rule find_first_of_hit [OF d1]) (use ok in \<open>auto simp: query_value_def\<close>)
  show "params_step url start m = Ret (start + length k + length v + 2, True, emplace k v m)"
    using e1 e2 d d1 len by (simp add: params_step_def substr_def count_sub_def Let_def)
  show "drop (start + length k + length v + 2) url = rest"
    using drop_shift [of start url "k @ ''='' @ v @ ''&''" rest] d by (simp add: algebra_simps)
  show "start + length k + length v + 2 \<le> length url" using len by simp
qed

lemma step_pair_last:
  assumes d: "drop start url = k @ CHR ''='' # v" and ok: "query_key k" "query_value v"
  shows "params_step url start m = Ret (0, False, emplace k v m)"
proof -
  have len: "start + (length k + length v + 1) = length url"
    using drop_eq_length [OF d] by simp
  have e1: "find_first_of ''&='' url start = Some (start + length k)"
    by (rule find_first_of_hit [OF d]) (use ok in \<open>auto simp: query_key_def\<close>)
  have d1: "drop (start + length k + 1) url = v"
    using drop_shift [of start url "k @ ''=''"] d by simp
  have e2: "find_first_of ''&'' url (start + length k + 1) = None"
    by (rule find_first_of_miss) (use ok d1 in \<open>auto simp: query_value_def\<close>)
  show ?thesis
    using e1 e2 d d1 len by (simp add: params_step_def substr_def count_sub_def Let_def)
qed

text \<open>A last segment without \<open>=\<close>: \<open>start = npos + 1\<close> is 0, and the value is read from the
  beginning of the URL.\<close>

lemma step_bare_last:
  assumes d: "drop start url = k" and ok: "query_key k" and le: "start \<le> length url"
  shows "params_step url start m =
     (case find_first_of ''&'' url 0 of
        None \<Rightarrow> Ret (0, False, emplace k url m)
      | Some p \<Rightarrow> Ret (p + 1, True, emplace k (take p url) m))"
proof -
  have e1: "find_first_of ''&='' url start = None"
    by (rule find_first_of_miss) (use ok d in \<open>auto simp: query_key_def\<close>)
  then show ?thesis
    using d le by (auto simp: params_step_def substr_def count_sub_def Let_def split: option.split)
qed

definition query_ok :: "(string \<times> string) list \<Rightarrow> bool" where
  "query_ok kvs \<longleftrightarrow> list_all (\<lambda>(k, v). query_key k \<and> query_value v) kvs"

definition emplace_all :: "(string \<times> string) list \<Rightarrow> (string \<rightharpoonup> string) \<Rightarrow> (string \<rightharpoonup> string)" where
  "emplace_all kvs m = foldl (\<lambda>m (k, v). emplace k v m) m kvs"

lemma params_loop_query:
  assumes "drop start url = show_query kvs" "query_ok kvs" "kvs \<noteq> []" "length kvs \<le> fuel"
  shows "params_loop fuel url start m = Some (Ret (emplace_all kvs m))"
  using assms
proof (induction kvs arbitrary: start m fuel rule: show_query.induct)
  case (2 k v)
  then obtain n where "fuel = Suc n" by (cases fuel) auto
  with 2 step_pair_last [of start url k v] show ?case
    by (simp add: query_ok_def emplace_all_def)
next
  case (3 k v kv kvs)
  then obtain n where n: "fuel = Suc n" by (cases fuel) auto
  from 3 have d: "drop start url = k @ CHR ''='' # v @ CHR ''&'' # show_query (kv # kvs)"
    and ok: "query_key k" "query_value v" by (simp_all add: query_ok_def)
  note step = step_pair_more [OF d ok]
  from 3(1) [OF step(2)] 3(3,5) n step(1) show ?case
    by (simp add: query_ok_def emplace_all_def)
qed simp

lemma emplace_all_map_of:
  "emplace_all kvs m = map_of kvs ++ m"
proof (induction kvs arbitrary: m)
  case Nil
  then show ?case by (simp add: emplace_all_def)
next
  case (Cons kv kvs)
  obtain k v where kv: "kv = (k, v)" by (cases kv)
  have "emplace_all (kv # kvs) m = emplace_all kvs (emplace k v m)"
    by (simp add: emplace_all_def kv)
  also have "\<dots> = map_of kvs ++ emplace k v m" by (rule Cons.IH)
  also have "\<dots> = map_of (kv # kvs) ++ m"
    by (rule ext) (auto simp: kv emplace_def map_add_def split: option.splits)
  finally show ?case .
qed

text \<open>A query whose last segment has no \<open>=\<close>, after at least one pair.\<close>

fun show_tail :: "(string \<times> string) list \<Rightarrow> string \<Rightarrow> string" where
  "show_tail [] b = b"
| "show_tail ((k, v) # kvs) b = k @ CHR ''='' # v @ CHR ''&'' # show_tail kvs b"

lemma params_loop_diverges_aux:
  assumes url: "url = path @ CHR ''?'' # show_tail ((k0, v0) # kvs0) b"
    and path: "CHR ''&'' \<notin> set path" and ok0: "query_ok ((k0, v0) # kvs0)" and b: "query_key b"
    and at: "start \<le> length url" "drop start url = show_tail kvs b" "query_ok kvs"
  shows "params_loop fuel url start m = None"
  using at
proof (induction fuel arbitrary: start kvs m)
  case (Suc n)
  let ?pre = "path @ CHR ''?'' # k0 @ CHR ''='' # v0"
  have first: "find_first_of ''&'' url 0 = Some (length ?pre)"
    using find_first_of_hit [of 0 url ?pre "CHR ''&''" "show_tail kvs0 b" "''&''"]
      url path ok0 by (simp add: query_ok_def query_key_def query_value_def)
  have "url = (?pre @ ''&'') @ show_tail kvs0 b" using url by simp
  then have rest: "drop (length ?pre + 1) url = show_tail kvs0 b" "length ?pre + 1 \<le> length url"
    using append_eq_conv_conj [of "?pre @ ''&''" "show_tail kvs0 b" url] by auto
  show ?case
  proof (cases kvs)
    case Nil
    then have d: "drop start url = b" using Suc.prems by simp
    have "params_loop n url (length ?pre + 1) (emplace b (take (length ?pre) url) m) = None"
      by (rule Suc.IH [OF rest(2,1)]) (use ok0 in \<open>simp add: query_ok_def\<close>)
    with step_bare_last [OF d b Suc.prems(1)] first show ?thesis by simp
  next
    case (Cons kv kvs')
    obtain k v where kv: "kv = (k, v)" by (cases kv)
    have d: "drop start url = k @ CHR ''='' # v @ CHR ''&'' # show_tail kvs' b"
      and ok: "query_key k" "query_value v" "query_ok kvs'"
      using Suc.prems Cons kv by (simp_all add: query_ok_def)
    note step = step_pair_more [OF d ok(1,2)]
    from Suc.IH [OF step(3,2) ok(3)] step(1) show ?thesis by simp
  qed
qed simp

section \<open>Request lines and header lines\<close>

definition method_text :: "http_Methods \<Rightarrow> string" where
  "method_text m = (case map_of http_method_map m of None \<Rightarrow> [] | Some t \<Rightarrow> t)"

definition version_text :: "http_Version \<Rightarrow> string" where
  "version_text v = (case map_of http_version_map v of None \<Rightarrow> [] | Some t \<Rightarrow> t)"

definition show_header :: "string \<times> string \<Rightarrow> string" where
  "show_header nv = fst nv @ '': '' @ snd nv @ [CR, LF]"

definition request_text :: "http_Methods \<Rightarrow> string \<Rightarrow> http_Version \<Rightarrow> (string \<times> string) list \<Rightarrow> string" where
  "request_text m url v hs =
     method_text m @ CHR '' '' # url @ CHR '' '' # version_text v @ CR # LF # concat (map show_header hs)"

definition header_values :: "string \<Rightarrow> string \<Rightarrow> string list" where
  "header_values n v = (if n = ''User-Agent'' then [v] else getlines (CHR '','') v)"

definition header_ok :: "string \<times> string \<Rightarrow> bool" where
  "header_ok nv \<longleftrightarrow>
     (let (n, v) = nv in
      n \<noteq> [] \<and> hd n \<noteq> CHR '' '' \<and> hd n \<noteq> HT \<and> CHR '':'' \<notin> set n \<and> LF \<notin> set n \<and> LF \<notin> set v \<and>
      (v = [] \<or> hd v \<noteq> CHR '' '' \<and> last v \<noteq> CHR '' ''))"

lemma find_sub_CRLF: "CR \<notin> set a \<Longrightarrow> find_sub [CR, LF] (a @ CR # LF # r) = Some (length a)"
  by (induction a) auto

lemma find_char_hit:
  "drop pos s = a @ c # b \<Longrightarrow> c \<notin> set a \<Longrightarrow> find_char c s pos = Some (pos + length a)"
  using find_if_append_Cons [of a "\<lambda>x. x = c" c b] by (auto simp: find_char_def)

lemma find_char_miss: "c \<notin> set (drop pos s) \<Longrightarrow> find_char c s pos = None"
  by (auto simp: find_char_def find_if_None_iff)

lemma trim_value_space:
  assumes "v = [] \<or> hd v \<noteq> CHR '' '' \<and> last v \<noteq> CHR '' ''"
  shows "trim_value (CHR '' '' # v) = v"
proof (cases v)
  case Nil
  then show ?thesis by (simp add: trim_value_def find_first_not_of_def find_last_not_of_def)
next
  case (Cons c cs)
  then obtain x xs where "rev v = x # xs" "x = last v"
    by (metis hd_rev list.sel(1) neq_Nil_conv rev_is_Nil_conv)
  with Cons assms show ?thesis
    by (simp add: trim_value_def find_first_not_of_def find_last_not_of_def Let_def)
qed

lemma getlines_headers:
  "list_all header_ok hs \<Longrightarrow>
   getlines LF (concat (map show_header hs)) = map (\<lambda>nv. fst nv @ '': '' @ snd nv @ [CR]) hs"
proof (induction hs)
  case (Cons nv hs)
  have "LF \<notin> set (fst nv @ '': '' @ snd nv @ [CR])"
    using Cons.prems by (auto simp: header_ok_def split: prod.splits)
  moreover have "concat (map show_header (nv # hs)) =
      (fst nv @ '': '' @ snd nv @ [CR]) @ LF # concat (map show_header hs)"
    by (simp add: show_header_def)
  ultimately have "getlines LF (concat (map show_header (nv # hs))) =
      (fst nv @ '': '' @ snd nv @ [CR]) # getlines LF (concat (map show_header hs))"
    using getlines_append_delim by presburger
  with Cons show ?case by simp
qed simp

definition put_header :: "(string \<rightharpoonup> string list) \<Rightarrow> string \<times> string \<Rightarrow> (string \<rightharpoonup> string list)" where
  "put_header m nv = m(fst nv \<mapsto> header_values (fst nv) (snd nv))"

lemma parse_lines_headers:
  "list_all header_ok hs \<Longrightarrow>
   parse_lines (map (\<lambda>nv. fst nv @ '': '' @ snd nv @ [CR]) hs) l m = Ret (foldl put_header m hs)"
proof (induction hs arbitrary: l m)
  case (Cons nv hs)
  obtain n v where nv: "nv = (n, v)" by (cases nv)
  from Cons.prems have rest: "list_all header_ok hs" and "header_ok nv" by simp_all
  then have ok: "n \<noteq> []" "hd n \<noteq> CHR '' ''" "hd n \<noteq> HT" "CHR '':'' \<notin> set n"
      "trim_value (CHR '' '' # v) = v"
    by (auto simp: nv header_ok_def trim_value_space)
  have bl: "butlast (n @ CHR '':'' # CHR '' '' # v @ [CR]) = n @ CHR '':'' # CHR '' '' # v"
    by (simp add: butlast_append)
  have colon: "find_char (CHR '':'') (n @ CHR '':'' # CHR '' '' # v) 0 = Some (length n)"
    using find_char_hit [of 0 "n @ CHR '':'' # CHR '' '' # v" n "CHR '':''"] ok by simp
  have put: "put_header m nv =
      m(n \<mapsto> if n = ''User-Agent'' then [v] else getlines (CHR '','') v)"
    by (simp add: nv put_header_def header_values_def)
  show ?case
    using ok bl colon Cons.IH [OF rest] put by (simp add: nv Let_def fun_upd_def)
qed simp

lemma method_text_facts:
  "map_of http_method_map_string_to_method (method_text m) = Some m"
  "CHR '' '' \<notin> set (method_text m)" "CR \<notin> set (method_text m)"
  by (cases m; simp add: method_text_def http_method_map_def http_method_map_string_to_method_def)+

lemma version_text_facts:
  "read_version (version_text v) = Ret v" "CR \<notin> set (version_text v)"
  by (cases v; simp add: version_text_def http_version_map_def read_version_def)+

definition url_chars :: "string \<Rightarrow> bool" where
  "url_chars s \<longleftrightarrow> CHR '' '' \<notin> set s \<and> CR \<notin> set s"

text \<open>Where the pieces of a request are.\<close>

lemma request_text_positions:
  fixes m url v hs
  assumes "url_chars url"
  defines "data \<equiv> request_text m url v hs"
    and "p1 \<equiv> length (method_text m)"
    and "p2 \<equiv> length (method_text m) + 1 + length url"
  shows "find_char (CHR '' '') data 0 = Some p1" "take p1 data = method_text m"
    and "find_char (CHR '' '') data (p1 + 1) = Some p2"
    and "take (p2 - p1 - 1) (drop (p1 + 1) data) = url"
    and "find_sub [CR, LF] data = Some (p2 + 1 + length (version_text v))"
    and "substr data (p2 + 1) (count_sub (find_sub [CR, LF] data) (p2 + 1)) = Ret (version_text v)"
    and "substr data (pos_add (find_sub [CR, LF] data) 2) None = Ret (concat (map show_header hs))"
proof -
  let ?tail = "concat (map show_header hs)"
  let ?a = "method_text m @ CHR '' '' # url @ CHR '' '' # version_text v"
  have data: "data = method_text m @ CHR '' '' # url @ CHR '' '' # version_text v @ CR # LF # ?tail"
    by (simp add: data_def request_text_def)
  show "find_char (CHR '' '') data 0 = Some p1"
    using find_char_hit [of 0 data "method_text m"] data method_text_facts by (simp add: p1_def)
  show "take p1 data = method_text m" by (simp add: data p1_def)
  have d1: "drop (p1 + 1) data = url @ CHR '' '' # version_text v @ CR # LF # ?tail"
    by (simp add: data p1_def)
  show "find_char (CHR '' '') data (p1 + 1) = Some p2"
    using find_char_hit [OF d1] assms(1) by (simp add: url_chars_def p1_def p2_def)
  show "take (p2 - p1 - 1) (drop (p1 + 1) data) = url"
    using d1 by (simp add: p1_def p2_def)
  have "data = ?a @ CR # LF # ?tail" by (simp add: data)
  moreover have "CR \<notin> set ?a"
    using assms(1) method_text_facts version_text_facts by (auto simp: url_chars_def)
  ultimately show rl: "find_sub [CR, LF] data = Some (p2 + 1 + length (version_text v))"
    using find_sub_CRLF [of ?a ?tail] by (simp add: p2_def)
  have d2: "drop (p2 + 1) data = version_text v @ CR # LF # ?tail"
    using drop_shift [OF d1] drop_shift [of p2 data "'' ''" "version_text v @ CR # LF # ?tail"]
    by (simp add: p1_def p2_def)
  then show "substr data (p2 + 1) (count_sub (find_sub [CR, LF] data) (p2 + 1)) = Ret (version_text v)"
    using drop_eq_length [OF d2] by (simp add: rl count_sub_def)
  have d3: "drop (p2 + 1 + length (version_text v) + 2) data = ?tail"
    using drop_shift [of "p2 + 1" data "version_text v @ [CR, LF]" ?tail] d2 by simp
  then show "substr data (pos_add (find_sub [CR, LF] data) 2) None = Ret ?tail"
    using drop_eq_length [OF d2] by (simp add: rl)
qed

fun show_url :: "string \<Rightarrow> (string \<times> string) list \<Rightarrow> string" where
  "show_url path [] = path"
| "show_url path kvs = path @ CHR ''?'' # show_query kvs"

lemma parse_url:
  assumes "CHR ''?'' \<notin> set path" "query_ok kvs" "length kvs \<le> fuel"
  shows "(case find_char (CHR ''?'') (show_url path kvs) 0 of
            None \<Rightarrow> Some (Ret (h\<lparr>rq_url := show_url path kvs\<rparr>))
          | Some q \<Rightarrow>
              (let h2 = h\<lparr>rq_url := take q (show_url path kvs)\<rparr> in
               map_option (\<lambda>r. bind_out r (\<lambda>m. Ret (h2\<lparr>rq_parameters := m\<rparr>)))
                 (params_loop fuel (show_url path kvs) (q + 1) (rq_parameters h2)))) =
         Some (Ret (h\<lparr>rq_url := path, rq_parameters := map_of kvs ++ rq_parameters h\<rparr>))"
proof (cases kvs)
  case Nil
  with assms show ?thesis by (simp add: find_char_miss)
next
  case (Cons kv kvs')
  then have u: "show_url path kvs = path @ CHR ''?'' # show_query kvs" by simp
  have q: "find_char (CHR ''?'') (show_url path kvs) 0 = Some (length path)"
    using find_char_hit [of 0 "show_url path kvs" path] u assms(1) by simp
  have "drop (length path + 1) (show_url path kvs) = show_query kvs" by (simp add: u)
  then have "params_loop fuel (show_url path kvs) (length path + 1) m = Some (Ret (map_of kvs ++ m))" for m
    using params_loop_query [OF _ assms(2) _ assms(3)] Cons by (simp add: emplace_all_map_of)
  with q u show ?thesis by (simp add: Let_def)
qed

lemma parse_request:
  assumes "CHR ''?'' \<notin> set path" "url_chars (show_url path kvs)" "query_ok kvs"
    and "list_all header_ok hs" "length kvs \<le> fuel"
  shows "parse_header fuel (request_text m (show_url path kvs) v hs) (clear_request_header h) =
    Some (Ret (True, \<lparr>rq_method = m, rq_url = path, rq_version = v, rq_parameters = map_of kvs,
                      rq_headers = foldl put_header Map.empty hs\<rparr>))"
proof -
  note pos = request_text_positions [OF assms(2), of m v hs]
  have "parse_request_line fuel (request_text m (show_url path kvs) v hs)
          (find_sub [CR, LF] (request_text m (show_url path kvs) v hs)) (clear_request_header h) =
        Some (True, \<lparr>rq_method = m, rq_url = path, rq_version = v, rq_parameters = map_of kvs,
                     rq_headers = Map.empty\<rparr>)"
    unfolding parse_request_line_def Let_def pos(1) option.case pos(2) method_text_facts(1)
      pos(3) pos(4) pos(6) bind_out.simps version_text_facts(1)
    unfolding parse_url [OF assms(1,3,5), unfolded Let_def] option.case outcome.case
    by (simp add: clear_request_header_def)
  moreover have "parse_lines (getlines LF (concat (map show_header hs))) [] Map.empty =
      Ret (foldl put_header Map.empty hs)"
    by (simp only: getlines_headers parse_lines_headers assms(4))
  ultimately show ?thesis
    unfolding parse_header_def Let_def pos(7) by simp
qed

section \<open>Properties\<close>

definition old_request :: request_header where
  "old_request = \<lparr>rq_method = DELETE, rq_url = ''/x'', rq_version = HTTP_1_0,
     rq_parameters = Map.empty, rq_headers = Map.empty\<rparr>"

text \<open>C2: A well-formed request is parsed to exactly what it says: the method, the path without
  the query, the query's pairs (the first one of each key), the version, and for every header the
  list of its comma-separated values. The parameter loop ends after one round per pair.\<close>

theorem parse_header_request:
  assumes "CHR ''?'' \<notin> set path" "url_chars (show_url path kvs)" "query_ok kvs"
    and "list_all header_ok hs" "length kvs \<le> fuel"
  shows "parse_header fuel (request_text m (show_url path kvs) v hs) (clear_request_header h) =
    Some (Ret (True, \<lparr>rq_method = m, rq_url = path, rq_version = v, rq_parameters = map_of kvs,
                      rq_headers = foldl put_header Map.empty hs\<rparr>))"
  by (rule parse_request [OF assms])

theorem parse_header_request_witness:
  "parse_header 5 (request_text GET ''/a?x=1&y=2'' HTTP_1_1 [(''Host'', ''me'')]) (clear_request_header old_request) =
    Some (Ret (True, \<lparr>rq_method = GET, rq_url = ''/a'', rq_version = HTTP_1_1,
      rq_parameters = map_of [(''x'', ''1''), (''y'', ''2'')],
      rq_headers = foldl put_header Map.empty [(''Host'', ''me'')]\<rparr>))"
  using parse_header_request
    [of "''/a''" "[(''x'', ''1''), (''y'', ''2'')]" "[(''Host'', ''me'')]" 5 GET HTTP_1_1 old_request]
  by (simp add: url_chars_def query_ok_def query_key_def query_value_def header_ok_def)



text \<open>When the first read does not hold the empty line that ends the headers, \<open>process_in\<close>
  passes only the first character on, and \<open>parse_header\<close> accepts it: the request keeps the method
  and version of the connection's previous request, with an empty URL.\<close>

theorem incomplete_request_accepted:
  assumes "c \<noteq> CHR '' ''"
  shows "parse_header fuel [c] (clear_request_header h) = Some (Ret (True, clear_request_header h))"
  using assms
  by (simp add: parse_header_def parse_request_line_def find_char_def Let_def clear_request_header_def
      substr_def)

theorem incomplete_request_accepted_witness:
  "parse_header 0 ''P'' (clear_request_header old_request) =
     Some (Ret (True, clear_request_header old_request))"
  by (rule incomplete_request_accepted) simp

end
