(* ===== verification/HttpTables.thy ===== *)
theory HttpTables
  imports CppString
begin

text \<open>
  The status codes and content types at the head of \<open>src/http/http_conn.h\<close>.
  The \<open>unordered_map\<close> tables are the lists of their initialisers; \<open>map_of\<close> reads such a
  list as the map does, where the first of two equal keys is kept.
\<close>

section \<open>Status codes\<close>

datatype http_Status =
    Continue | Switching_Protocols | Processing | OK_status | Created | Accepted
  | Non_Authoritative_information | No_Content | Reset_Content | Partial_Content | Multi_Status
  | Multiple_Choice | Moved_Permanently | Move_Temporarily | See_Other | Not_Modified
  | Use_Proxy | Switch_Proxy | Temporary_Redirect | Bad_Request | Unauthorized
  | Payment_Required | Forbidden | Not_Found | Method_Not_Allowed | Not_Acceptable
  | Proxy_Authentication_Required | Request_Timeout | Conflict | Gone | Length_Required
  | Precondition_Failed | Request_Entity_Too_Large | Request_URI_Too_Long
  | Unsupported_Media_Type | Requested_Range_Not_Satisfiable | Expectation_Failed
  | I_Am_A_Teapot | Misdirected_Request | Unprocessable_Entity | Locked | Failed_Dependency
  | Too_Early | Upgrade_Required | Retry_With | Unavailable_For_Legal_Reasons

definition all_statuses :: "http_Status list" where
  "all_statuses =
     [Continue, Switching_Protocols, Processing, OK_status, Created, Accepted,
      Non_Authoritative_information, No_Content, Reset_Content, Partial_Content, Multi_Status,
      Multiple_Choice, Moved_Permanently, Move_Temporarily, See_Other, Not_Modified, Use_Proxy,
      Switch_Proxy, Temporary_Redirect, Bad_Request, Unauthorized, Payment_Required, Forbidden,
      Not_Found, Method_Not_Allowed, Not_Acceptable, Proxy_Authentication_Required,
      Request_Timeout, Conflict, Gone, Length_Required, Precondition_Failed,
      Request_Entity_Too_Large, Request_URI_Too_Long, Unsupported_Media_Type,
      Requested_Range_Not_Satisfiable, Expectation_Failed, I_Am_A_Teapot, Misdirected_Request,
      Unprocessable_Entity, Locked, Failed_Dependency, Too_Early, Upgrade_Required, Retry_With,
      Unavailable_For_Legal_Reasons]"

text \<open>The \<open>int32_t\<close> value of an enumerator.\<close>

fun status_code :: "http_Status \<Rightarrow> int" where
  "status_code Continue = 100"
| "status_code Switching_Protocols = 101"
| "status_code Processing = 102"
| "status_code OK_status = 200"
| "status_code Created = 201"
| "status_code Accepted = 202"
| "status_code Non_Authoritative_information = 203"
| "status_code No_Content = 204"
| "status_code Reset_Content = 205"
| "status_code Partial_Content = 206"
| "status_code Multi_Status = 207"
| "status_code Multiple_Choice = 300"
| "status_code Moved_Permanently = 301"
| "status_code Move_Temporarily = 302"
| "status_code See_Other = 303"
| "status_code Not_Modified = 304"
| "status_code Use_Proxy = 305"
| "status_code Switch_Proxy = 306"
| "status_code Temporary_Redirect = 307"
| "status_code Bad_Request = 400"
| "status_code Unauthorized = 401"
| "status_code Payment_Required = 402"
| "status_code Forbidden = 403"
| "status_code Not_Found = 404"
| "status_code Method_Not_Allowed = 405"
| "status_code Not_Acceptable = 406"
| "status_code Proxy_Authentication_Required = 407"
| "status_code Request_Timeout = 408"
| "status_code Conflict = 409"
| "status_code Gone = 410"
| "status_code Length_Required = 411"
| "status_code Precondition_Failed = 412"
| "status_code Request_Entity_Too_Large = 413"
| "status_code Request_URI_Too_Long = 414"
| "status_code Unsupported_Media_Type = 415"
| "status_code Requested_Range_Not_Satisfiable = 416"
| "status_code Expectation_Failed = 417"
| "status_code I_Am_A_Teapot = 418"
| "status_code Misdirected_Request = 421"
| "status_code Unprocessable_Entity = 422"
| "status_code Locked = 423"
| "status_code Failed_Dependency = 422"
| "status_code Too_Early = 425"
| "status_code Upgrade_Required = 426"
| "status_code Retry_With = 449"
| "status_code Unavailable_For_Legal_Reasons = 451"

text \<open>The table is keyed by the value: two enumerators with one value are one key.\<close>

definition http_status_map :: "(int \<times> string) list" where
  "http_status_map = map (\<lambda>(k, v). (status_code k, v))
     [(Continue, ''Continue''), (Switching_Protocols, ''Switching Protocols''),
      (Processing, ''Processing''), (OK_status, ''OK''), (Created, ''Created''),
      (Accepted, ''Accepted''),
      (Non_Authoritative_information, ''Non-Authoritative Information''),
      (No_Content, ''No Content''), (Reset_Content, ''Reset Content''),
      (Partial_Content, ''Partial Content''), (Multi_Status, ''Multi-Status''),
      (Multiple_Choice, ''Multiple Choices''), (Moved_Permanently, ''Moved Permanently''),
      (Move_Temporarily, ''Moved Temporarily''), (See_Other, ''See Other''),
      (Not_Modified, ''Not Modified''), (Use_Proxy, ''Use Proxy''),
      (Switch_Proxy, ''Switch Proxy''), (Temporary_Redirect, ''Temporary Redirect''),
      (Bad_Request, ''Bad Request''), (Unauthorized, ''Unauthorized''),
      (Payment_Required, ''Payment Required''), (Forbidden, ''Forbidden''),
      (Not_Found, ''Not Found''), (Method_Not_Allowed, ''Method Not Allowed''),
      (Not_Acceptable, ''Not Acceptable''),
      (Proxy_Authentication_Required, ''Proxy Authentication Required''),
      (Request_Timeout, ''Request Timeout''), (Conflict, ''Conflict''), (Gone, ''Gone''),
      (Length_Required, ''Length Required''), (Precondition_Failed, ''Precondition Failed''),
      (Request_Entity_Too_Large, ''Request Entity Too Large''),
      (Request_URI_Too_Long, ''Request-URI Too Long''),
      (Unsupported_Media_Type, ''Unsupported Media Type''),
      (Requested_Range_Not_Satisfiable, ''Requested Range Not Satisfiable''),
      (Expectation_Failed, ''Expectation Failed''),
      (I_Am_A_Teapot, (''I'' @ CHR 0x27 # ''m a teapot'')),
      (Misdirected_Request, ''Misdirected Request''),
      (Unprocessable_Entity, ''Unprocessable Entity''), (Locked, ''Locked''),
      (Failed_Dependency, ''Failed Dependency''), (Too_Early, ''Too Early''),
      (Upgrade_Required, ''Upgrade Required''), (Retry_With, ''Retry With''),
      (Unavailable_For_Legal_Reasons, ''Unavailable For Legal Reasons'')]"

definition status_text :: "http_Status \<Rightarrow> string outcome" where
  "status_text st = (case map_of http_status_map (status_code st) of None \<Rightarrow> Throw | Some t \<Rightarrow> Ret t)"

section \<open>Content types\<close>

definition http_content_type_map :: "(string \<times> string) list" where
  "http_content_type_map =
     [(''html'', ''text/html''), (''htm'', ''text/html''), (''shtml'', ''text/html''),
      (''css'', ''text/css''), (''xml'', ''text/xml''), (''gif'', ''image/gif''),
      (''jpeg'', ''image/jpeg''), (''jpg'', ''image/jpeg''),
      (''js'', ''application/javascript''), (''atom'', ''application/atom+xml''),
      (''rss'', ''application/rss+xml''), (''mml'', ''text/mathml''),
      (''txt'', ''text/plain''), (''jad'', ''text/vnd.sun.j2me.app-descriptor''),
      (''wml'', ''text/vnd.wap.wml''), (''htc'', ''text/x-component''),
      (''png'', ''image/png''), (''tif'', ''image/tiff''), (''tiff'', ''image/tiff''),
      (''wbmp'', ''image/vnd.wap.wbmp''), (''ico'', ''image/x-icon''),
      (''jng'', ''image/x-jng''), (''bmp'', ''image/x-ms-bmp''), (''svg'', ''image/svg+xml''),
      (''svgz'', ''image/svg+xml''), (''webp'', ''image/webp''),
      (''woff'', ''application/font-woff''), (''woff2'', ''application/font-woff''),
      (''jar'', ''application/java-archive''), (''war'', ''application/java-archive''),
      (''ear'', ''application/java-archive''), (''json'', ''application/json''),
      (''hqx'', ''application/mac-binhex40''), (''doc'', ''application/msword''),
      (''pdf'', ''application/pdf''), (''ps'', ''application/postscript''),
      (''eps'', ''application/postscript''), (''ai'', ''application/postscript''),
      (''rtf'', ''application/rtf''), (''m3u8'', ''application/vnd.apple.mpegurl''),
      (''kml'', ''application/vnd.google-earth.kml+xml''),
      (''kmz'', ''application/vnd.google-earth.kmz''), (''xls'', ''application/vnd.ms-excel''),
      (''eot'', ''application/vnd.ms-fontobject''),
      (''ppt'', ''application/vnd.ms-powerpoint''),
      (''odg'', ''application/vnd.oasis.opendocument.graphics''),
      (''odp'', ''application/vnd.oasis.opendocument.presentation''),
      (''ods'', ''application/vnd.oasis.opendocument.spreadsheet''),
      (''odt'', ''application/vnd.oasis.opendocument.text''),
      (''pptx'', ''application/vnd.openxmlformats-officedocument.presentationml.presentation''),
      (''xlsx'', ''application/vnd.openxmlformats-officedocument.spreadsheetml.sheet''),
      (''docx'', ''application/vnd.openxmlformats-officedocument.wordprocessingml.document''),
      (''wmlc'', ''application/vnd.wap.wmlc''), (''7z'', ''application/x-7z-compressed''),
      (''cco'', ''application/x-cocoa''), (''jardiff'', ''application/x-java-archive-diff''),
      (''jnlp'', ''application/x-java-jnlp-file''), (''run'', ''application/x-makeself''),
      (''pl'', ''application/x-perl''), (''pm'', ''application/x-perl''),
      (''prc'', ''application/x-pilot''), (''pdb'', ''application/x-pilot''),
      (''rar'', ''application/x-rar-compressed''),
      (''rpm'', ''application/x-redhat-package-manager''), (''sea'', ''application/x-sea''),
      (''sit'', ''application/x-stuffit''), (''tcl'', ''application/x-tcl''),
      (''tk'', ''application/x-tcl''), (''der'', ''application/x-x509-ca-cert''),
      (''pem'', ''application/x-x509-ca-cert''), (''crt'', ''application/x-x509-ca-cert''),
      (''xpi'', ''application/x-xpinstall''), (''xhtml'', ''application/xhtml+xml''),
      (''xspf'', ''application/xspf+xml''), (''zip'', ''application/zip''),
      (''bin'', ''application/octet-stream''), (''exe'', ''application/octet-stream''),
      (''dll'', ''application/octet-stream''), (''deb'', ''application/octet-stream''),
      (''dmg'', ''application/octet-stream''), (''iso'', ''application/octet-stream''),
      (''img'', ''application/octet-stream''), (''msi'', ''application/octet-stream''),
      (''msp'', ''application/octet-stream''), (''msm'', ''application/octet-stream''),
      (''mid'', ''audio/midi''), (''midi'', ''audio/midi''), (''kar'', ''audio/midi''),
      (''mp3'', ''audio/mpeg''), (''ogg'', ''audio/ogg''), (''m4a'', ''audio/x-m4a''),
      (''ra'', ''audio/x-realaudio''), (''3gpp'', ''video/3gpp''), (''3gp'', ''video/3gpp''),
      (''ts'', ''video/mp2t''), (''mp4'', ''video/mp4''), (''mpeg'', ''video/mpeg''),
      (''mpg'', ''video/mpeg''), (''mov'', ''video/quicktime''), (''webm'', ''video/webm''),
      (''flv'', ''video/x-flv''), (''m4v'', ''video/x-m4v''), (''mng'', ''video/x-mng''),
      (''asx'', ''video/x-ms-asf''), (''asf'', ''video/x-ms-asf''),
      (''wmv'', ''video/x-ms-wmv''), (''avi'', ''video/x-msvideo'')]"

section \<open>Properties\<close>

text \<open>Every status has a reason phrase, so \<open>http_status_map.at\<close> never throws.\<close>

lemma status_text_total: "\<exists>t. status_text st = Ret t \<and> t \<noteq> []"
  by (cases st) (simp_all add: status_text_def http_status_map_def)

definition status_of_code :: "(int \<times> http_Status) list" where
  "status_of_code = map (\<lambda>k. (status_code k, k)) all_statuses"

lemma status_of_code_inverse:
  "a \<noteq> Failed_Dependency \<Longrightarrow> map_of status_of_code (status_code a) = Some a"
  by (cases a) (simp_all add: status_of_code_def all_statuses_def)

text \<open>Different statuses have different codes, with one exception: \<open>Failed_Dependency\<close> shares
  the value 422 of \<open>Unprocessable_Entity\<close> (424 is the code of that name), and so its phrase.\<close>

theorem status_codes_collide_once:
  "status_code a = status_code b \<and> a \<noteq> b \<longleftrightarrow>
     {a, b} = {Unprocessable_Entity, Failed_Dependency}"
proof -
  have inj: "x = y" if "status_code x = status_code y"
      "x \<noteq> Failed_Dependency" "y \<noteq> Failed_Dependency" for x y
    using that by (metis option.inject status_of_code_inverse)
  have "status_code a = status_code b \<Longrightarrow> a = b \<or> a = Failed_Dependency \<or> b = Failed_Dependency"
    using inj by blast
  moreover have "x = Unprocessable_Entity"
    if "status_code x = status_code Failed_Dependency" "x \<noteq> Failed_Dependency" for x
    by (rule inj) (use that in simp_all)
  ultimately show ?thesis
    by (auto simp: doubleton_eq_iff)
qed

end
