(* ===== verification/HttpHeaders.thy ===== *)
theory HttpHeaders
  imports CppString
begin

text \<open>
  The header names at the head of \<open>src/http/http_conn.h\<close>: \<open>http_Header\<close> and the two tables
  between enumerators and names, as the lists of their initialisers.
\<close>

section \<open>Header names\<close>

text \<open>
  \<open>http_Header\<close> has 125 enumerators without explicit values, so all are different; an
  enumerator is given here by its name.
\<close>

type_synonym http_Header = string

definition http_Header_enumerators :: "http_Header list" where
  "http_Header_enumerators =
     [''Accept'', ''AcceptCharset'', ''AcceptEncoding'', ''AcceptLanguage'',
      ''AcceptDatetime'', ''Authorization'', ''CacheControl'', ''Connection'',
      ''ContentLength'', ''ContentMD5'', ''ContentType'', ''Cookie'', ''Date'', ''Expect'',
      ''Forwarded'', ''From'', ''Host'', ''IfMatch'', ''IfModifiedSince'', ''IfNoneMatch'',
      ''IfRange'', ''IfUnmodifiedSince'', ''MaxForwards'', ''Origin'', ''Pragma'',
      ''ProxyAuthorization'', ''Range'', ''Referer'', ''TE'', ''Trailer'',
      ''TransferEncoding'', ''UserAgent'', ''Upgrade'', ''Via'', ''Warning'',
      ''XRequestedWith'', ''DNT'', ''XForwardedFor'', ''XForwardedHost'', ''XForwardedProto'',
      ''XATTDeviceId'', ''XWapProfile'', ''ProxyConnection'', ''XUIDH'', ''XCsrfToken'',
      ''XRequestID'', ''XCorrelationID'', ''SaveData'', ''AcceptPatch'', ''AcceptRanges'',
      ''AccessControlAllowCredentials'', ''AccessControlAllowHeaders'',
      ''AccessControlAllowMethods'', ''AccessControlAllowOrigin'',
      ''AccessControlExposeHeaders'', ''AccessControlMaxAge'', ''Age'', ''Allow'', ''AltSvc'',
      ''CacheControlHeader'', ''ClearSiteData'', ''ConnectionHeader'', ''ContentDisposition'',
      ''ContentEncoding'', ''ContentLanguage'', ''ContentLocation'', ''ContentRange'',
      ''CookieHeader'', ''CrossOriginResourcePolicy'', ''DNTHeader'', ''DPR'', ''EarlyData'',
      ''ETag'', ''ExpectCT'', ''Expires'', ''FeaturePolicy'', ''ForwardedHeader'',
      ''FromHeader'', ''HostHeader'', ''IfMatchHeader'', ''IfModifiedSinceHeader'',
      ''IfNoneMatchHeader'', ''IfRangeHeader'', ''IfUnmodifiedSinceHeader'', ''IM'',
      ''LastModified'', ''Link'', ''Location'', ''OriginHeader'', ''ProxyAuthenticate'',
      ''PublicKeyPins'', ''PublicKeyPinsReportOnly'', ''RangeHeader'', ''RefererHeader'',
      ''ReferrerPolicy'', ''RetryAfter'', ''Server'', ''ServerTiming'', ''SetCookie'',
      ''SourceMap'', ''StrictTransportSecurity'', ''TEHeader'', ''TimingAllowOrigin'', ''TK'',
      ''TrailerHeader'', ''TransferEncodingHeader'', ''UpgradeHeader'', ''Vary'',
      ''ViaHeader'', ''WWWAuthenticate'', ''WarningHeader'', ''XContentDuration'',
      ''XContentSecurityPolicy'', ''XContentSecurityPolicyReportOnly'',
      ''XContentTypeOptions'', ''XDNSPrefetchControl'', ''XDownloadOptions'',
      ''XFrameOptions'', ''XForwardedProtoHeader'', ''XFrameOptionsHeader'', ''XPoweredBy'',
      ''XRequestedWithHeader'', ''XUACompatible'', ''XUserIP'', ''XXSSProtection'']"

definition http_header_map :: "(http_Header \<times> string) list" where
  "http_header_map =
     [(''Accept'', ''Accept''), (''AcceptCharset'', ''Accept-Charset''),
      (''AcceptEncoding'', ''Accept-Encoding''), (''AcceptLanguage'', ''Accept-Language''),
      (''AcceptDatetime'', ''Accept-Datetime''), (''Authorization'', ''Authorization''),
      (''CacheControl'', ''Cache-Control''), (''Connection'', ''Connection''),
      (''ContentLength'', ''Content-Length''), (''ContentMD5'', ''Content-MD5''),
      (''ContentType'', ''Content-Type''), (''Cookie'', ''Cookie''), (''Date'', ''Date''),
      (''Expect'', ''Expect''), (''Forwarded'', ''Forwarded''), (''From'', ''From''),
      (''Host'', ''Host''), (''IfMatch'', ''If-Match''),
      (''IfModifiedSince'', ''If-Modified-Since''), (''IfNoneMatch'', ''If-None-Match''),
      (''IfRange'', ''If-Range''), (''IfUnmodifiedSince'', ''If-Unmodified-Since''),
      (''MaxForwards'', ''Max-Forwards''), (''Origin'', ''Origin''), (''Pragma'', ''Pragma''),
      (''ProxyAuthorization'', ''Proxy-Authorization''), (''Range'', ''Range''),
      (''Referer'', ''Referer''), (''TE'', ''TE''), (''Trailer'', ''Trailer''),
      (''TransferEncoding'', ''Transfer-Encoding''), (''UserAgent'', ''User-Agent''),
      (''Upgrade'', ''Upgrade''), (''Via'', ''Via''), (''Warning'', ''Warning''),
      (''XRequestedWith'', ''X-Requested-With''), (''DNT'', ''DNT''),
      (''XForwardedFor'', ''X-Forwarded-For''), (''XForwardedHost'', ''X-Forwarded-Host''),
      (''XForwardedProto'', ''X-Forwarded-Proto''), (''XATTDeviceId'', ''X-ATT-DeviceId''),
      (''XWapProfile'', ''X-Wap-Profile''), (''ProxyConnection'', ''Proxy-Connection''),
      (''XUIDH'', ''X-UIDH''), (''XCsrfToken'', ''X-Csrf-Token''),
      (''XRequestID'', ''X-Request-ID''), (''XCorrelationID'', ''X-Correlation-ID''),
      (''SaveData'', ''Save-Data''), (''AcceptPatch'', ''Accept-Patch''),
      (''AcceptRanges'', ''Accept-Ranges''),
      (''AccessControlAllowCredentials'', ''Access-Control-Allow-Credentials''),
      (''AccessControlAllowHeaders'', ''Access-Control-Allow-Headers''),
      (''AccessControlAllowMethods'', ''Access-Control-Allow-Methods''),
      (''AccessControlAllowOrigin'', ''Access-Control-Allow-Origin''),
      (''AccessControlExposeHeaders'', ''Access-Control-Expose-Headers''),
      (''AccessControlMaxAge'', ''Access-Control-Max-Age''), (''Age'', ''Age''),
      (''Allow'', ''Allow''), (''ContentDisposition'', ''Content-Disposition''),
      (''ContentEncoding'', ''Content-Encoding''), (''ContentLanguage'', ''Content-Language''),
      (''ContentLocation'', ''Content-Location''), (''ContentRange'', ''Content-Range''),
      (''ETag'', ''ETag''), (''Expires'', ''Expires''), (''LastModified'', ''Last-Modified''),
      (''Link'', ''Link''), (''Location'', ''Location''),
      (''ProxyAuthenticate'', ''Proxy-Authenticate''), (''RetryAfter'', ''Retry-After''),
      (''Server'', ''Server''), (''SetCookie'', ''Set-Cookie''),
      (''StrictTransportSecurity'', ''Strict-Transport-Security''), (''Vary'', ''Vary''),
      (''WWWAuthenticate'', ''WWW-Authenticate'')]"

definition http_header_map_string_to_header :: "(string \<times> http_Header) list" where
  "http_header_map_string_to_header =
     [(''Accept'', ''Accept''), (''Accept-Charset'', ''AcceptCharset''),
      (''Accept-Encoding'', ''AcceptEncoding''), (''Accept-Language'', ''AcceptLanguage''),
      (''Accept-Datetime'', ''AcceptDatetime''), (''Authorization'', ''Authorization''),
      (''Cache-Control'', ''CacheControl''), (''Connection'', ''Connection''),
      (''Content-Length'', ''ContentLength''), (''Content-Type'', ''ContentType''),
      (''Cookie'', ''Cookie''), (''Date'', ''Date''), (''Expect'', ''Expect''),
      (''Forwarded'', ''Forwarded''), (''From'', ''From''), (''Host'', ''Host''),
      (''If-Match'', ''IfMatch''), (''If-Modified-Since'', ''IfModifiedSince''),
      (''If-None-Match'', ''IfNoneMatch''), (''If-Range'', ''IfRange''),
      (''If-Unmodified-Since'', ''IfUnmodifiedSince''), (''Max-Forwards'', ''MaxForwards''),
      (''Origin'', ''Origin''), (''Pragma'', ''Pragma''),
      (''Proxy-Authorization'', ''ProxyAuthorization''), (''Range'', ''Range''),
      (''Referer'', ''Referer''), (''TE'', ''TE''), (''User-Agent'', ''UserAgent''),
      (''Upgrade'', ''Upgrade''), (''Via'', ''Via''), (''Warning'', ''Warning''),
      (''Access-Control-Allow-Origin'', ''AccessControlAllowOrigin''),
      (''Access-Control-Allow-Credentials'', ''AccessControlAllowCredentials''),
      (''Access-Control-Allow-Methods'', ''AccessControlAllowMethods''),
      (''Access-Control-Allow-Headers'', ''AccessControlAllowHeaders''),
      (''Access-Control-Max-Age'', ''AccessControlMaxAge''),
      (''Access-Control-Expose-Headers'', ''AccessControlExposeHeaders''),
      (''Content-Disposition'', ''ContentDisposition''),
      (''Content-Encoding'', ''ContentEncoding''), (''Content-Language'', ''ContentLanguage''),
      (''Content-Location'', ''ContentLocation''), (''Content-Range'', ''ContentRange''),
      (''ETag'', ''ETag''), (''Expires'', ''Expires''), (''Last-Modified'', ''LastModified''),
      (''Link'', ''Link''), (''Location'', ''Location''),
      (''Proxy-Authenticate'', ''ProxyAuthenticate''), (''Retry-After'', ''RetryAfter''),
      (''Server'', ''Server''), (''Set-Cookie'', ''SetCookie''),
      (''Strict-Transport-Security'', ''StrictTransportSecurity''),
      (''Transfer-Encoding'', ''TransferEncoding''), (''Vary'', ''Vary''),
      (''WWW-Authenticate'', ''WWWAuthenticate'')]"

section \<open>Properties\<close>

text \<open>Every header name that can be read as an \<open>http_Header\<close> is printed back as that name.\<close>

theorem header_name_roundtrip:
  "list_all (\<lambda>(t, h). map_of http_header_map h = Some t) http_header_map_string_to_header"
  by code_simp

end
