(* ===== verification/HttpBody.thy ===== *)
theory HttpBody
  imports HttpParse
begin

text \<open>
  \<open>http_conn::request_body\<close> and \<open>http_conn::parse_body\<close> of \<open>src/http/http_conn.h\<close>:
  \<open>multipart/form-data\<close> and \<open>application/x-www-form-urlencoded\<close> bodies. Lengths are below
  \<open>2 ^ 64\<close>, and the arithmetic on positions is that of \<open>size_t\<close>.
\<close>

section \<open>The code\<close>

record request_body =
  rb_boundary :: string
  rb_headers :: "string \<rightharpoonup> string list"
  rb_form :: "string \<rightharpoonup> string"
  rb_files :: "string \<rightharpoonup> string \<times> string"

definition empty_body :: request_body where
  "empty_body = \<lparr>rb_boundary = [], rb_headers = Map.empty, rb_form = Map.empty, rb_files = Map.empty\<rparr>"

definition clear_request_body :: "request_body \<Rightarrow> request_body" where
  "clear_request_body b =
     b\<lparr>rb_boundary := [], rb_headers := Map.empty, rb_form := Map.empty, rb_files := Map.empty\<rparr>"

lemma clear_request_body_eq: "clear_request_body b = empty_body"
  by (cases b) (simp add: clear_request_body_def empty_body_def)

text \<open>A position as the \<open>size_t\<close> it is, and \<open>substr\<close> on such values.\<close>

definition pos_word :: "nat option \<Rightarrow> size_t" where
  "pos_word p = (case p of None \<Rightarrow> - 1 | Some i \<Rightarrow> of_nat i)"

definition substr_w :: "string \<Rightarrow> size_t \<Rightarrow> size_t \<Rightarrow> string outcome" where
  "substr_w s pos n = substr s (unat pos) (Some (unat n))"

text \<open>
  \<open>value.substr(at + k, value.find('\"', at + k) - at - k)\<close>: the text between the quote that
  \<open>at + k\<close> is expected to follow and the next one.
\<close>

definition quoted :: "string \<Rightarrow> nat option \<Rightarrow> nat \<Rightarrow> string outcome" where
  "quoted value at k =
     (let start = pos_word at + of_nat k;
          quote = find_char DQ value (unat start)
      in substr_w value start (pos_word quote - pos_word at - of_nat k))"

definition add_file :: "string \<Rightarrow> string \<Rightarrow> nat option \<Rightarrow> nat option \<Rightarrow> request_body \<Rightarrow> request_body outcome" where
  "add_file body value name_line filename_line b =
     (let start = pos_word (find_sub [CR, LF, CR, LF] body);
          len = of_nat (length body) - of_nat (length (rb_boundary b)) - 6 - start - 4 in
      bind_out (substr_w body (start + 4) len) (\<lambda>post_data.
      bind_out (quoted value name_line 6) (\<lambda>name.
      bind_out (quoted value filename_line 10) (\<lambda>filename.
      Ret (b\<lparr>rb_files := emplace name (filename, post_data) (rb_files b)\<rparr>)))))"

fun body_lines :: "string \<Rightarrow> string list \<Rightarrow> string \<Rightarrow> request_body \<Rightarrow> request_body outcome" where
  "body_lines body [] last_header b = Ret b"
| "body_lines body (raw # rest) last_header b =
     (if raw = [] then Ret b
      else let line = butlast raw in
        if line \<noteq> [] \<and> (hd line = CHR '' '' \<or> hd line = HT) then
          (if last_header \<noteq> [] then
             bind_out (append_continuation last_header line (rb_headers b))
               (\<lambda>hs. body_lines body rest last_header (b\<lparr>rb_headers := hs\<rparr>))
           else body_lines body rest last_header b)
        else
          (case find_char (CHR '':'') line 0 of
             None \<Rightarrow> body_lines body rest last_header b
           | Some pos \<Rightarrow>
               (let name = take pos line;
                    value = trim_value (drop (pos + 1) line);
                    values = [takeWhile (\<lambda>c. c \<noteq> CHR '';'') value];
                    name_line = find_sub ''name='' value;
                    filename_line = find_sub ''filename='' value in
                bind_out (if name_line \<noteq> None then add_file body value name_line filename_line b
                          else Ret b) (\<lambda>b1.
                body_lines body rest name (b1\<lparr>rb_headers := (rb_headers b1)(name \<mapsto> values)\<rparr>)))))"

text \<open>\<open>while(getline(ss,line,'&'))\<close>: a segment without \<open>=\<close> is its own value.\<close>

fun form_lines :: "string list \<Rightarrow> (string \<rightharpoonup> string) \<Rightarrow> (string \<rightharpoonup> string)" where
  "form_lines [] m = m"
| "form_lines (line # rest) m =
     (if line = [] then m
      else
        let equal_pos = find_char (CHR ''='') line 0;
            key = (case equal_pos of None \<Rightarrow> line | Some p \<Rightarrow> take p line);
            value = drop (pos_add equal_pos 1) line
        in form_lines rest (m(key \<mapsto> value)))"

text \<open>\<open>request_headers["Content-Type"][0]\<close>: element 0 of an empty vector is undefined.\<close>

definition first_value :: "string \<Rightarrow> (string \<rightharpoonup> string list) \<Rightarrow> string outcome" where
  "first_value name hs =
     (case hs name of
        None \<Rightarrow> Undef
      | Some vs \<Rightarrow> (case vs of [] \<Rightarrow> Undef | v # _ \<Rightarrow> Ret v))"

definition parse_body :: "string \<Rightarrow> request_header \<Rightarrow> request_body \<Rightarrow> (bool \<times> request_body) outcome" where
  "parse_body body h b0 =
     (let b = clear_request_body b0 in
      bind_out (first_value ''Content-Type'' (rq_headers h)) (\<lambda>ct.
      if find_sub ''multipart/form-data'' ct \<noteq> None then
        (let boundary_end = find_sub [CR, LF] body;
             b1 = b\<lparr>rb_boundary := (case boundary_end of None \<Rightarrow> body | Some i \<Rightarrow> take i body)\<rparr> in
         bind_out (substr body (pos_add boundary_end 2) None) (\<lambda>text.
         bind_out (body_lines body (getlines LF text) [] b1) (\<lambda>b2. Ret (True, b2))))
      else if find_sub ''application/x-www-form-urlencoded'' ct \<noteq> None then
        Ret (True, b\<lparr>rb_form := form_lines (getlines (CHR ''&'') body) (rb_form b)\<rparr>)
      else Ret (False, b)))"

section \<open>Searching in a text with known parts\<close>

lemma find_sub_skip:
  "c \<notin> set a \<Longrightarrow> find_sub (c # p) (a @ s) = map_option ((+) (length a)) (find_sub (c # p) s)"
proof (induction a)
  case Nil
  then show ?case by (cases "find_sub (c # p) s") auto
next
  case (Cons x a)
  then show ?case by (cases "find_sub (c # p) s") auto
qed

lemma find_sub_after:
  assumes "c \<notin> set mid" "c \<notin> set p"
  shows "find_sub (p @ [c]) (mid @ p @ c # t) = Some (length mid)"
  using assms(1)
proof (induction mid)
  case Nil
  then show ?case by (cases p) simp_all
next
  case (Cons x mid)
  have "take (Suc (length p)) (x # mid @ p @ c # t) \<noteq> p @ [c]"
  proof
    assume "take (Suc (length p)) (x # mid @ p @ c # t) = p @ [c]"
    then have "(x # mid @ p @ c # t) ! length p = c"
      by (metis lessI nth_append_length nth_take)
    moreover have "(x # mid @ p @ c # t) ! length p = ((x # mid) @ p) ! length p"
      by (simp add: nth_append nth_Cons')
    moreover have "((x # mid) @ p) ! length p \<in> set ((x # mid) @ p)" by (rule nth_mem) simp
    ultimately show False using Cons.prems assms(2) by auto
  qed
  with Cons show ?case by simp
qed

lemma substr_w_exact:
  assumes "pos = of_nat (length a)" "n = of_nat (length b)" "length (a @ b @ c) < 2 ^ 64"
  shows "substr_w (a @ b @ c) pos n = Ret b"
  using assms by (simp add: substr_w_def unat_of_nat_size)

lemma quoted_exact:
  assumes "value = a @ w @ DQ # t" "length a = i + k" "DQ \<notin> set w" "length value < 2 ^ 64"
  shows "quoted value (Some i) k = Ret w"
proof -
  have u: "unat (of_nat i + of_nat k :: size_t) = length a"
    using assms by (simp flip: of_nat_add add: unat_of_nat_size)
  have "find_char DQ value (length a) = Some (length a + length w)"
    by (rule find_char_hit [where b = t]) (use assms in simp_all)
  moreover have "(of_nat (length a + length w) - of_nat i - of_nat k :: size_t) = of_nat (length w)"
    using assms(2) by simp
  moreover have "(of_nat i + of_nat k :: size_t) = of_nat (length a)" using assms(2) by simp
  ultimately show ?thesis
    using u substr_w_exact [of _ a _ w "DQ # t"] assms(1,4)
    by (simp add: quoted_def pos_word_def Let_def del: of_nat_add)
qed

section \<open>Forms\<close>

definition form_ok :: "(string \<times> string) list \<Rightarrow> bool" where
  "form_ok kvs \<longleftrightarrow> list_all (\<lambda>(k, v). query_key k \<and> query_value v) kvs"

definition put_pair :: "(string \<rightharpoonup> string) \<Rightarrow> string \<times> string \<Rightarrow> (string \<rightharpoonup> string)" where
  "put_pair m kv = m(fst kv \<mapsto> snd kv)"

lemma form_lines_pair:
  assumes "query_key k"
  shows "form_lines ((k @ CHR ''='' # v) # ls) m = form_lines ls (put_pair m (k, v))"
proof -
  have "find_char (CHR ''='') (k @ CHR ''='' # v) 0 = Some (length k)"
    using find_char_hit [of 0 "k @ CHR ''='' # v" k] assms by (simp add: query_key_def)
  then show ?thesis by (simp add: put_pair_def)
qed

declare form_lines.simps(2) [simp del]

lemma form_lines_query:
  "form_ok kvs \<Longrightarrow> form_lines (getlines (CHR ''&'') (show_query kvs)) m =
     foldl put_pair m kvs"
proof (induction kvs arbitrary: m rule: show_query.induct)
  case (2 k v)
  then have ok: "query_key k" "query_value v" by (simp_all add: form_ok_def)
  then have "CHR ''&'' \<notin> set (k @ CHR ''='' # v)" by (auto simp: query_key_def query_value_def)
  then have "getlines (CHR ''&'') (k @ CHR ''='' # v) = [k @ CHR ''='' # v]"
    by (rule getlines_no_delim) simp
  with form_lines_pair [OF ok(1)] show ?case by simp
next
  case (3 k v kv kvs)
  then have ok: "query_key k" "query_value v" "form_ok (kv # kvs)" by (simp_all add: form_ok_def)
  let ?l = "k @ CHR ''='' # v"
  have "CHR ''&'' \<notin> set ?l" using ok by (auto simp: query_key_def query_value_def)
  from getlines_append_delim [OF this, of "show_query (kv # kvs)"]
  have "getlines (CHR ''&'') (show_query ((k, v) # kv # kvs)) =
      ?l # getlines (CHR ''&'') (show_query (kv # kvs))" by simp
  with form_lines_pair [OF ok(1)] 3(1) [OF ok(3)] show ?case by simp
qed simp

section \<open>Uploads\<close>

text \<open>A body with one file, as a browser sends it.\<close>

definition disposition :: "string \<Rightarrow> string \<Rightarrow> string" where
  "disposition name filename =
     ''form-data; name='' @ DQ # name @ DQ # ''; filename='' @ DQ # filename @ [DQ]"

definition upload_text :: "string \<Rightarrow> string \<Rightarrow> string \<Rightarrow> string \<Rightarrow> string" where
  "upload_text boundary name filename content =
     boundary @ CR # LF # ''Content-Disposition: '' @ disposition name filename @
     CR # LF # CR # LF # content @ CR # LF # boundary @ ''--'' @ [CR, LF]"

definition plain_text :: "string \<Rightarrow> bool" where
  "plain_text s \<longleftrightarrow> CR \<notin> set s \<and> LF \<notin> set s \<and> DQ \<notin> set s \<and> CHR ''='' \<notin> set s"

lemma trim_disposition: "trim_value (CHR '' '' # disposition name filename) = disposition name filename"
  by (rule trim_value_space) (simp add: disposition_def)

lemma disposition_positions:
  assumes "CHR ''='' \<notin> set name"
  shows "find_sub ''name='' (disposition name filename) = Some 11"
    and "find_sub ''filename='' (disposition name filename) = Some (20 + length name)"
proof -
  show "find_sub ''name='' (disposition name filename) = Some 11" by (simp add: disposition_def)
  have "find_sub (''filename'' @ ''='') ((DQ # name @ DQ # ''; '') @ ''filename'' @ CHR ''='' # DQ # filename @ [DQ]) =
      Some (length (DQ # name @ DQ # ''; ''))"
    by (rule find_sub_after) (use assms in simp_all)
  then show "find_sub ''filename='' (disposition name filename) = Some (20 + length name)"
    by (simp add: disposition_def)
qed

lemma getlines_chars: "l \<in> set (getlines d s) \<Longrightarrow> c \<in> set l \<Longrightarrow> c \<in> set s"
  by (induction d s arbitrary: l rule: getlines.induct) (force split: if_splits list.splits)+

text \<open>Lines of a text without colon add no header and no file.\<close>

lemma body_line_no_colon:
  assumes "raw \<noteq> []" "CHR '':'' \<notin> set raw"
    and lh: "lh = [] \<or> (\<exists>v vs. rb_headers b lh = Some (v # vs))"
  obtains hs where "\<And>ls. body_lines body (raw # ls) lh b = body_lines body ls lh (b\<lparr>rb_headers := hs\<rparr>)"
    "lh = [] \<or> (\<exists>v vs. hs lh = Some (v # vs))"
proof -
  have same: "b\<lparr>rb_headers := rb_headers b\<rparr> = b" by simp
  consider (cont) "butlast raw \<noteq> [] \<and> (hd (butlast raw) = CHR '' '' \<or> hd (butlast raw) = HT)" "lh \<noteq> []"
    | (lost) "butlast raw \<noteq> [] \<and> (hd (butlast raw) = CHR '' '' \<or> hd (butlast raw) = HT)" "lh = []"
    | (other) "\<not> (butlast raw \<noteq> [] \<and> (hd (butlast raw) = CHR '' '' \<or> hd (butlast raw) = HT))"
    by blast
  then show ?thesis
  proof cases
    case cont
    with lh obtain v vs where h: "rb_headers b lh = Some (v # vs)" by blast
    let ?hs = "(rb_headers b)(lh \<mapsto> butlast (v # vs) @ [last (v # vs) @ butlast raw])"
    have "\<exists>w ws. ?hs lh = Some (w # ws)" by (cases vs) auto
    then show ?thesis
      using that [of ?hs] cont h assms(1) by (auto simp: Let_def append_continuation_def)
  next
    case lost
    then show ?thesis using that [of "rb_headers b"] assms(1) same by (simp add: Let_def)
  next
    case other
    have "CHR '':'' \<notin> set (butlast raw)" using assms(2) by (auto dest: in_set_butlastD)
    then have "find_char (CHR '':'') (butlast raw) 0 = None" by (simp add: find_char_miss)
    with other lh show ?thesis
      using that [of "rb_headers b"] assms(1) same by (auto simp: Let_def)
  qed
qed

declare body_lines.simps(2) [simp del]

lemma body_lines_no_colon:
  assumes "list_all (\<lambda>l. CHR '':'' \<notin> set l) ls"
    and "lh = [] \<or> (\<exists>v vs. rb_headers b lh = Some (v # vs))"
  shows "\<exists>hs. body_lines body ls lh b = Ret (b\<lparr>rb_headers := hs\<rparr>)"
  using assms
proof (induction ls arbitrary: b)
  case Nil
  then show ?case by (auto intro!: exI [of _ "rb_headers b"])
next
  case (Cons raw ls)
  show ?case
  proof (cases "raw = []")
    case True
    then show ?thesis by (auto simp: body_lines.simps intro!: exI [of _ "rb_headers b"])
  next
    case False
    have "CHR '':'' \<notin> set raw" using Cons.prems(1) by simp
    from body_line_no_colon [OF False this Cons.prems(2)] obtain hs where hs:
      "\<And>ls. body_lines body (raw # ls) lh b = body_lines body ls lh (b\<lparr>rb_headers := hs\<rparr>)"
      "lh = [] \<or> (\<exists>v vs. hs lh = Some (v # vs))" by metis
    have "lh = [] \<or> (\<exists>v vs. rb_headers (b\<lparr>rb_headers := hs\<rparr>) lh = Some (v # vs))"
      using hs(2) by simp
    with Cons.IH [of "b\<lparr>rb_headers := hs\<rparr>"] Cons.prems(1) hs(1) [of ls] show ?thesis by auto
  qed
qed

text \<open>The line with the disposition: it makes the file.\<close>

lemma add_upload:
  assumes "plain_text boundary" "plain_text name" "plain_text filename"
    and "length (upload_text boundary name filename content) < 2 ^ 64" "rb_boundary b = boundary"
  shows "add_file (upload_text boundary name filename content) (disposition name filename)
           (Some 11) (Some (20 + length name)) b =
         Ret (b\<lparr>rb_files := emplace name (filename, content) (rb_files b)\<rparr>)"
proof -
  let ?body = "upload_text boundary name filename content"
  let ?pre = "boundary @ CR # LF # ''Content-Disposition: '' @ disposition name filename"
  let ?tail = "[CR, LF] @ boundary @ ''--'' @ [CR, LF]"
  have body: "?body = (?pre @ [CR, LF, CR, LF]) @ content @ ?tail"
    by (simp add: upload_text_def)
  have cr: "CR \<notin> set boundary" "CR \<notin> set (''Content-Disposition: '' @ disposition name filename)"
    using assms(1-3) by (auto simp: plain_text_def disposition_def)
  have "find_sub [CR, LF, CR, LF] (''Content-Disposition: '' @ disposition name filename @
      [CR, LF, CR, LF] @ content @ ?tail) = Some (21 + length (disposition name filename))"
    using find_sub_skip [OF cr(2), of "[LF, CR, LF]" "[CR, LF, CR, LF] @ content @ ?tail"] by simp
  then have "find_sub [CR, LF, CR, LF] ?body = Some (length ?pre)"
    unfolding body using find_sub_skip [OF cr(1), of "[LF, CR, LF]"] by simp
  then have start: "pos_word (find_sub [CR, LF, CR, LF] ?body) = of_nat (length ?pre)"
    by (simp add: pos_word_def)
  have "(of_nat (length ?pre) + 4 :: size_t) = of_nat (length (?pre @ [CR, LF, CR, LF]))"
    by simp
  moreover have "(of_nat (length ?body) - of_nat (length boundary) - 6 - of_nat (length ?pre) - 4 :: size_t) =
      of_nat (length content)"
    unfolding body by simp
  ultimately have post: "substr_w ?body (of_nat (length ?pre) + 4)
      (of_nat (length ?body) - of_nat (length boundary) - 6 - of_nat (length ?pre) - 4) = Ret content"
    using substr_w_exact [of _ "?pre @ [CR, LF, CR, LF]" _ content ?tail] assms(4)
    unfolding body by blast
  have len: "length (disposition name filename) < 2 ^ 64"
    using assms(4) by (simp add: upload_text_def)
  have "quoted (disposition name filename) (Some 11) 6 = Ret name"
    by (rule quoted_exact [where a = "''form-data; name='' @ [DQ]" and t = "''; filename='' @ DQ # filename @ [DQ]"])
       (use assms(2) len in \<open>simp_all add: disposition_def plain_text_def\<close>)
  moreover have "quoted (disposition name filename) (Some (20 + length name)) 10 = Ret filename"
    by (rule quoted_exact [where a = "''form-data; name='' @ DQ # name @ DQ # ''; filename='' @ [DQ]" and t = "[]"])
       (use assms(3) len in \<open>simp_all add: disposition_def plain_text_def\<close>)
  ultimately show ?thesis
    unfolding add_file_def Let_def start assms(5) post bind_out.simps by simp
qed

text \<open>Parsing an upload: after the disposition the file is there, and the rest of the body, blank
  line and content included, is read as further header lines.\<close>

definition upload_rest :: "string \<Rightarrow> string \<Rightarrow> string" where
  "upload_rest boundary content = CR # LF # content @ CR # LF # boundary @ ''--'' @ [CR, LF]"

lemma parse_upload:
  fixes b0 :: request_body
  assumes "rq_headers h ''Content-Type'' = Some (ct # vs)" "find_sub ''multipart/form-data'' ct \<noteq> None"
    and "plain_text boundary" "plain_text name" "plain_text filename"
    and "length (upload_text boundary name filename content) < 2 ^ 64"
  shows "parse_body (upload_text boundary name filename content) h b0 =
    bind_out (body_lines (upload_text boundary name filename content)
      (getlines LF (upload_rest boundary content)) ''Content-Disposition''
      \<lparr>rb_boundary = boundary, rb_headers = [''Content-Disposition'' \<mapsto> [''form-data'']],
       rb_form = Map.empty, rb_files = [name \<mapsto> (filename, content)]\<rparr>) (\<lambda>b. Ret (True, b))"
proof -
  let ?body = "upload_text boundary name filename content"
  let ?disp = "disposition name filename"
  let ?line = "''Content-Disposition: '' @ ?disp"
  let ?rest = "upload_rest boundary content"
  have body: "?body = boundary @ CR # LF # ?line @ CR # LF # ?rest"
    by (simp add: upload_text_def upload_rest_def)
  have bnd: "find_sub [CR, LF] ?body = Some (length boundary)"
    unfolding body by (rule find_sub_CRLF) (use assms(3) in \<open>simp add: plain_text_def\<close>)
  have "LF \<notin> set (?line @ [CR])" using assms(4,5) by (auto simp: disposition_def plain_text_def)
  from getlines_append_delim [OF this, of ?rest]
  have lines: "getlines LF ((?line @ [CR]) @ LF # ?rest) = (?line @ [CR]) # getlines LF ?rest" .
  have first: "substr ?body (length boundary + 2) None = Ret ((?line @ [CR]) @ LF # ?rest)"
    "take (length boundary) ?body = boundary" unfolding body by simp_all
  define b1 where "b1 = empty_body\<lparr>rb_boundary := boundary\<rparr>"
  have line: "find_char (CHR '':'') ?line 0 = Some 19" by (simp add: find_char_def)
  have tw: "takeWhile (\<lambda>c. c \<noteq> CHR '';'') ?disp = ''form-data''" by (simp add: disposition_def)
  have "add_file ?body ?disp (Some 11) (Some (20 + length name)) b1 =
      Ret (b1\<lparr>rb_files := [name \<mapsto> (filename, content)]\<rparr>)"
    by (subst add_upload [OF assms(3-6)]) (simp_all add: b1_def empty_body_def emplace_def)
  then have step: "body_lines ?body ((?line @ [CR]) # ls) [] b1 = body_lines ?body ls ''Content-Disposition''
      \<lparr>rb_boundary = boundary, rb_headers = [''Content-Disposition'' \<mapsto> [''form-data'']],
       rb_form = Map.empty, rb_files = [name \<mapsto> (filename, content)]\<rparr>" for ls
    using line disposition_positions [of name filename] trim_disposition [of name filename] assms(4) tw
    by (simp add: body_lines.simps butlast_append plain_text_def Let_def b1_def empty_body_def)
  have "parse_body ?body h b0 = bind_out (substr ?body (length boundary + 2) None)
      (\<lambda>text. bind_out (body_lines ?body (getlines LF text) [] b1) (\<lambda>b. Ret (True, b)))"
    using assms(1,2) first(2) by (simp add: parse_body_def first_value_def bnd b1_def clear_request_body_eq)
  then show ?thesis unfolding first(1) bind_out.simps lines step .
qed

section \<open>Properties\<close>

text \<open>C32: A form body is read into the values of its fields, the last one of each name: the
  reverse of writing the pairs with \<open>=\<close> between key and value and \<open>&\<close> between pairs.\<close>

theorem form_body_roundtrip:
  assumes "rq_headers h ''Content-Type'' = Some (''application/x-www-form-urlencoded'' # vs)"
    and "form_ok kvs"
  shows "parse_body (show_query kvs) h b0 = Ret (True, \<lparr>rb_boundary = [], rb_headers = Map.empty,
    rb_form = foldl put_pair Map.empty kvs, rb_files = Map.empty\<rparr>)"
  using assms form_lines_query [OF assms(2), of Map.empty]
  by (simp add: parse_body_def first_value_def clear_request_body_eq empty_body_def)


definition upload_request :: request_header where
  "upload_request = \<lparr>rq_method = POST, rq_url = ''/up'', rq_version = HTTP_1_1,
     rq_parameters = Map.empty, rq_headers = [''Content-Type'' \<mapsto> [''multipart/form-data; boundary=b'']]\<rparr>"

definition form_request :: request_header where
  "form_request = upload_request\<lparr>rq_headers :=
     [''Content-Type'' \<mapsto> [''application/x-www-form-urlencoded'']]\<rparr>"

theorem form_body_roundtrip_witness:
  "parse_body ''a=1&b=x=y&a=2'' form_request empty_body = Ret (True, \<lparr>rb_boundary = [],
    rb_headers = Map.empty, rb_form = [''a'' \<mapsto> ''2'', ''b'' \<mapsto> ''x=y''], rb_files = Map.empty\<rparr>)"
proof -
  have "form_ok [(''a'', ''1''), (''b'', ''x=y''), (''a'', ''2'')]"
    by (simp add: form_ok_def query_key_def query_value_def)
  from form_body_roundtrip [OF _ this, of form_request "[]" empty_body] show ?thesis
    by (simp add: form_request_def put_pair_def fun_upd_twist)
qed


text \<open>The loop that reads the part's headers does not stop at the blank line that ends them, so
  it reads the content of the file as header lines. A line \<open>x:name=\<close> in the file (any key, nothing
  after the equals sign) throws \<open>std::out_of_range\<close>, which nothing on the way catches.\<close>

theorem upload_content_throws:
  assumes "rq_headers h ''Content-Type'' = Some (ct # vs)" "find_sub ''multipart/form-data'' ct \<noteq> None"
    and "plain_text boundary" "plain_text name" "plain_text filename"
    and "CHR '':'' \<notin> set boundary" "CHR '':'' \<notin> set before" "LF \<notin> set before" "before \<noteq> []"
    and "plain_text key" "key \<noteq> []" "hd key \<noteq> CHR '' ''" "hd key \<noteq> HT" "CHR '':'' \<notin> set key"
    and "content = before @ LF # key @ '':name='' @ CR # LF # after"
    and "length (upload_text boundary name filename content) < 2 ^ 64"
  shows "parse_body (upload_text boundary name filename content) h b0 = Throw"
proof -
  let ?body = "upload_text boundary name filename content"
  let ?b = "\<lparr>rb_boundary = boundary, rb_headers = [''Content-Disposition'' \<mapsto> [''form-data'']],
    rb_form = Map.empty, rb_files = [name \<mapsto> (filename, content)]\<rparr>"
  let ?key = "key @ '':name='' @ [CR]"
  let ?more = "after @ CR # LF # boundary @ ''--'' @ [CR, LF]"
  have "upload_rest boundary content = [CR] @ LF # before @ LF # ?key @ LF # ?more"
    by (simp add: upload_rest_def assms(15))
  moreover have "LF \<notin> set ?key" using assms(10) by (simp add: plain_text_def)
  ultimately have lines: "getlines LF (upload_rest boundary content) = [CR] # before # ?key # getlines LF ?more"
    using getlines_append_delim [of LF "[CR]"] getlines_append_delim [OF assms(8)]
      getlines_append_delim [of LF ?key ?more] by simp
  obtain hs where hs: "\<And>ls. body_lines ?body ([CR] # ls) ''Content-Disposition'' ?b =
      body_lines ?body ls ''Content-Disposition'' (?b\<lparr>rb_headers := hs\<rparr>)"
    "\<exists>v vs. hs ''Content-Disposition'' = Some (v # vs)"
    using body_line_no_colon [of "[CR]" "''Content-Disposition''" ?b ?body] by auto
  have "\<exists>v vs. rb_headers (?b\<lparr>rb_headers := hs\<rparr>) ''Content-Disposition'' = Some (v # vs)" using hs(2) by simp
  then obtain hs' where hs': "\<And>ls. body_lines ?body (before # ls) ''Content-Disposition'' (?b\<lparr>rb_headers := hs\<rparr>) =
      body_lines ?body ls ''Content-Disposition'' (?b\<lparr>rb_headers := hs'\<rparr>)"
    using body_line_no_colon [OF assms(9,7), of "''Content-Disposition''" "?b\<lparr>rb_headers := hs\<rparr>" ?body] by auto
  have "substr_w ''name='' 6 n = Throw" for n by (simp add: substr_w_def substr_def)
  then have "quoted ''name='' (Some 0) 6 = Throw" by (simp add: quoted_def pos_word_def)
  then have thrown: "add_file ?body ''name='' (Some 0) None b = Throw" for b
    by (simp add: add_file_def substr_w_def substr_def Let_def)
  have key: "butlast ?key = key @ '':name=''" "hd (key @ '':name='') = hd key"
    using assms(11) by (simp_all add: butlast_append)
  have colon: "find_char (CHR '':'') (key @ '':name='') 0 = Some (length key)"
    using find_char_hit [of 0 "key @ '':name=''" key] assms(14) by simp
  have "trim_value ''name='' = ''name=''"
    by (simp add: trim_value_def find_first_not_of_def find_last_not_of_def)
  then have "body_lines ?body (?key # ls) lh b = Throw" for ls lh b
    using thrown key colon assms(11-13) by (simp add: body_lines.simps Let_def)
  then show ?thesis
    using parse_upload [OF assms(1-5,16), of b0] lines hs(1) hs' by simp
qed

theorem upload_content_throws_witness:
  "parse_body (upload_text ''--b'' ''f'' ''a.txt'' (''one'' @ LF # ''x:name='' @ CR # LF # ''two''))
     upload_request empty_body = Throw"
  by (rule upload_content_throws [where ct = "''multipart/form-data; boundary=b''" and vs = "[]"
        and before = "''one''" and key = "''x''" and after = "''two''"])
     (simp_all add: upload_request_def plain_text_def upload_text_def disposition_def)

end
