(* ===== verification/LockQueue.thy ===== *)
theory LockQueue
  imports Prelude
begin

text \<open>
  The queue interface the components rely on, and \<open>lock_queue<T>\<close> of
  \<open>src/core/include/lock_queue.h\<close>. Every operation holds the mutex from its first to its
  last access of the \<open>deque\<close>, so it is one atomic step on the list of elements. A failed
  \<open>pop\<close> stores a default into its result: \<open>nullptr\<close> in the template, \<open>-1\<close> in the
  specialisation for \<open>int\<close>.
\<close>

section \<open>The queue interface\<close>

locale fifo =
  fixes push :: "'a \<Rightarrow> 'q \<Rightarrow> 'q"
    and pop :: "'q \<Rightarrow> bool \<times> 'a \<times> 'q"
    and is_empty :: "'q \<Rightarrow> bool"
    and contents :: "'q \<Rightarrow> 'a list"
    and invar :: "'q \<Rightarrow> bool"
    and dflt :: 'a
  assumes invar_push: "invar q \<Longrightarrow> invar (push x q)"
    and invar_pop: "invar q \<Longrightarrow> pop q = (b, y, q') \<Longrightarrow> invar q'"
    and contents_push: "invar q \<Longrightarrow> contents (push x q) = contents q @ [x]"
    and pop_nonempty: "invar q \<Longrightarrow> contents q = x # xs \<Longrightarrow>
      \<exists>q'. pop q = (True, x, q') \<and> contents q' = xs"
    and pop_empty: "invar q \<Longrightarrow> contents q = [] \<Longrightarrow> pop q = (False, dflt, q)"
    and is_empty_iff: "invar q \<Longrightarrow> is_empty q \<longleftrightarrow> contents q = []"
begin

lemma invar_pushes: "invar q \<Longrightarrow> invar (fold push xs q)"
  by (induction xs arbitrary: q) (auto simp: invar_push)

lemma contents_pushes: "invar q \<Longrightarrow> contents (fold push xs q) = contents q @ xs"
  by (induction xs arbitrary: q) (auto simp: invar_push contents_push)

lemma pop_success_iff: "invar q \<Longrightarrow> fst (pop q) \<longleftrightarrow> contents q \<noteq> []"
  by (cases "contents q") (auto dest: pop_nonempty pop_empty)

lemma pop_after_pushes:
  assumes "invar q" "contents q = []"
  shows "\<exists>q'. pop (fold push (x # xs) q) = (True, x, q') \<and> contents q' = xs \<and> invar q'"
proof -
  have i: "invar (fold push (x # xs) q)" and c: "contents (fold push (x # xs) q) = x # xs"
    using assms invar_pushes [of q "x # xs"] contents_pushes [of q "x # xs"] by simp_all
  from pop_nonempty [OF i c] invar_pop [OF i] show ?thesis by blast
qed

end

section \<open>The locked deque\<close>

type_synonym 'a lock_queue = "'a list"

definition lq_push :: "'a \<Rightarrow> 'a lock_queue \<Rightarrow> 'a lock_queue" where
  "lq_push t q = q @ [t]"

definition lq_pop :: "'a \<Rightarrow> 'a lock_queue \<Rightarrow> bool \<times> 'a \<times> 'a lock_queue" where
  "lq_pop dflt q = (if q = [] then (False, dflt, q) else (True, hd q, tl q))"

definition lq_empty :: "'a lock_queue \<Rightarrow> bool" where
  "lq_empty q \<longleftrightarrow> q = []"

definition lq_size :: "'a lock_queue \<Rightarrow> nat" where
  "lq_size q = length q"

text \<open>The template at a pointer type (\<open>None\<close> is \<open>nullptr\<close>), and the one for \<open>int\<close>.\<close>

definition lq_pop_ptr :: "'p option lock_queue \<Rightarrow> bool \<times> 'p option \<times> 'p option lock_queue" where
  "lq_pop_ptr = lq_pop None"

definition lq_pop_int :: "int lock_queue \<Rightarrow> bool \<times> int \<times> int lock_queue" where
  "lq_pop_int = lq_pop (- 1)"

lemmas lq_defs [queue_simps] =
  lq_push_def lq_pop_def lq_empty_def lq_size_def lq_pop_ptr_def lq_pop_int_def

interpretation lq: fifo lq_push "lq_pop d" lq_empty "\<lambda>q. q" "\<lambda>_. True" d for d :: 'a
  by unfold_locales (auto simp: queue_simps)

interpretation lqi: fifo lq_push lq_pop_int lq_empty "\<lambda>q. q" "\<lambda>_. True" "- 1"
  by unfold_locales (auto simp: queue_simps)

section \<open>Properties\<close>

text \<open>Elements leave in the order they came: after pushing a non-empty list of values to an
  empty queue, \<open>pop\<close> succeeds with the first of them and leaves the others in order.\<close>

theorem lock_queue_fifo:
  "\<exists>q'. lq_pop_int (fold lq_push (x # xs) []) = (True, x, q') \<and> q' = xs"
  using lqi.pop_after_pushes [of "[]" x xs] by simp

text \<open>\<open>pop\<close> on an empty queue of file descriptors fails, writes \<open>-1\<close> and changes nothing;
  it fails in no other case.\<close>

theorem lock_queue_pop_fails_iff_empty:
  "(\<not> fst (lq_pop_int q) \<longleftrightarrow> q = []) \<and> lq_pop_int [] = (False, - 1, [])"
  using lqi.pop_success_iff [of q] lqi.pop_empty [of "[]"] by simp

end
