(* ===== verification/SocketIO.thy ===== *)
theory SocketIO
  imports Prelude
begin

text \<open>
  \<open>socket_io\<close> of \<open>src/core/include/socket_io.h\<close>: sending and receiving over a socket in
  pieces, with cursors kept in the object so that an interrupted transfer can go on in a later
  call. Counts and cursors are \<open>size_t\<close>, 64-bit words that wrap.

  The kernel side is a script: what it decides at each \<open>send\<close> or \<open>recv\<close> in turn. A successful
  call moves as many bytes as there is room for (or as have arrived), at most the count asked for;
  a failing one returns \<open>-1\<close> and sets \<open>errno\<close>. A call that finds the script at its end has not
  returned: the outcome is \<open>Blocked\<close>.
\<close>

section \<open>The kernel's side\<close>

datatype send_reply = Room nat | Send_error int
datatype recv_reply = Arrived nat | Recv_error int

abbreviation EAGAIN :: int where "EAGAIN \<equiv> 11"

record net =
  send_script :: "send_reply list"
  recv_script :: "recv_reply list"
  wire_out :: string
  wire_in :: string
  errno :: int

text \<open>\<open>::send(fd, buf, len, flags)\<close> with \<open>buf\<close> the \<open>len\<close> bytes given.\<close>

definition sys_send :: "string \<Rightarrow> net \<Rightarrow> (int \<times> net) outcome" where
  "sys_send buf n =
     (case send_script n of
        [] \<Rightarrow> Blocked
      | Room k # rs \<Rightarrow>
          Ret (int (min k (length buf)),
               n\<lparr>send_script := rs, wire_out := wire_out n @ take k buf\<rparr>)
      | Send_error e # rs \<Rightarrow> Ret (- 1, n\<lparr>send_script := rs, errno := e\<rparr>))"

text \<open>\<open>::recv(fd, buf, len, flags)\<close>: the bytes stored into \<open>buf\<close>, none at end of stream.\<close>

definition sys_recv :: "nat \<Rightarrow> net \<Rightarrow> (int \<times> string \<times> net) outcome" where
  "sys_recv len n =
     (case recv_script n of
        [] \<Rightarrow> Blocked
      | Arrived k # rs \<Rightarrow>
          (let got = take (min k len) (wire_in n) in
           Ret (int (length got), got,
                n\<lparr>recv_script := rs, wire_in := drop (min k len) (wire_in n)\<rparr>))
      | Recv_error e # rs \<Rightarrow> Ret (- 1, [], n\<lparr>recv_script := rs, errno := e\<rparr>))"

section \<open>The object\<close>

record sock =
  read_cursor :: size_t
  write_cursor :: size_t
  write_total_bytes :: size_t
  read_total_bytes :: size_t
  socket_fd :: int
  already :: bool

definition new_sock :: sock where
  "new_sock = \<lparr>read_cursor = 0, write_cursor = 0, write_total_bytes = 0, read_total_bytes = 0,
               socket_fd = - 1, already = True\<rparr>"

text \<open>\<open>sizeof(read_buffer)\<close> and \<open>sizeof(write_buffer)\<close>.\<close>

definition BUF :: size_t where "BUF = 2048"

definition chunk_len :: "size_t \<Rightarrow> size_t" where
  "chunk_len need = (if need > BUF then BUF else need)"

text \<open>
  \<open>send_base\<close>. The object behind \<open>data\<close> has the bytes \<open>data\<close> only; \<open>memcpy\<close> from outside it is
  undefined. \<open>send_count\<close> is a \<open>size_t\<close>, so the test \<open><= 0\<close> on it sees the \<open>-1\<close> of an error as
  the largest count. Every round uses up one entry of the script, which ends the recursion.
\<close>

function send_base :: "string \<Rightarrow> ('a sock_scheme) \<Rightarrow> net \<Rightarrow> (bool \<times> 'a sock_scheme \<times> net) outcome" where
  "send_base data s n =
     (if write_cursor s < write_total_bytes s then
        (let need_to_send = write_total_bytes s - write_cursor s;
             len = chunk_len need_to_send in
         if length data < unat (write_cursor s) + unat len then Undef
         else
           (case sys_send (take (unat len) (drop (unat (write_cursor s)) data)) n of
              Ret (ret, n') \<Rightarrow>
                (let send_count = to_size_t ret in
                 if send_count \<le> 0 then Ret (False, s, n')
                 else send_base data (s\<lparr>write_cursor := write_cursor s + send_count\<rparr>) n')
            | Throw \<Rightarrow> Throw | Undef \<Rightarrow> Undef | Blocked \<Rightarrow> Blocked | Abort \<Rightarrow> Abort))
      else Ret (True, s, n))"
  by pat_completeness auto
termination
  by (relation "measure (\<lambda>(data, s, n). length (send_script n))")
     (auto simp: sys_send_def split: list.splits send_reply.splits)

declare send_base.simps [simp del]

text \<open>\<open>recv_base\<close>. \<open>read_count\<close> is an \<open>ssize_t\<close>; \<open>read_total_bytes <= 0\<close> on a \<open>size_t\<close> is \<open>= 0\<close>.\<close>

function recv_loop :: "string \<Rightarrow> ('a sock_scheme) \<Rightarrow> net \<Rightarrow> (bool \<times> string \<times> 'a sock_scheme \<times> net) outcome" where
  "recv_loop data s n =
     (if read_cursor s < read_total_bytes s then
        (case sys_recv (unat (chunk_len (read_total_bytes s - read_cursor s))) n of
           Ret (read_count, read_buffer, n') \<Rightarrow>
             (if read_count \<le> 0 then Ret (errno n' = EAGAIN, data, s, n')
              else recv_loop (data @ read_buffer)
                     (s\<lparr>read_cursor := read_cursor s + to_size_t read_count\<rparr>) n')
         | Throw \<Rightarrow> Throw | Undef \<Rightarrow> Undef | Blocked \<Rightarrow> Blocked | Abort \<Rightarrow> Abort)
      else Ret (True, data, s, n))"
  by pat_completeness auto
termination
  by (relation "measure (\<lambda>(data, s, n). length (recv_script n))")
     (auto simp: sys_recv_def Let_def split: list.splits recv_reply.splits)

declare recv_loop.simps [simp del]

definition recv_base :: "string \<Rightarrow> ('a sock_scheme) \<Rightarrow> net \<Rightarrow> (bool \<times> string \<times> 'a sock_scheme \<times> net) outcome" where
  "recv_base data s n =
     (if read_total_bytes s \<le> 0 then Ret (False, data, s, n) else recv_loop data s n)"

section \<open>The public operations\<close>

text \<open>The bytes of a \<open>header\<close> on the little-endian target.\<close>

fun le_bytes :: "nat \<Rightarrow> nat \<Rightarrow> string" where
  "le_bytes 0 v = []"
| "le_bytes (Suc k) v = char_of (v mod 256) # le_bytes k (v div 256)"

fun le_value :: "string \<Rightarrow> nat" where
  "le_value [] = 0"
| "le_value (c # cs) = of_char c + 256 * le_value cs"

definition HEADER_SIZE :: nat where "HEADER_SIZE = 8"

definition finish_send :: "(bool \<times> 'a sock_scheme \<times> net) outcome \<Rightarrow> (bool \<times> 'a sock_scheme \<times> net) outcome" where
  "finish_send r = bind_out r (\<lambda>(ok, s, n). Ret (ok, s\<lparr>already := ok\<rparr>, n))"

text \<open>
  The three overloads of \<open>send_with_header\<close> are the same for a text without NUL: \<open>data\<close> is
  the text, and the object behind the pointer is the text with its final NUL.
\<close>

definition send_with_header :: "string \<Rightarrow> ('a sock_scheme) \<Rightarrow> net \<Rightarrow> (bool \<times> 'a sock_scheme \<times> net) outcome" where
  "send_with_header data s n =
     (if already s then
        (let s1 = s\<lparr>write_total_bytes := of_nat (length data) + 1, write_cursor := 0\<rparr> in
         if write_total_bytes s1 \<le> 1 then Ret (False, s1, n)
         else
           bind_out (sys_send (le_bytes HEADER_SIZE (unat (write_total_bytes s1))) n) (\<lambda>(ret, n1).
           if ret \<le> 0 then Ret (False, s1, n1)
           else finish_send (send_base (data @ [NUL]) s1 n1)))
      else finish_send (send_base (data @ [NUL]) s n))"

text \<open>The three overloads of \<open>send\<close>: \<open>data\<close> is the whole object the pointer points to.\<close>

definition send :: "string \<Rightarrow> size_t \<Rightarrow> ('a sock_scheme) \<Rightarrow> net \<Rightarrow> (bool \<times> 'a sock_scheme \<times> net) outcome" where
  "send data sz s n =
     (if already s then
        (let s1 = s\<lparr>write_total_bytes := sz, write_cursor := 0\<rparr> in
         if write_total_bytes s1 \<le> 0 then Ret (False, s1, n)
         else finish_send (send_base data s1 n))
      else finish_send (send_base data s n))"

definition finish_recv ::
  "(bool \<times> string \<times> 'a sock_scheme \<times> net) outcome \<Rightarrow> (bool \<times> string \<times> 'a sock_scheme \<times> net) outcome" where
  "finish_recv r = bind_out r (\<lambda>(ok, d, s, n). Ret (ok, d, s\<lparr>already := ok\<rparr>, n))"

text \<open>The bytes of a \<open>header\<close> of which only the first ones were received; \<open>h\<close> starts zeroed.\<close>

definition header_size :: "string \<Rightarrow> size_t" where
  "header_size got = of_nat (le_value got)"

definition recv_with_header ::
  "string \<Rightarrow> ('a sock_scheme) \<Rightarrow> net \<Rightarrow> (bool \<times> string \<times> 'a sock_scheme \<times> net) outcome" where
  "recv_with_header data s n =
     (if already s then
        bind_out (sys_recv HEADER_SIZE n) (\<lambda>(ret, got, n1).
        if ret \<le> 0 then Ret (False, data, s, n1)
        else finish_recv
               (recv_base data (s\<lparr>read_total_bytes := header_size got, read_cursor := 0\<rparr>) n1))
      else finish_recv (recv_base data s n))"

definition recv ::
  "string \<Rightarrow> size_t \<Rightarrow> ('a sock_scheme) \<Rightarrow> net \<Rightarrow> (bool \<times> string \<times> 'a sock_scheme \<times> net) outcome" where
  "recv data sz s n =
     finish_recv (recv_base data
       (if already s then s\<lparr>read_total_bytes := sz, read_cursor := 0\<rparr> else s) n)"

definition SIZE_MAX :: size_t where "SIZE_MAX = - 1"

definition recv_all ::
  "string \<Rightarrow> ('a sock_scheme) \<Rightarrow> net \<Rightarrow> (bool \<times> string \<times> 'a sock_scheme \<times> net) outcome" where
  "recv_all data s n =
     finish_recv (recv_base data
       (if already s then s\<lparr>read_total_bytes := SIZE_MAX, read_cursor := 0\<rparr> else s) n)"

section \<open>Files\<close>

text \<open>
  \<open>send_file\<close>: \<open>file\<close> is what \<open>open\<close> finds, \<open>None\<close> when it fails; then \<open>fstat\<close> fails too
  and \<open>st\<close> stays zeroed. \<open>sendfile\<close> is a \<open>send\<close> from the file at \<open>offset\<close>. The second
  component of the result tells whether the descriptor of the file was closed.
\<close>

function send_file_loop ::
  "string \<Rightarrow> ('a sock_scheme) \<Rightarrow> net \<Rightarrow> (bool \<times> bool \<times> 'a sock_scheme \<times> net) outcome" where
  "send_file_loop content s n =
     (if write_cursor s < write_total_bytes s then
        (case sys_send (take (unat (write_total_bytes s - write_cursor s))
                          (drop (unat (write_cursor s)) content)) n of
           Ret (ret, n') \<Rightarrow>
             (let send_count = to_size_t ret in
              if send_count = - 1 then Ret (False, errno n' \<noteq> EAGAIN, s, n')
              else send_file_loop content (s\<lparr>write_cursor := write_cursor s + send_count\<rparr>) n')
         | Throw \<Rightarrow> Throw | Undef \<Rightarrow> Undef | Blocked \<Rightarrow> Blocked | Abort \<Rightarrow> Abort)
      else Ret (True, True, s, n))"
  by pat_completeness auto
termination
  by (relation "measure (\<lambda>(data, s, n). length (send_script n))")
     (auto simp: sys_send_def split: list.splits send_reply.splits)

declare send_file_loop.simps [simp del]

definition send_file ::
  "string option \<Rightarrow> ('a sock_scheme) \<Rightarrow> net \<Rightarrow> (bool \<times> bool \<times> 'a sock_scheme \<times> net) outcome" where
  "send_file file s n =
     (let content = (case file of None \<Rightarrow> [] | Some c \<Rightarrow> c) in
      send_file_loop content
        (s\<lparr>write_cursor := 0, write_total_bytes := of_nat (length content)\<rparr>) n)"

text \<open>
  \<open>recv_file\<close>: the third component is what \<open>fwrite\<close> wrote, the second whether \<open>fclose\<close> was
  reached. Here \<open>read_count\<close> is a \<open>size_t\<close>: the \<open>-1\<close> of an error passes the test \<open><= 0\<close>, and
  \<open>fwrite\<close> is told to write more bytes than the buffer has, which is undefined.
\<close>

function recv_file_loop ::
  "string \<Rightarrow> ('a sock_scheme) \<Rightarrow> net \<Rightarrow> (bool \<times> bool \<times> string \<times> 'a sock_scheme \<times> net) outcome" where
  "recv_file_loop written s n =
     (if read_cursor s < read_total_bytes s then
        (case sys_recv (unat (chunk_len (read_total_bytes s - read_cursor s))) n of
           Ret (ret, read_buffer, n') \<Rightarrow>
             (let read_count = to_size_t ret in
              if read_count \<le> 0 then Ret (errno n' = EAGAIN, False, written, s, n')
              else if read_count > BUF then Undef
              else recv_file_loop (written @ read_buffer)
                     (s\<lparr>read_cursor := read_cursor s + read_count\<rparr>) n')
         | Throw \<Rightarrow> Throw | Undef \<Rightarrow> Undef | Blocked \<Rightarrow> Blocked | Abort \<Rightarrow> Abort)
      else Ret (True, True, written, s, n))"
  by pat_completeness auto
termination
  by (relation "measure (\<lambda>(data, s, n). length (recv_script n))")
     (auto simp: sys_recv_def Let_def split: list.splits recv_reply.splits)

declare recv_file_loop.simps [simp del]

definition recv_file ::
  "size_t \<Rightarrow> ('a sock_scheme) \<Rightarrow> net \<Rightarrow> (bool \<times> bool \<times> string \<times> 'a sock_scheme \<times> net) outcome" where
  "recv_file sz s n = recv_file_loop [] (s\<lparr>read_cursor := 0, read_total_bytes := sz\<rparr>) n"

section \<open>Chunks and cursors\<close>

lemma unat_chunk_len: "unat (chunk_len w) = min 2048 (unat w)"
  by (auto simp: chunk_len_def BUF_def word_less_nat_alt min_def)

lemma unat_cursor_left: "c \<le> (t :: size_t) \<Longrightarrow> unat (t - c) = unat t - unat c"
  by (simp add: unat_sub)

lemma cursor_less: "c < (t :: size_t) \<Longrightarrow> unat (t - c) = unat t - unat c \<and> unat c < unat t"
  by (simp add: unat_cursor_left) (simp add: word_less_nat_alt)

lemma to_size_t_count:
  assumes "k < 2 ^ 63"
  shows "to_size_t (int k) \<le> 0 \<longleftrightarrow> k = 0" "unat (to_size_t (int k)) = k"
proof -
  show "unat (to_size_t (int k)) = k"
    using assms by (simp add: to_size_t_of_nat unat_of_nat_size)
  then show "to_size_t (int k) \<le> 0 \<longleftrightarrow> k = 0"
    by (auto simp: word_le_nat_alt)
qed

lemma cursor_advance:
  assumes "c \<le> (t :: size_t)" "k \<le> unat (t - c)" "k < 2 ^ 63"
  shows "unat (c + to_size_t (int k)) = unat c + k" "c + to_size_t (int k) \<le> t"
proof -
  have "unat c + k \<le> unat t"
    using assms(1,2) by (simp add: unat_cursor_left word_le_nat_alt)
  moreover have "unat t < 2 ^ 64" by (rule order_less_le_trans [OF unsigned_less]) simp
  ultimately show *: "unat (c + to_size_t (int k)) = unat c + k"
    by (subst to_size_t_of_nat) (simp add: unat_add_no_wrap)
  with \<open>unat c + k \<le> unat t\<close> show "c + to_size_t (int k) \<le> t"
    by (simp add: word_le_nat_alt)
qed

text \<open>A script without errors, and one in which every reply moves something.\<close>

fun no_error :: "send_reply \<Rightarrow> bool" where
  "no_error (Room k) = True"
| "no_error (Send_error e) = False"

fun moves :: "send_reply \<Rightarrow> bool" where
  "moves (Room k) = (0 < k)"
| "moves (Send_error e) = False"

fun arrives :: "recv_reply \<Rightarrow> bool" where
  "arrives (Arrived k) = (0 < k)"
| "arrives (Recv_error e) = False"

text \<open>What one round does when the kernel makes room for \<open>k\<close> bytes.\<close>

lemma send_base_room:
  fixes s :: "'a sock_scheme"
  assumes "write_cursor s < write_total_bytes s" "unat (write_total_bytes s) \<le> length data"
    and "send_script n = Room k # rs"
  defines "c \<equiv> unat (write_cursor s)"
    and "m \<equiv> min k (min 2048 (unat (write_total_bytes s) - unat (write_cursor s)))"
  shows "send_base data s n =
    (if m = 0 then Ret (False, s, n\<lparr>send_script := rs\<rparr>)
     else send_base data (s\<lparr>write_cursor := write_cursor s + to_size_t (int m)\<rparr>)
            (n\<lparr>send_script := rs, wire_out := wire_out n @ take m (drop c data)\<rparr>))"
proof -
  let ?len = "unat (chunk_len (write_total_bytes s - write_cursor s))"
  have len: "?len = min 2048 (unat (write_total_bytes s) - c)"
    using assms(1) by (simp add: unat_chunk_len unat_cursor_left c_def)
  have inside: "c + ?len \<le> length data"
    using assms(1,2) len by (auto simp: c_def word_less_nat_alt)
  have m: "m = min k ?len" "m < 2 ^ 63"
    using len by (auto simp: m_def c_def)
  have cnt: "min k (length (take ?len (drop c data))) = m"
    using inside m by simp
  have bytes: "take k (take ?len (drop c data)) = take m (drop c data)"
    using m by simp
  show ?thesis
    using assms(1,3) inside cnt bytes to_size_t_count [OF m(2)]
    by (subst send_base.simps) (simp add: c_def sys_send_def Let_def min.commute)
qed

lemma send_base_progress:
  fixes s :: "'a sock_scheme"
  assumes "write_cursor s \<le> write_total_bytes s" "unat (write_total_bytes s) \<le> length data"
    and "list_all no_error (send_script n)" "send_base data s n = Ret (ok, s', n')"
  shows "\<exists>c. s' = s\<lparr>write_cursor := c\<rparr> \<and> write_cursor s \<le> c \<and> c \<le> write_total_bytes s \<and>
     (ok \<longleftrightarrow> c = write_total_bytes s) \<and> list_all no_error (send_script n') \<and>
     wire_out n' = wire_out n @ take (unat c - unat (write_cursor s)) (drop (unat (write_cursor s)) data)"
  using assms
proof (induction "send_script n" arbitrary: s n)
  case Nil
  then show ?case
    by (subst (asm) send_base.simps)
       (auto simp: sys_send_def Let_def split: if_splits)
next
  case (Cons r rs)
  show ?case
  proof (cases "write_cursor s < write_total_bytes s")
    case False
    with Cons.prems show ?thesis by (subst (asm) send_base.simps) auto
  next
    case True
    from Cons.hyps(2) [symmetric] Cons.prems(3) obtain k where r: "send_script n = Room k # rs"
      by (cases r) auto
    define c where "c = unat (write_cursor s)"
    define m where "m = min k (min 2048 (unat (write_total_bytes s) - unat (write_cursor s)))"
    note round = send_base_room [OF True Cons.prems(2) r, folded c_def m_def]
    show ?thesis
    proof (cases "m = 0")
      case zero: True
      with round Cons.prems(3,4) r True show ?thesis
        by (intro exI [of _ "write_cursor s"]) auto
    next
      case False
      let ?s = "s\<lparr>write_cursor := write_cursor s + to_size_t (int m)\<rparr>"
      let ?n = "n\<lparr>send_script := rs, wire_out := wire_out n @ take m (drop c data)\<rparr>"
      have m: "m \<le> unat (write_total_bytes s - write_cursor s)" "m < 2 ^ 63"
        using True by (auto simp: m_def unat_cursor_left)
      have le: "write_cursor s \<le> write_total_bytes s" using True by simp
      note adv = cursor_advance [OF le m]
      have run: "send_base data ?s ?n = Ret (ok, s', n')" using round False Cons.prems(4) by simp
      from Cons.hyps(1) [of ?n ?s, OF _ _ _ _ run] adv Cons.prems(2,3) r
      obtain c' where c': "s' = ?s\<lparr>write_cursor := c'\<rparr>" "write_cursor ?s \<le> c'"
        "c' \<le> write_total_bytes s" "ok \<longleftrightarrow> c' = write_total_bytes s"
        "list_all no_error (send_script n')"
        "wire_out n' = wire_out ?n @ take (unat c' - (c + m)) (drop (c + m) data)"
        by (auto simp: c_def)
      have "c + m \<le> unat c'" using c'(2) adv by (simp add: word_le_nat_alt c_def)
      then have "wire_out n' = wire_out n @ take (unat c' - c) (drop c data)"
        using c'(6) by (simp add: take_append_drop_chunk)
      moreover have "write_cursor s \<le> c'"
        using \<open>c + m \<le> unat c'\<close> by (simp add: word_le_nat_alt c_def)
      ultimately show ?thesis using c' by (auto simp: c_def)
    qed
  qed
qed

lemma send_base_returns:
  fixes s :: "'a sock_scheme"
  assumes "write_cursor s \<le> write_total_bytes s" "unat (write_total_bytes s) \<le> length data"
    and "list_all moves (send_script n)"
    and "unat (write_total_bytes s) - unat (write_cursor s) \<le> length (send_script n)"
  shows "\<exists>s' n'. send_base data s n = Ret (True, s', n')"
  using assms
proof (induction "send_script n" arbitrary: s n)
  case Nil
  then have "write_cursor s = write_total_bytes s"
    by (simp add: word_le_nat_alt word_unat_eq_iff)
  then show ?case by (subst send_base.simps) simp
next
  case (Cons r rs)
  show ?case
  proof (cases "write_cursor s < write_total_bytes s")
    case False
    then show ?thesis by (subst send_base.simps) simp
  next
    case True
    from Cons.hyps(2) [symmetric] Cons.prems(3) obtain k where r: "send_script n = Room k # rs" "0 < k"
      by (cases r) auto
    define m where "m = min k (min 2048 (unat (write_total_bytes s) - unat (write_cursor s)))"
    let ?s = "s\<lparr>write_cursor := write_cursor s + to_size_t (int m)\<rparr>"
    let ?n = "n\<lparr>send_script := rs,
      wire_out := wire_out n @ take m (drop (unat (write_cursor s)) data)\<rparr>"
    have m: "0 < m" "m \<le> unat (write_total_bytes s - write_cursor s)" "m < 2 ^ 63"
      using cursor_less [OF True] r by (auto simp: m_def)
    have "write_cursor s \<le> write_total_bytes s" using True by simp
    note adv = cursor_advance [OF this m(2,3)]
    have "\<exists>s' n'. send_base data ?s ?n = Ret (True, s', n')"
      by (rule Cons.hyps(1)) (use adv m Cons.prems r in auto)
    with send_base_room [OF True Cons.prems(2) r(1), folded m_def] m(1) show ?thesis by simp
  qed
qed

lemma moves_no_error: "list_all moves rs \<Longrightarrow> list_all no_error rs"
  by (induction rs) (auto elim: moves.elims)

lemma send_base_delivers:
  fixes s :: "'a sock_scheme"
  assumes "write_cursor s \<le> write_total_bytes s" "unat (write_total_bytes s) \<le> length data"
    and "list_all moves (send_script n)"
    and "unat (write_total_bytes s) - unat (write_cursor s) \<le> length (send_script n)"
  shows "\<exists>n'. send_base data s n = Ret (True, s\<lparr>write_cursor := write_total_bytes s\<rparr>, n') \<and>
    wire_out n' = wire_out n @ take (unat (write_total_bytes s) - unat (write_cursor s))
                                 (drop (unat (write_cursor s)) data)"
proof -
  from send_base_returns [OF assms] obtain s' n' where r: "send_base data s n = Ret (True, s', n')"
    by blast
  from send_base_progress [OF assms(1,2) moves_no_error [OF assms(3)] r] r show ?thesis by auto
qed

text \<open>What an error does to the round.\<close>

lemma send_base_error:
  assumes "write_cursor s < write_total_bytes s" "unat (write_total_bytes s) \<le> length data"
    and "send_script n = Send_error e # rs"
  shows "send_base data s n =
    send_base data (s\<lparr>write_cursor := write_cursor s - 1\<rparr>) (n\<lparr>send_script := rs, errno := e\<rparr>)"
proof -
  have "unat (write_cursor s) + unat (chunk_len (write_total_bytes s - write_cursor s)) \<le> length data"
    using cursor_less [OF assms(1)] assms(2) by (auto simp: unat_chunk_len)
  then show ?thesis
    using assms(1,3)
    by (subst send_base.simps) (simp add: sys_send_def Let_def to_size_t_neg1)
qed

text \<open>Receiving: a round that gets something, and the whole loop when enough arrives.\<close>

lemma recv_loop_arrived:
  assumes "read_cursor s < read_total_bytes s" "recv_script n = Arrived k # rs"
  defines "m \<equiv> min (min k (min 2048 (unat (read_total_bytes s) - unat (read_cursor s)))) (length (wire_in n))"
  shows "recv_loop data s n =
    (if m = 0 then Ret (errno n = EAGAIN, data, s, n\<lparr>recv_script := rs\<rparr>)
     else recv_loop (data @ take m (wire_in n))
            (s\<lparr>read_cursor := read_cursor s + to_size_t (int m)\<rparr>)
            (n\<lparr>recv_script := rs, wire_in := drop m (wire_in n)\<rparr>))"
proof -
  have len: "unat (chunk_len (read_total_bytes s - read_cursor s)) =
      min 2048 (unat (read_total_bytes s) - unat (read_cursor s))"
    using assms(1) by (simp add: unat_chunk_len unat_cursor_left)
  let ?k = "min k (min 2048 (unat (read_total_bytes s) - unat (read_cursor s)))"
  have "take ?k (wire_in n) = take m (wire_in n)" "drop ?k (wire_in n) = drop m (wire_in n)"
    by (simp_all add: m_def min_def)
  moreover have "length (take ?k (wire_in n)) = m" by (simp add: m_def min.commute)
  moreover have "m = 0 \<Longrightarrow> n\<lparr>recv_script := rs, wire_in := drop m (wire_in n)\<rparr> = n\<lparr>recv_script := rs\<rparr>"
    by simp
  ultimately show ?thesis
    using assms(1,2) len by (subst recv_loop.simps) (auto simp: sys_recv_def Let_def)
qed

lemma recv_loop_receives:
  fixes s :: "'a sock_scheme"
  assumes "read_cursor s \<le> read_total_bytes s" "list_all arrives (recv_script n)"
    and "unat (read_total_bytes s) - unat (read_cursor s) \<le> length (recv_script n)"
    and "unat (read_total_bytes s) - unat (read_cursor s) \<le> length (wire_in n)"
  shows "\<exists>n'. recv_loop data s n =
      Ret (True, data @ take (unat (read_total_bytes s) - unat (read_cursor s)) (wire_in n),
           s\<lparr>read_cursor := read_total_bytes s\<rparr>, n') \<and>
    wire_in n' = drop (unat (read_total_bytes s) - unat (read_cursor s)) (wire_in n)"
  using assms
proof (induction "recv_script n" arbitrary: data s n)
  case Nil
  then have "read_cursor s = read_total_bytes s"
    by (simp add: word_le_nat_alt word_unat_eq_iff)
  then show ?case by (subst recv_loop.simps) simp
next
  case (Cons r rs)
  show ?case
  proof (cases "read_cursor s < read_total_bytes s")
    case False
    with Cons.prems(1) have "read_cursor s = read_total_bytes s" by simp
    then show ?thesis by (subst recv_loop.simps) simp
  next
    case True
    from Cons.hyps(2) [symmetric] Cons.prems(2) obtain k where r: "recv_script n = Arrived k # rs" "0 < k"
      by (cases r) auto
    define left where "left = unat (read_total_bytes s) - unat (read_cursor s)"
    define m where "m = min (min k (min 2048 left)) (length (wire_in n))"
    let ?s = "s\<lparr>read_cursor := read_cursor s + to_size_t (int m)\<rparr>"
    let ?n = "n\<lparr>recv_script := rs, wire_in := drop m (wire_in n)\<rparr>"
    have "0 < left" using True by (simp add: left_def word_less_nat_alt)
    then have m: "0 < m" "m \<le> left" "m < 2 ^ 63"
      using r(2) Cons.prems(4) by (auto simp: m_def left_def)
    have left: "left = unat (read_total_bytes s - read_cursor s)"
      using True by (simp add: left_def unat_cursor_left)
    have "read_cursor s \<le> read_total_bytes s" using True by simp
    note adv = cursor_advance [OF this m(2) [unfolded left] m(3)]
    have rest: "unat (read_total_bytes s) - unat (read_cursor ?s) = left - m"
      using adv by (simp add: left_def)
    have "\<exists>n'. recv_loop (data @ take m (wire_in n)) ?s ?n =
        Ret (True, (data @ take m (wire_in n)) @ take (left - m) (wire_in ?n),
             ?s\<lparr>read_cursor := read_total_bytes s\<rparr>, n') \<and> wire_in n' = drop (left - m) (wire_in ?n)"
      using Cons.hyps(1) [of ?n ?s "data @ take m (wire_in n)"] rest adv m Cons.prems r
      by (simp add: left_def)
    moreover have "take m (wire_in n) @ take (left - m) (drop m (wire_in n)) = take left (wire_in n)"
      using take_append_drop_chunk [of m 0 "wire_in n" "left - m"] m(2) by simp
    moreover have "drop (left - m) (drop m (wire_in n)) = drop left (wire_in n)"
      using m(2) by simp
    ultimately show ?thesis
      using recv_loop_arrived [OF True r(1), of data, folded left_def, folded m_def] m(1)
      by (simp add: left_def [symmetric])
  qed
qed

section \<open>Headers\<close>

lemma le_value_le_bytes: "le_value (le_bytes k v) = v mod 256 ^ k"
proof (induction k arbitrary: v)
  case (Suc k)
  have "of_char (char_of (v mod 256) :: char) = v mod (256 :: nat)"
    by (simp add: of_char_of)
  with Suc show ?case by (simp add: mod_mult2_eq)
qed simp

lemma length_le_bytes [simp]: "length (le_bytes k v) = k"
  by (induction k arbitrary: v) auto

lemma header_size_le_bytes: "header_size (le_bytes HEADER_SIZE (unat w)) = w"
proof -
  have "unat w < 256 ^ 8" by (rule order_less_le_trans [OF unsigned_less]) simp
  then show ?thesis by (simp add: header_size_def le_value_le_bytes HEADER_SIZE_def)
qed

lemma send_start:
  "already s \<Longrightarrow> 0 < sz \<Longrightarrow> send data sz s n =
     finish_send (send_base data (s\<lparr>write_total_bytes := sz, write_cursor := 0\<rparr>) n)"
  by (auto simp: send_def Let_def)

lemma send_again: "\<not> already s \<Longrightarrow> send data sz s n = finish_send (send_base data s n)"
  by (simp add: send_def)

lemma finish_send_Ret_iff:
  "finish_send r = Ret (ok, s1, n1) \<longleftrightarrow> (\<exists>s0. r = Ret (ok, s0, n1) \<and> s1 = s0\<lparr>already := ok\<rparr>)"
  by (auto simp: finish_send_def bind_out_Ret_iff)

section \<open>Properties\<close>

text \<open>\<open>send\<close> delivers: when every reply of the kernel makes some room and there are
  enough of them, the call returns true, exactly the first \<open>size\<close> bytes of the data go out, in
  order and in chunks of any size, and the object is ready for the next message.\<close>

theorem send_delivers:
  assumes "already s" "0 < sz" "unat sz \<le> length data"
    and "list_all moves (send_script n)" "unat sz \<le> length (send_script n)"
  shows "\<exists>s' n'. send data sz s n = Ret (True, s', n') \<and> already s' \<and>
    wire_out n' = wire_out n @ take (unat sz) data"
proof -
  let ?s = "s\<lparr>write_total_bytes := sz, write_cursor := 0\<rparr>"
  from send_base_delivers [of ?s data n] assms
  obtain n' where "send_base data ?s n = Ret (True, ?s\<lparr>write_cursor := sz\<rparr>, n')"
    "wire_out n' = wire_out n @ take (unat sz) data"
    by (auto simp: less_imp_le)
  with assms(1,2) show ?thesis by (simp add: send_start finish_send_def)
qed

definition idle_net :: "send_reply list \<Rightarrow> recv_reply list \<Rightarrow> string \<Rightarrow> net" where
  "idle_net ss rs incoming =
     \<lparr>send_script = ss, recv_script = rs, wire_out = [], wire_in = incoming, errno = 0\<rparr>"

theorem send_delivers_witness:
  "\<exists>s' n'. send ''hello'' 3 new_sock (idle_net [Room 1, Room 9, Room 2] [] []) = Ret (True, s', n') \<and>
    already s' \<and> wire_out n' = wire_out (idle_net [Room 1, Room 9, Room 2] [] []) @ take (unat (3 :: size_t)) ''hello''"
  by (rule send_delivers) (simp_all add: new_sock_def idle_net_def)





text \<open>An error later in a message moves the cursor back by one: the last byte that went out
  before it is sent again.\<close>

theorem send_error_repeats_byte:
  assumes "already s" "0 < k" "k < unat sz" "unat sz \<le> length data" "unat sz \<le> 2048"
    and "send_script n = [Room k, Send_error e, Room 2048]"
  shows "\<exists>s' n'. send data sz s n = Ret (True, s', n') \<and>
    wire_out n' = wire_out n @ take k data @ drop (k - 1) (take (unat sz) data)"
proof -
  let ?s = "s\<lparr>write_total_bytes := sz, write_cursor := 0\<rparr>"
  have pos: "0 < sz" using assms(2,3) by (simp add: word_less_nat_alt)
  have k: "min k (min 2048 (unat sz)) = k" "unat (of_nat k :: size_t) = k"
    using assms(3,5) by (simp_all add: unat_of_nat_size)
  have k1: "unat (of_nat k - 1 :: size_t) = k - 1"
    using k(2) assms(2) by (subst unat_cursor_left) (simp_all add: word_le_nat_alt)
  have lt: "(of_nat k :: size_t) < sz" "(of_nat k - 1 :: size_t) < sz"
    using k(2) k1 assms(3) by (simp_all add: word_less_nat_alt)
  let ?m = "unat sz - (k - 1)"
  have "to_size_t (int ?m) = sz - (of_nat k - 1)"
    using lt(2) k1 assms(5)
    by (simp add: to_size_t_of_nat unat_cursor_left word_unat_eq_iff unat_of_nat_size order_less_imp_le)
  then have fin: "(of_nat k - 1) + to_size_t (int ?m) = sz" by simp
  have "send_base data ?s n = Ret (True, ?s\<lparr>write_cursor := sz\<rparr>,
      n\<lparr>send_script := [], errno := e,
        wire_out := (wire_out n @ take k data) @ take ?m (drop (k - 1) data)\<rparr>)"
    using pos k k1 lt assms(2-6) fin
    by (simp add: send_base_room send_base_error to_size_t_of_nat [of k] send_base.simps [of _ "_\<lparr>write_cursor := sz\<rparr>"])
  moreover have "take ?m (drop (k - 1) data) = drop (k - 1) (take (unat sz) data)"
    by (simp add: drop_take)
  ultimately show ?thesis
    using assms(1) pos by (simp add: send_start finish_send_def)
qed

theorem send_error_repeats_byte_witness:
  "\<exists>s' n'. send ''hello'' 5 new_sock (idle_net [Room 2, Send_error EAGAIN, Room 2048] [] []) = Ret (True, s', n') \<and>
    wire_out n' = ''heello''"
proof -
  have "\<exists>s' n'. send ''hello'' 5 new_sock (idle_net [Room 2, Send_error EAGAIN, Room 2048] [] []) = Ret (True, s', n') \<and>
    wire_out n' = wire_out (idle_net [Room 2, Send_error EAGAIN, Room 2048] [] []) @ take 2 ''hello'' @
      drop (2 - 1) (take (unat (5 :: size_t)) ''hello'')"
    by (rule send_error_repeats_byte) (simp_all add: new_sock_def idle_net_def)
  moreover have "wire_out (idle_net [Room 2, Send_error EAGAIN, Room 2048] [] []) @ take 2 ''hello'' @
      drop (2 - 1) (take (unat (5 :: size_t)) ''hello'') = ''heello''"
    by (simp add: idle_net_def)
  ultimately show ?thesis by (simp only:)
qed

text \<open>\<open>recv\<close> of a size collects exactly that many bytes, over any number of arrivals, and leaves
  the rest of the stream alone.\<close>

theorem recv_collects:
  assumes "already s" "0 < sz" "list_all arrives (recv_script n)"
    and "unat sz \<le> length (recv_script n)" "unat sz \<le> length (wire_in n)"
  shows "\<exists>s' n'. recv data sz s n = Ret (True, data @ take (unat sz) (wire_in n), s', n') \<and>
    already s' \<and> wire_in n' = drop (unat sz) (wire_in n)"
proof -
  let ?s = "s\<lparr>read_total_bytes := sz, read_cursor := 0\<rparr>"
  have "\<not> sz \<le> 0" using assms(2) by simp
  with recv_loop_receives [of ?s n data] assms show ?thesis
    by (auto simp: recv_def finish_recv_def recv_base_def)
qed

theorem recv_collects_witness:
  "\<exists>s' n'. recv [] 4 new_sock (idle_net [] [Arrived 1, Arrived 9, Arrived 1, Arrived 1] ''hello'') =
      Ret (True, [] @ take (unat (4 :: size_t)) (wire_in (idle_net [] [Arrived 1, Arrived 9, Arrived 1, Arrived 1] ''hello'')), s', n') \<and>
    already s' \<and> wire_in n' = drop (unat (4 :: size_t)) (wire_in (idle_net [] [Arrived 1, Arrived 9, Arrived 1, Arrived 1] ''hello''))"
  by (rule recv_collects) (simp_all add: new_sock_def idle_net_def)

text \<open>C11: The framing round trip: what \<open>send_with_header\<close> puts on the wire for a non-empty text,
  \<open>recv_with_header\<close> gives back with the final NUL appended to it, provided the eight bytes of the
  header go out and come in with one call each.\<close>

theorem framing_roundtrip:
  assumes "already s" "text \<noteq> []" "length text + 1 < 2 ^ 63"
    and "send_script n = Room h # ss" "8 \<le> h" "list_all moves ss" "length text + 1 \<le> length ss"
    and "already r" "recv_script m = Arrived g # rs" "8 \<le> g" "list_all arrives rs"
    and "length text + 1 \<le> length rs" "wire_out n = []"
  shows "\<exists>s' n'. send_with_header text s n = Ret (True, s', n') \<and>
    (\<exists>r' m'. recv_with_header data r (m\<lparr>wire_in := wire_out n' @ more_in\<rparr>) =
       Ret (True, data @ text @ [NUL], r', m') \<and> wire_in m' = more_in \<and> already r')"
proof -
  let ?w = "of_nat (length text) + 1 :: size_t"
  let ?hdr = "le_bytes HEADER_SIZE (unat ?w)"
  have w: "unat ?w = length text + 1"
    using unat_of_nat_size [of "length text + 1"] assms(3) by (simp add: add.commute)
  have big: "\<not> ?w \<le> 1" using w assms(2) by (simp add: word_le_nat_alt)
  have hl: "length ?hdr = 8" by (simp add: HEADER_SIZE_def)
  let ?s = "s\<lparr>write_total_bytes := ?w, write_cursor := 0\<rparr>"
  let ?n = "n\<lparr>send_script := ss, wire_out := ?hdr\<rparr>"
  have hdr_out: "sys_send ?hdr n = Ret (8, ?n)"
    using assms(4,5,13) hl by (simp add: sys_send_def)
  obtain n' where n': "send_base (text @ [NUL]) ?s ?n = Ret (True, ?s\<lparr>write_cursor := ?w\<rparr>, n')"
    "wire_out n' = ?hdr @ text @ [NUL]"
    using send_base_delivers [of ?s "text @ [NUL]" ?n] assms(6,7) w by auto
  have sent: "\<exists>s'. send_with_header text s n = Ret (True, s', n')"
    using assms(1) big hdr_out n'(1) by (simp add: send_with_header_def finish_send_def Let_def)
  let ?m = "m\<lparr>wire_in := wire_out n' @ more_in\<rparr>"
  let ?m1 = "m\<lparr>wire_in := text @ NUL # more_in, recv_script := rs\<rparr>"
  let ?r = "r\<lparr>read_total_bytes := ?w, read_cursor := 0\<rparr>"
  have hdr_in: "sys_recv HEADER_SIZE ?m = Ret (8, ?hdr, ?m1)"
    using assms(9,10) hl n'(2) by (simp add: sys_recv_def HEADER_SIZE_def)
  have "\<exists>m'. recv_loop data ?r ?m1 = Ret (True, data @ text @ [NUL], ?r\<lparr>read_cursor := ?w\<rparr>, m') \<and>
      wire_in m' = more_in"
    using recv_loop_receives [of ?r ?m1 data] assms(11,12) w by simp
  then obtain m' where m': "recv_loop data ?r ?m1 = Ret (True, data @ text @ [NUL], ?r\<lparr>read_cursor := ?w\<rparr>, m')"
      "wire_in m' = more_in" by blast
  have "\<not> ?w \<le> 0" using big w by (simp add: word_le_nat_alt)
  then have "\<exists>r'. recv_with_header data r ?m = Ret (True, data @ text @ [NUL], r', m') \<and> already r'"
    using assms(8) hdr_in m'(1)
    by (simp add: recv_with_header_def finish_recv_def recv_base_def header_size_le_bytes)
  with sent m'(2) show ?thesis by blast
qed

theorem framing_roundtrip_witness:
  "\<exists>s' n'. send_with_header ''hi'' new_sock (idle_net [Room 100, Room 1, Room 9, Room 9] [] []) =
      Ret (True, s', n') \<and>
    (\<exists>r' m'. recv_with_header [] new_sock
       ((idle_net [] [Arrived 100, Arrived 2, Arrived 2, Arrived 2] [])\<lparr>wire_in := wire_out n' @ ''rest''\<rparr>) =
       Ret (True, [] @ ''hi'' @ [NUL], r', m') \<and> wire_in m' = ''rest'' \<and> already r')"
  by (rule framing_roundtrip [where h = 100 and ss = "[Room 1, Room 9, Room 9]" and g = 100
        and rs = "[Arrived 2, Arrived 2, Arrived 2]"])
     (simp_all add: new_sock_def idle_net_def)

text \<open>A receive that runs out of bytes in the middle (\<open>EAGAIN\<close>) is reported as complete: it
  returns true with the part it has, and the next call starts a new message.\<close>

theorem partial_recv_reported_as_complete:
  assumes "already s" "0 < k" "k < unat sz" "unat sz \<le> 2048" "k \<le> length (wire_in n)"
    and "recv_script n = [Arrived k, Recv_error EAGAIN]"
  shows "\<exists>s' n'. recv data sz s n = Ret (True, data @ take k (wire_in n), s', n') \<and> already s' \<and>
    wire_in n' = drop k (wire_in n)"
proof -
  let ?s = "s\<lparr>read_total_bytes := sz, read_cursor := 0\<rparr>"
  have pos: "0 < sz" using assms(2,3) by (simp add: word_less_nat_alt)
  have m: "min (min k (min 2048 (unat sz))) (length (wire_in n)) = k" using assms(3-5) by simp
  have "unat (to_size_t (int k)) = k" using assms(3,4) by (simp add: to_size_t_count)
  then have "to_size_t (int k) < sz" using assms(3) by (simp add: word_less_nat_alt)
  then have "recv_loop data ?s n = Ret (True, data @ take k (wire_in n),
      ?s\<lparr>read_cursor := to_size_t (int k)\<rparr>, n\<lparr>recv_script := [], wire_in := drop k (wire_in n), errno := EAGAIN\<rparr>)"
    using recv_loop_arrived [of ?s n k "[Recv_error EAGAIN]" data] pos m assms(2,6)
    by (simp add: recv_loop.simps sys_recv_def)
  moreover have "\<not> sz \<le> 0" using pos by simp
  ultimately show ?thesis using assms(1) by (simp add: recv_def finish_recv_def recv_base_def)
qed

theorem partial_recv_reported_as_complete_witness:
  "\<exists>s' n'. recv [] 5 new_sock (idle_net [] [Arrived 2, Recv_error EAGAIN] ''he'') =
      Ret (True, [] @ take 2 (wire_in (idle_net [] [Arrived 2, Recv_error EAGAIN] ''he'')), s', n') \<and> already s' \<and>
    wire_in n' = drop 2 (wire_in (idle_net [] [Arrived 2, Recv_error EAGAIN] ''he''))"
  by (rule partial_recv_reported_as_complete) (simp_all add: new_sock_def idle_net_def)

text \<open>Any error of \<open>::recv\<close> inside \<open>recv_file\<close>, \<open>EAGAIN\<close> included, makes \<open>fwrite\<close> read past the
  end of the buffer; and sending a file that does not exist is reported as success.\<close>

theorem file_transfer_errors:
  "(0 < sz \<longrightarrow> recv_script n = Recv_error e # rs \<longrightarrow> recv_file sz s n = Undef) \<and>
   (\<exists>s'. send_file None s n = Ret (True, True, s', n))"
proof -
  have "\<not> (- 1 :: size_t) \<le> 0" "(2048 :: size_t) < - 1" by simp_all
  then show ?thesis
    by (auto simp: recv_file_def recv_file_loop.simps sys_recv_def to_size_t_neg1 BUF_def
        send_file_def send_file_loop.simps)
qed

theorem file_transfer_errors_witness:
  "recv_file 10 new_sock (idle_net [] [Recv_error EAGAIN] []) = Undef \<and>
   (\<exists>s'. send_file None new_sock (idle_net [] [Recv_error EAGAIN] []) =
      Ret (True, True, s', idle_net [] [Recv_error EAGAIN] []))"
  using file_transfer_errors [of 10 "idle_net [] [Recv_error EAGAIN] []" EAGAIN "[]" new_sock]
  by (simp add: idle_net_def)

end
