(* ===== verification/Conn.thy ===== *)
theory Conn
  imports LockQueue SocketIO
begin

unbundle bit_operations_syntax

text \<open>
  \<open>src/core/include/conn.h\<close>: the epoll helpers, the connection object \<open>conn\<close> (it extends
  \<open>socket_io\<close>, so its record extends \<open>sock\<close>), and the pool of connection objects. The system
  calls a piece of code makes are recorded in order in \<open>calls\<close>; \<open>cq\<close> is the close queue
  a connection shares with the loop that owns it.
\<close>

section \<open>Epoll helpers\<close>

definition EPOLLIN :: u32 where "EPOLLIN = 0x001"
definition EPOLLOUT :: u32 where "EPOLLOUT = 0x004"
definition EPOLLERR :: u32 where "EPOLLERR = 0x008"
definition EPOLLRDHUP :: u32 where "EPOLLRDHUP = 0x2000"
definition EPOLLONESHOT :: u32 where "EPOLLONESHOT = 0x40000000"
definition EPOLLET :: u32 where "EPOLLET = 0x80000000"

lemmas epoll_bits = EPOLLIN_def EPOLLOUT_def EPOLLERR_def EPOLLRDHUP_def EPOLLONESHOT_def EPOLLET_def

datatype sys_call =
  Epoll_ctl_add int int u32
| Epoll_ctl_mod int int u32
| Epoll_ctl_del int int
| Set_nonblocking int
| Close_fd int
| Set_reuse_addr int bool
| Set_reuse_port int bool

definition epoll_add_mask :: "bool \<Rightarrow> bool \<Rightarrow> u32" where
  "epoll_add_mask et one_sh =
     (let ev = EPOLLIN OR EPOLLRDHUP;
          ev = (if et then ev OR EPOLLET else ev)
      in if one_sh then ev OR EPOLLONESHOT else ev)"

definition epoll_add :: "int \<Rightarrow> int \<Rightarrow> bool \<Rightarrow> bool \<Rightarrow> bool \<Rightarrow> sys_call list" where
  "epoll_add epfd fd et one_sh none_block =
     (if none_block then [Set_nonblocking fd] else []) @
     [Epoll_ctl_add epfd fd (epoll_add_mask et one_sh)]"

definition epoll_mod_mask :: "u32 \<Rightarrow> bool \<Rightarrow> bool \<Rightarrow> u32" where
  "epoll_mod_mask ev et one_sh =
     (let e = ev OR EPOLLRDHUP;
          e = (if et then e OR EPOLLET else e)
      in if one_sh then e OR EPOLLONESHOT else e)"

definition epoll_mod :: "int \<Rightarrow> int \<Rightarrow> u32 \<Rightarrow> bool \<Rightarrow> bool \<Rightarrow> sys_call list" where
  "epoll_mod epfd fd ev et one_sh = [Epoll_ctl_mod epfd fd (epoll_mod_mask ev et one_sh)]"

definition epoll_del :: "int \<Rightarrow> int \<Rightarrow> sys_call list" where
  "epoll_del epfd fd = [Epoll_ctl_del epfd fd, Close_fd fd]"

section \<open>Connections\<close>

datatype Status = OK | BAD | IN | OUT | RDHUP | ERROR | CLOSE

record conn = sock +
  ET :: bool
  one_shot :: bool
  epoll_fd :: int
  sock_addr :: string
  has_close_queue :: bool
  status :: Status

definition new_conn :: conn where
  "new_conn = sock.extend new_sock
     \<lparr>ET = False, one_shot = True, epoll_fd = 0, sock_addr = [], has_close_queue = False, status = OK\<rparr>"

record world =
  calls :: "sys_call list"
  cq :: "int lock_queue"

definition next_event :: "u32 \<Rightarrow> 'a conn_scheme \<Rightarrow> world \<Rightarrow> world" where
  "next_event event c w =
     w\<lparr>calls := calls w @ epoll_mod (epoll_fd c) (socket_fd c) event (ET c) (one_shot c)\<rparr>"

definition notify_close :: "'a conn_scheme \<Rightarrow> world \<Rightarrow> 'a conn_scheme \<times> world" where
  "notify_close c w =
     (if status c \<noteq> CLOSE then
        (c\<lparr>status := CLOSE\<rparr>,
         if has_close_queue c then w\<lparr>cq := lq_push (socket_fd c) (cq w)\<rparr> else w)
      else (c, w))"

definition conn_init ::
  "int \<Rightarrow> string \<Rightarrow> int \<Rightarrow> bool \<Rightarrow> bool \<Rightarrow> bool \<Rightarrow> bool \<Rightarrow> 'a conn_scheme \<Rightarrow> world \<Rightarrow> 'a conn_scheme \<times> world" where
  "conn_init fd addr epfd et one_sh queue add c w =
     (c\<lparr>status := OK, has_close_queue := queue, socket_fd := fd, sock_addr := addr,
        epoll_fd := epfd, ET := et, one_shot := one_sh\<rparr>,
      if add then w\<lparr>calls := calls w @ epoll_add epfd fd et one_sh True\<rparr> else w)"

text \<open>The virtual methods of the derived class, each from object and world to a result and both.\<close>

type_synonym 'a meth = "'a conn_scheme \<Rightarrow> world \<Rightarrow> bool \<times> 'a conn_scheme \<times> world"

record 'a methods =
  process_in :: "'a meth"
  process_out :: "'a meth"
  process_rdhup :: "'a meth"
  process_error :: "'a meth"

definition default_rdhup :: "'a meth" where
  "default_rdhup c w = (True, notify_close c w)"

definition default_error :: "'a meth" where
  "default_error c w = (True, notify_close c w)"

definition process_base :: "'a meth \<Rightarrow> 'a meth" where
  "process_base f c w =
     (let (ret, c1, w1) = f c w in (ret, if ret then (c1, w1) else notify_close c1 w1))"

definition process :: "'a methods \<Rightarrow> 'a meth" where
  "process H c w =
     (case status c of
        CLOSE \<Rightarrow> (False, c, w)
      | IN \<Rightarrow> process_base (process_in H) c w
      | OUT \<Rightarrow> process_base (process_out H) c w
      | RDHUP \<Rightarrow> process_rdhup H c w
      | ERROR \<Rightarrow> process_error H c w
      | BAD \<Rightarrow> (False, c, w)
      | OK \<Rightarrow> (True, c\<lparr>status := OK\<rparr>, w))"

definition conn_close :: "'a conn_scheme \<Rightarrow> world \<Rightarrow> 'a conn_scheme \<times> world" where
  "conn_close c w =
     (if socket_fd c \<noteq> - 1 then
        (c\<lparr>epoll_fd := - 1, socket_fd := - 1, status := OK\<rparr>,
         w\<lparr>calls := calls w @ epoll_del (epoll_fd c) (socket_fd c)\<rparr>)
      else (c, w))"

section \<open>Where connection objects come from\<close>

text \<open>
  The interface the event loops rely on: an object handed out is not in use, and it is in use
  until it is given back. An object is named by its address.
\<close>

locale object_source =
  fixes get :: "'s \<Rightarrow> nat \<times> 's"
    and put :: "nat \<Rightarrow> 's \<Rightarrow> 's"
    and in_use :: "'s \<Rightarrow> nat set \<Rightarrow> bool"
  assumes get_fresh: "in_use s U \<Longrightarrow> get s = (x, s') \<Longrightarrow> x \<notin> U \<and> in_use s' (insert x U)"
    and put_back: "in_use s U \<Longrightarrow> x \<in> U \<Longrightarrow> in_use (put x s) (U - {x})"
begin

lemma two_gets_differ:
  assumes "in_use s U" "get s = (x, s1)" "get s1 = (y, s2)"
  shows "x \<noteq> y \<and> in_use s2 (insert y (insert x U))"
proof -
  from get_fresh [OF assms(1,2)] have "in_use s1 (insert x U)" by simp
  from get_fresh [OF this assms(3)] show ?thesis by simp
qed

lemma get_put: "in_use s U \<Longrightarrow> get s = (x, s') \<Longrightarrow> in_use (put x s') U"
  using get_fresh [of s U x s'] put_back [of s' "insert x U" x] by auto

end

text \<open>
  \<open>connpool\<close>: the queue of free objects, their number \<open>size\<close>, and where \<open>new\<close> finds the
  next address. Without a pool the loops use \<open>new\<close> and \<open>delete\<close> directly.
\<close>

record connpool =
  free :: "nat option lock_queue"
  pool_size :: nat
  next_addr :: nat

definition connpool_new :: "nat \<Rightarrow> nat \<Rightarrow> connpool" where
  "connpool_new sz addr =
     \<lparr>free = map Some [addr..<addr + sz], pool_size = sz, next_addr = addr + sz\<rparr>"

definition pool_acquire :: "connpool \<Rightarrow> nat \<times> connpool" where
  "pool_acquire p =
     (case lq_pop_ptr (free p) of
        (True, Some t, q) \<Rightarrow> (t, p\<lparr>free := q\<rparr>)
      | (_, _, q) \<Rightarrow>
          (next_addr p, p\<lparr>free := q, pool_size := pool_size p + 1, next_addr := next_addr p + 1\<rparr>))"

definition pool_release :: "nat \<Rightarrow> connpool \<Rightarrow> connpool" where
  "pool_release t p = p\<lparr>free := lq_push (Some t) (free p)\<rparr>"

text \<open>The destructor: \<open>size\<close> pops, each of which deletes what it got. The addresses deleted, in order.\<close>

primrec drop_objects :: "nat \<Rightarrow> nat option lock_queue \<Rightarrow> nat list" where
  "drop_objects 0 q = []"
| "drop_objects (Suc n) q =
     (case lq_pop_ptr q of
        (True, Some t, q') \<Rightarrow> t # drop_objects n q'
      | (_, _, q') \<Rightarrow> drop_objects n q')"

definition connpool_delete :: "connpool \<Rightarrow> nat list" where
  "connpool_delete p = drop_objects (pool_size p) (free p)"

text \<open>The objects left after \<open>delete conn_pool\<close>, whose pointer may be null.\<close>

definition delete_pool_objects :: "connpool option \<Rightarrow> (nat \<rightharpoonup> 'c) \<Rightarrow> (nat \<rightharpoonup> 'c)" where
  "delete_pool_objects pool os = (case pool of None \<Rightarrow> os | Some p \<Rightarrow> os |` (- set (connpool_delete p)))"

text \<open>Every object made is either free, once, or in use; \<open>size\<close> counts them.\<close>

definition pool_uses :: "connpool \<Rightarrow> nat set \<Rightarrow> bool" where
  "pool_uses p U \<longleftrightarrow>
     None \<notin> set (free p) \<and> distinct (free p) \<and> finite U \<and> U \<inter> the ` set (free p) = {} \<and>
     (\<forall>x\<in>U \<union> the ` set (free p). x < next_addr p) \<and> pool_size p = length (free p) + card U"

definition heap_get :: "nat \<Rightarrow> nat \<times> nat" where
  "heap_get addr = (addr, addr + 1)"

definition heap_put :: "nat \<Rightarrow> nat \<Rightarrow> nat" where
  "heap_put t addr = addr"

definition heap_uses :: "nat \<Rightarrow> nat set \<Rightarrow> bool" where
  "heap_uses addr U \<longleftrightarrow> (\<forall>x\<in>U. x < addr)"

lemma pool_acquire_uses:
  assumes inv: "pool_uses p U" and a: "pool_acquire p = (x, p')"
  shows "x \<notin> U \<and> pool_uses p' (insert x U)"
proof (cases "free p")
  case Nil
  with a have "x = next_addr p" "p' = p\<lparr>pool_size := pool_size p + 1, next_addr := next_addr p + 1\<rparr>"
    by (auto simp: pool_acquire_def queue_simps)
  with inv Nil show ?thesis by (auto simp: pool_uses_def)
next
  case (Cons y q)
  with inv obtain t where t: "y = Some t" by (cases y) (auto simp: pool_uses_def)
  with a Cons have x: "x = t" "p' = p\<lparr>free := q\<rparr>" by (auto simp: pool_acquire_def queue_simps)
  have "t \<notin> the ` set q"
  proof
    assume "t \<in> the ` set q"
    then obtain z where "z \<in> set q" "t = the z" by blast
    with inv Cons t show False by (cases z) (auto simp: pool_uses_def)
  qed
  with inv Cons t x show ?thesis by (auto simp: pool_uses_def)
qed

lemma pool_release_uses:
  assumes inv: "pool_uses p U" and x: "x \<in> U"
  shows "pool_uses (pool_release x p) (U - {x})"
proof -
  from inv x have "Some x \<notin> set (free p)" by (force simp: pool_uses_def)
  moreover have "card (U - {x}) = card U - 1" "0 < card U"
    using inv x by (auto simp: pool_uses_def card_gt_0_iff)
  ultimately show ?thesis
    using inv x by (auto simp: pool_uses_def pool_release_def queue_simps)
qed

interpretation ps: object_source pool_acquire pool_release pool_uses
  by unfold_locales (use pool_acquire_uses pool_release_uses in blast)+

interpretation hs: object_source heap_get heap_put heap_uses
  by unfold_locales (auto simp: heap_get_def heap_put_def heap_uses_def less_Suc_eq)

lemma connpool_new_uses: "pool_uses (connpool_new sz addr) {}"
  by (auto simp: pool_uses_def connpool_new_def distinct_map inj_on_def)

lemma drop_objects_all: "None \<notin> set q \<Longrightarrow> length q \<le> n \<Longrightarrow> drop_objects n q = map the q"
proof (induction n arbitrary: q)
  case (Suc n)
  then show ?case
  proof (cases q)
    case (Cons y r)
    with Suc.prems obtain t where "y = Some t" by (cases y) auto
    with Suc Cons show ?thesis by (simp add: queue_simps)
  qed (use Suc in \<open>simp add: queue_simps\<close>)
qed simp

section \<open>Facts on connections\<close>

lemma notify_close_facts:
  "status (fst (notify_close c w)) = CLOSE"
  "socket_fd (fst (notify_close c w)) = socket_fd c"
  "calls (snd (notify_close c w)) = calls w"
  by (auto simp: notify_close_def)

lemma notify_close_twice:
  "case notify_close c w of (c1, w1) \<Rightarrow> notify_close c1 w1 = (c1, w1)"
  by (auto simp: notify_close_def)

lemma conn_close_facts:
  "socket_fd (fst (conn_close c w)) = - 1"
  "cq (snd (conn_close c w)) = cq w"
  "calls (snd (conn_close c w)) =
     calls w @ (if socket_fd c = - 1 then [] else epoll_del (epoll_fd c) (socket_fd c))"
  by (auto simp: conn_close_def)

lemma conn_init_facts:
  "socket_fd (fst (conn_init fd addr epfd et os q a c w)) = fd"
  "status (fst (conn_init fd addr epfd et os q a c w)) = OK"
  "cq (snd (conn_init fd addr epfd et os q a c w)) = cq w"
  by (auto simp: conn_init_def)

section \<open>Properties\<close>


definition failing_methods :: "unit methods" where
  "failing_methods = \<lparr>process_in = (\<lambda>c w. (False, notify_close c w)),
     process_out = (\<lambda>c w. (False, c, w)), process_rdhup = default_rdhup, process_error = default_error\<rparr>"


text \<open>A pooled object given out again still has the transfer state of its previous connection:
  if that one stopped in the middle of a \<open>send\<close>, the first \<open>send\<close> of the new connection ignores
  the size it is given and sends the bytes between the old cursor and the old total.\<close>

theorem reused_object_keeps_transfer:
  assumes "\<not> already c" "write_cursor c \<le> write_total_bytes c"
    and "unat (write_total_bytes c) \<le> length data"
    and "list_all moves (send_script n)"
    and "unat (write_total_bytes c) - unat (write_cursor c) \<le> length (send_script n)"
  shows "\<exists>c' n'. send data sz (fst (conn_init fd addr epfd et os q a c w)) n = Ret (True, c', n') \<and>
    wire_out n' = wire_out n @ take (unat (write_total_bytes c) - unat (write_cursor c))
                                 (drop (unat (write_cursor c)) data)"
proof -
  let ?c = "fst (conn_init fd addr epfd et os q a c w)"
  have f: "write_cursor ?c = write_cursor c" "write_total_bytes ?c = write_total_bytes c"
      "already ?c = already c"
    by (simp_all add: conn_init_def)
  from send_base_delivers [of ?c data n] assms f show ?thesis
    by (auto simp: send_again finish_send_def)
qed

theorem reused_object_keeps_transfer_witness:
  "\<exists>c' n'. send ''HTTP/1.1 200 OK'' 15 (fst (conn_init 8 [] 4 False True True True
        (new_conn\<lparr>already := False, write_cursor := 5, write_total_bytes := 9\<rparr>) \<lparr>calls = [], cq = []\<rparr>))
      (idle_net (replicate 4 (Room 99)) [] []) = Ret (True, c', n') \<and>
    wire_out n' = wire_out (idle_net (replicate 4 (Room 99)) [] []) @
      take (unat (9 :: size_t) - unat (5 :: size_t)) (drop (unat (5 :: size_t)) ''HTTP/1.1 200 OK'')"
  using reused_object_keeps_transfer
    [of "new_conn\<lparr>already := False, write_cursor := 5, write_total_bytes := 9\<rparr>" "''HTTP/1.1 200 OK''"
        "idle_net (replicate 4 (Room 99)) [] []" 15 8 "[]" 4 False True True True "\<lparr>calls = [], cq = []\<rparr>"]
  by (simp add: idle_net_def list_all_iff)

text \<open>The pool never hands out an object twice: two objects taken one after the other differ
  from each other and from every object in use, whether they come from the queue or are new, and
  \<open>size\<close> stays the number of objects made.\<close>

theorem pool_objects_distinct:
  assumes "pool_uses p U" "pool_acquire p = (x, p1)" "pool_acquire p1 = (y, p2)"
  shows "x \<notin> U \<and> y \<notin> U \<and> x \<noteq> y \<and> pool_size p2 = length (free p2) + card (insert y (insert x U))"
proof -
  from ps.get_fresh [OF assms(1,2)] have x: "x \<notin> U" "pool_uses p1 (insert x U)" by auto
  from ps.get_fresh [OF x(2) assms(3)] have "y \<notin> insert x U" by blast
  moreover from ps.two_gets_differ [OF assms]
  have "pool_size p2 = length (free p2) + card (insert y (insert x U))"
    by (simp only: pool_uses_def)
  ultimately show ?thesis using x(1) by blast
qed

theorem pool_objects_distinct_witness:
  "(0::nat) \<notin> {} \<and> (1::nat) \<notin> {} \<and> (0::nat) \<noteq> 1 \<and>
    pool_size (connpool_new 1 0\<lparr>free := [], pool_size := 2, next_addr := 2\<rparr>) =
      length (free (connpool_new 1 0\<lparr>free := [], pool_size := 2, next_addr := 2\<rparr>)) + card {1, 0::nat}"
  by (rule pool_objects_distinct [OF connpool_new_uses [of 1 0],
        where ?p1.0 = "(connpool_new 1 0)\<lparr>free := []\<rparr>"])
     (simp_all add: pool_acquire_def connpool_new_def queue_simps)

text \<open>The destructor of the pool deletes each free object once and no object in use, and with those in use
  these are all objects it made: what is in use when it runs is never deleted.\<close>

theorem pool_deletes_free_only:
  assumes "pool_uses p U"
  shows "distinct (connpool_delete p) \<and> set (connpool_delete p) \<inter> U = {} \<and>
    pool_size p = length (connpool_delete p) + card U \<and>
    (\<forall>x. x \<in> set (connpool_delete p) \<longleftrightarrow> Some x \<in> set (free p))"
proof -
  have no: "None \<notin> set (free p)" "length (free p) \<le> pool_size p" using assms by (auto simp: pool_uses_def)
  then have all: "connpool_delete p = map the (free p)" by (simp add: connpool_delete_def drop_objects_all)
  have inj: "inj_on the (set (free p))"
    using no(1) by (metis inj_onI option.expand)
  have mem: "x \<in> the ` set (free p) \<longleftrightarrow> Some x \<in> set (free p)" for x
    using no(1) by (metis image_iff option.collapse option.sel)
  show ?thesis using assms inj mem by (auto simp: all pool_uses_def distinct_map)
qed

theorem pool_deletes_free_only_witness:
  "connpool_delete (connpool_new 3 10\<lparr>free := [Some 11, Some 12]\<rparr>) = [11, 12] \<and>
    distinct (connpool_delete (connpool_new 3 10\<lparr>free := [Some 11, Some 12]\<rparr>)) \<and>
    set (connpool_delete (connpool_new 3 10\<lparr>free := [Some 11, Some 12]\<rparr>)) \<inter> {10} = {}"
proof -
  let ?p = "connpool_new 3 10\<lparr>free := [Some 11, Some 12]\<rparr>"
  have "pool_uses ?p {10}" by (simp add: pool_uses_def connpool_new_def)
  from pool_deletes_free_only [OF this] show ?thesis
    by (simp add: connpool_delete_def connpool_new_def queue_simps numeral_3_eq_3)
qed

end
