(* ===== verification/CppNumber.thy ===== *)
theory CppNumber
  imports CppString Complex_Main "HOL-Library.Log_Nat"
begin

text \<open>
  Numbers as the standard library reads and writes them: \<open>std::to_string\<close> and \<open><<\<close> on integers,
  \<open>strtoll\<close>, and for \<open>double\<close> the conversion \<open>strtod\<close> (correctly rounded, in the C locale), the
  cast to \<open>int\<close> and \<open><<\<close> with the six significant digits of a new stream. A finite \<open>double\<close> is the
  rational number it stands for; the sign of zero and the payload of a NaN are not kept.
\<close>

section \<open>Integers as text\<close>

fun show_nat :: "nat \<Rightarrow> string" where
  "show_nat n = (if n < 10 then [char_of (48 + n)] else show_nat (n div 10) @ [char_of (48 + n mod 10)])"

declare show_nat.simps [simp del]

definition show_int :: "int \<Rightarrow> string" where
  "show_int i = (if i < 0 then CHR ''-'' # show_nat (nat (- i)) else show_nat (nat i))"

definition digit_value :: "char \<Rightarrow> nat" where
  "digit_value c = of_char c - 48"

definition is_digit :: "char \<Rightarrow> bool" where
  "is_digit c \<longleftrightarrow> 48 \<le> (of_char c :: nat) \<and> (of_char c :: nat) \<le> 57"

definition is_space :: "char \<Rightarrow> bool" where
  "is_space c \<longleftrightarrow> c = CHR '' '' \<or> (9 \<le> (of_char c :: nat) \<and> (of_char c :: nat) \<le> 13)"

definition digits_value :: "string \<Rightarrow> nat" where
  "digits_value s = foldl (\<lambda>a c. a * 10 + digit_value c) 0 s"

text \<open>\<open>strtoll(s, nullptr, 10)\<close>: leading space, a sign, digits up to the first other character.\<close>

definition strtoll :: "string \<Rightarrow> int" where
  "strtoll s =
     (let t = dropWhile is_space s;
          (neg, ds) = (case t of
              c # r \<Rightarrow> if c = CHR ''-'' then (True, r) else if c = CHR ''+'' then (False, r) else (False, t)
            | [] \<Rightarrow> (False, []));
          v = int (digits_value (takeWhile is_digit ds))
      in if neg then max (- (2 ^ 63)) (- v) else min (2 ^ 63 - 1) v)"

lemma digit_char:
  assumes "n < 10"
  shows "is_digit (char_of (48 + n))" "digit_value (char_of (48 + n)) = n"
proof -
  have "of_char (char_of (48 + n) :: char) = 48 + n"
    using assms by (simp add: of_char_of take_bit_nat_eq_self)
  then show "is_digit (char_of (48 + n))" "digit_value (char_of (48 + n)) = n"
    using assms by (simp_all add: is_digit_def digit_value_def)
qed

lemma show_nat_digits: "list_all is_digit (show_nat n)"
  by (induction n rule: show_nat.induct, subst show_nat.simps) (simp add: digit_char)

lemma show_nat_not_Nil [simp]: "show_nat n \<noteq> []"
  by (subst show_nat.simps) simp

lemma digits_value_snoc [simp]: "digits_value (s @ [c]) = digits_value s * 10 + digit_value c"
  by (simp add: digits_value_def)

lemma digits_value_Nil [simp]: "digits_value [] = 0"
  by (simp add: digits_value_def)

lemma digits_value_show_nat [simp]: "digits_value (show_nat n) = n"
proof (induction n rule: show_nat.induct)
  case (1 n)
  show ?case
  proof (cases "n < 10")
    case True
    then show ?thesis
      using digits_value_snoc [of "[]"] by (subst show_nat.simps) (simp add: digit_char)
  next
    case False
    with 1 have "digits_value (show_nat (n div 10)) = n div 10" by simp
    with False show ?thesis by (subst show_nat.simps) (simp add: digit_char)
  qed
qed

section \<open>The type \<open>double\<close>\<close>

datatype double = Fin rat | Inf bool | NaN

text \<open>Division rounded to the nearest integer, ties to even.\<close>

definition round_div :: "nat \<Rightarrow> nat \<Rightarrow> nat" where
  "round_div n d =
     (let q = n div d; r = n mod d in
      if 2 * r < d then q else if 2 * r > d then q + 1 else if even q then q else q + 1)"

text \<open>The largest \<open>e\<close> with \<open>b ^ e \<le> n / d\<close>, for \<open>n, d > 0\<close>.\<close>

definition quot_log :: "nat \<Rightarrow> nat \<Rightarrow> nat \<Rightarrow> int" where
  "quot_log b n d =
     (let e = int (floorlog b n) - int (floorlog b d) in
      if d * b ^ nat e \<le> n * b ^ nat (- e) then e else e - 1)"

text \<open>\<open>n / d * b ^ (- e)\<close> rounded to an integer.\<close>

definition round_scaled :: "nat \<Rightarrow> nat \<Rightarrow> nat \<Rightarrow> int \<Rightarrow> nat" where
  "round_scaled b n d e = round_div (n * b ^ nat (- e)) (d * b ^ nat e)"

text \<open>The \<open>double\<close> nearest to \<open>n / d\<close>: 53 binary digits, the smallest exponent is -1074, and from
  \<open>2 ^ 1024\<close> on infinity.\<close>

definition to_double :: "bool \<Rightarrow> nat \<Rightarrow> nat \<Rightarrow> double" where
  "to_double neg n d =
     (if n = 0 then Fin 0
      else
        let e = max (- 1074) (quot_log 2 n d - 52);
            m = round_scaled 2 n d e;
            q = of_nat (m * 2 ^ nat e) / of_nat (2 ^ nat (- e)) :: rat
        in if 2 ^ 1024 \<le> q then Inf neg else Fin (if neg then - q else q))"

text \<open>The cast to a signed integer of \<open>w\<close> bits: undefined when the truncated value does not fit.\<close>

definition double_cast :: "nat \<Rightarrow> double \<Rightarrow> int outcome" where
  "double_cast w d =
     (case d of
        Fin q \<Rightarrow>
          (let i = (if q < 0 then \<lceil>q\<rceil> else \<lfloor>q\<rfloor>) in
           if - (2 ^ (w - 1)) \<le> i \<and> i < 2 ^ (w - 1) then Ret i else Undef)
      | _ \<Rightarrow> Undef)"

definition int_to_double :: "32 word \<Rightarrow> double" where
  "int_to_double i = Fin (of_int (sint i))"

section \<open>Reading: \<open>strtod\<close>\<close>

definition is_hex :: "char \<Rightarrow> bool" where
  "is_hex c \<longleftrightarrow> is_digit c \<or> c \<in> set ''abcdefABCDEF''"

definition hex_value :: "char \<Rightarrow> nat" where
  "hex_value c =
     (if is_digit c then digit_value c
      else if 97 \<le> (of_char c :: nat) then of_char c - 87 else of_char c - 55)"

definition hexes_value :: "string \<Rightarrow> nat" where
  "hexes_value s = foldl (\<lambda>a c. a * 16 + hex_value c) 0 s"

definition lower :: "char \<Rightarrow> char" where
  "lower c = (let n = of_char c :: nat in if 65 \<le> n \<and> n \<le> 90 then char_of (n + 32) else c)"

definition starts_with :: "string \<Rightarrow> string \<Rightarrow> bool" where
  "starts_with p s \<longleftrightarrow> map lower (take (length p) s) = p"

text \<open>
  Digits with at most one point, at least one digit: the digits before and after the point, and
  the number of characters.
\<close>

definition mantissa :: "(char \<Rightarrow> bool) \<Rightarrow> string \<Rightarrow> string \<times> string \<times> nat" where
  "mantissa P s =
     (let a = takeWhile P s; r = dropWhile P s in
      case r of
        [] \<Rightarrow> (a, [], length a)
      | c # t \<Rightarrow>
          (let b = takeWhile P t in
           if c = CHR ''.'' \<and> (a \<noteq> [] \<or> b \<noteq> []) then (a, b, length a + 1 + length b)
           else (a, [], length a)))"

text \<open>The exponent after \<open>e\<close> or \<open>p\<close>, when digits follow; otherwise nothing is taken.\<close>

definition exponent :: "char \<Rightarrow> string \<Rightarrow> int \<times> nat" where
  "exponent m s =
     (case s of
        [] \<Rightarrow> (0, 0)
      | c # t \<Rightarrow>
          if lower c \<noteq> m then (0, 0)
          else
            let (neg, k, u) = (case t of
                    x # y \<Rightarrow> if x = CHR ''-'' then (True, 2, y) else if x = CHR ''+'' then (False, 2, y)
                             else (False, 1, t)
                  | [] \<Rightarrow> (False, 1, []));
                ds = takeWhile is_digit u; v = int (digits_value ds)
            in if ds = [] then (0, 0) else (if neg then - v else v, k + length ds))"

definition nan_char :: "char \<Rightarrow> bool" where
  "nan_char x \<longleftrightarrow> is_digit x \<or> lower x \<in> set ''abcdefghijklmnopqrstuvwxyz_''"

text \<open>A number without sign: its value and the number of characters, 0 when there is none.\<close>

definition scaled_double :: "bool \<Rightarrow> nat \<Rightarrow> nat \<Rightarrow> int \<Rightarrow> double" where
  "scaled_double neg b n e =
     (if 0 \<le> e then to_double neg (n * b ^ nat e) 1 else to_double neg n (b ^ nat (- e)))"

definition read_unsigned :: "bool \<Rightarrow> string \<Rightarrow> double \<times> nat" where
  "read_unsigned neg s =
     (if starts_with ''infinity'' s then (Inf neg, 8)
      else if starts_with ''inf'' s then (Inf neg, 3)
      else if starts_with ''nan'' s then
        (case drop 3 s of
           c # t \<Rightarrow>
             (let u = dropWhile nan_char t in
              if c = CHR ''('' \<and> u \<noteq> [] \<and> hd u = CHR '')'' then (NaN, 5 + length t - length u) else (NaN, 3))
         | [] \<Rightarrow> (NaN, 3))
      else
        let (a, b, k) = mantissa is_hex (drop 2 s) in
        if starts_with ''0x'' s \<and> 0 < k then
          (let (e, j) = exponent (CHR ''p'') (drop (2 + k) s) in
           (scaled_double neg 2 (hexes_value (a @ b)) (e - 4 * int (length b)), 2 + k + j))
        else
          let (a, b, k) = mantissa is_digit s in
          if k = 0 then (Fin 0, 0)
          else
            (let (e, j) = exponent (CHR ''e'') (drop k s) in
             (scaled_double neg 10 (digits_value (a @ b)) (e - int (length b)), k + j)))"

definition strtod :: "string \<Rightarrow> double \<times> nat" where
  "strtod s =
     (let t = dropWhile is_space s;
          (neg, k, u) = (case t of
              c # r \<Rightarrow> if c = CHR ''-'' then (True, 1, r) else if c = CHR ''+'' then (False, 1, r) else (False, 0, t)
            | [] \<Rightarrow> (False, 0, []));
          (d, n) = read_unsigned neg u
      in if n = 0 then (Fin 0, 0) else (d, length s - length t + k + n))"

section \<open>Writing: \<open>ostream << double\<close>\<close>

text \<open>
  Six significant digits (\<open>%g\<close>): the exponent \<open>x\<close> of the first digit decides between the two
  notations, and trailing zeros of the fraction are left out.
\<close>

definition strip_zeros :: "string \<Rightarrow> string" where
  "strip_zeros s = rev (dropWhile (\<lambda>c. c = CHR ''0'') (rev s))"

definition point_before :: "string \<Rightarrow> string" where
  "point_before s = (let t = strip_zeros s in if t = [] then [] else CHR ''.'' # t)"

definition six_digits :: "nat \<Rightarrow> nat \<Rightarrow> string \<times> int" where
  "six_digits n d =
     (let x = quot_log 10 n d; m = round_scaled 10 n d (x - 5) in
      if m = 10 ^ 6 then (''100000'', x + 1) else (show_nat m, x))"

definition show_positive :: "nat \<Rightarrow> nat \<Rightarrow> string" where
  "show_positive n d =
     (let (ds, x) = six_digits n d in
      if x < - 4 \<or> 6 \<le> x then
        take 1 ds @ point_before (drop 1 ds) @ CHR ''e'' # (if x < 0 then CHR ''-'' else CHR ''+'') #
        (if \<bar>x\<bar> < 10 then ''0'' else []) @ show_nat (nat \<bar>x\<bar>)
      else if x < 0 then ''0'' @ point_before (replicate (nat (- x - 1)) (CHR ''0'') @ ds)
      else take (nat x + 1) ds @ point_before (drop (nat x + 1) ds))"

definition show_double :: "double \<Rightarrow> string" where
  "show_double d =
     (case d of
        Fin q \<Rightarrow>
          (let (a, b) = quotient_of q in
           if a = 0 then ''0''
           else (if a < 0 then ''-'' else []) @ show_positive (nat \<bar>a\<bar>) (nat b))
      | Inf neg \<Rightarrow> (if neg then ''-inf'' else ''inf'')
      | NaN \<Rightarrow> ''nan'')"

section \<open>Integers are exact\<close>

lemma round_div_1 [simp]: "round_div n 1 = n" "round_div n (Suc 0) = n"
  by (simp_all add: round_div_def)

lemma quot_log_1:
  assumes "0 < n" "1 < b"
  shows "quot_log b n 1 = int (floorlog b n) - 1"
proof -
  have "b ^ (floorlog b n - 1) \<le> n" "0 < floorlog b n"
    using floorlog_bounds [of n b] assms by (auto simp: floorlog_def)
  moreover have "floorlog b 1 = 1" using assms by (simp add: floorlog_def)
  moreover have "nat (int (floorlog b n) - 1) = floorlog b n - 1" by simp
  ultimately show ?thesis by (simp add: quot_log_def Let_def)
qed

lemma to_double_exact:
  assumes "0 < n" "n < 2 ^ 53"
  shows "to_double neg n 1 = Fin (if neg then - of_nat n else of_nat n)"
proof -
  let ?l = "floorlog 2 n"
  have "floorlog 2 n \<le> 53"
  proof (rule ccontr)
    assume "\<not> ?thesis"
    then have "(2::nat) ^ 53 \<le> 2 ^ (floorlog 2 n - 1)" by (intro power_increasing) auto
    also have "\<dots> \<le> n" using floorlog_bounds [of n 2] assms by simp
    finally show False using assms(2) by simp
  qed
  then have e: "max (- 1074) (quot_log 2 n 1 - 52) = - int (53 - ?l)"
    using quot_log_1 [OF assms(1), of 2] by simp
  have "round_scaled 2 n 1 (- int (53 - ?l)) = n * 2 ^ (53 - ?l)"
    by (simp add: round_scaled_def)
  moreover have "(of_nat n :: rat) < 2 ^ 1024"
  proof -
    have "(of_nat n :: rat) < of_nat (2 ^ 53)" using assms(2) by (simp only: of_nat_less_iff)
    also have "\<dots> < 2 ^ 1024" by simp
    finally show ?thesis .
  qed
  ultimately show ?thesis
    unfolding to_double_def Let_def e using assms(1) by simp
qed

section \<open>The end of a number\<close>

text \<open>What may follow a number without becoming part of it.\<close>

definition number_end :: "string \<Rightarrow> bool" where
  "number_end r \<longleftrightarrow> (r = [] \<or> hd r \<in> {CHR '','', CHR '']'', CHR ''}'', CHR '' '', CR, LF, HT})"

definition number_chars :: string where
  "number_chars = ''infinityax0ep''"

lemma number_end_hd:
  assumes "number_end (c # r)"
  shows "\<not> is_digit c" "\<not> is_hex c" "c \<noteq> CHR ''.''" "c \<noteq> CHR ''+''" "c \<noteq> CHR ''-''" "c \<noteq> CHR ''(''"
    "lower c \<notin> set number_chars"
  using assms by (auto simp: number_end_def is_digit_def is_hex_def lower_def number_chars_def)

lemma number_end_cases:
  assumes "number_end r"
  obtains "r = []" | c t where "r = c # t" "\<not> is_digit c" "\<not> is_hex c" "c \<noteq> CHR ''.''"
    "c \<noteq> CHR ''+''" "c \<noteq> CHR ''-''" "c \<noteq> CHR ''(''" "lower c \<notin> set number_chars"
  using number_end_hd assms by (cases r) auto

lemma takeWhile_end: "r = [] \<or> \<not> P (hd r) \<Longrightarrow> takeWhile P (s @ r) = takeWhile P s"
  by (induction s) (cases r; simp)+

lemma dropWhile_end: "r = [] \<or> \<not> P (hd r) \<Longrightarrow> dropWhile P (s @ r) = dropWhile P s @ r"
  by (induction s) (cases r; simp)+

lemma number_end_digits:
  assumes "number_end r" "P = is_digit \<or> P = is_hex"
  shows "takeWhile P (s @ r) = takeWhile P s" "dropWhile P (s @ r) = dropWhile P s @ r"
proof -
  from assms(1) have "r = [] \<or> \<not> P (hd r)"
    by (rule number_end_cases) (use assms(2) in auto)
  then show "takeWhile P (s @ r) = takeWhile P s" "dropWhile P (s @ r) = dropWhile P s @ r"
    by (simp_all add: takeWhile_end dropWhile_end)
qed

lemma mantissa_end:
  assumes "number_end r" "P = is_digit \<or> P = is_hex"
  shows "mantissa P (s @ r) = mantissa P s"
proof (cases "dropWhile P s")
  case Nil
  from assms(1) show ?thesis
  proof (rule number_end_cases)
    fix c t assume "r = c # t" "c \<noteq> CHR ''.''"
    then show ?thesis unfolding mantissa_def number_end_digits [OF assms] Nil by simp
  qed simp
next
  case (Cons c t)
  show ?thesis unfolding mantissa_def number_end_digits [OF assms] Cons
    by (simp add: number_end_digits [OF assms])
qed

lemma exponent_end:
  assumes "number_end r" "m \<in> set ''ep''"
  shows "exponent m (s @ r) = exponent m s"
proof -
  note ds = number_end_digits(1) [OF assms(1), of is_digit, simplified]
  from assms(1) show ?thesis
  proof (rule number_end_cases)
    fix c t
    assume r: "r = c # t" "c \<noteq> CHR ''+''" "c \<noteq> CHR ''-''" "\<not> is_digit c" "lower c \<notin> set number_chars"
    have m: "lower c \<noteq> m" using r(5) assms(2) by (auto simp: number_chars_def)
    show ?thesis
    proof (cases s)
      case Nil
      then show ?thesis using r m by (simp add: exponent_def)
    next
      case (Cons x u)
      show ?thesis
      proof (cases u)
        case Nil
        then show ?thesis using r Cons by (simp add: exponent_def)
      next
        fix y v assume u: "u = y # v"
        show ?thesis unfolding Cons u
          by (simp add: exponent_def ds [of v] ds [of "y # v", unfolded append_Cons])
      qed
    qed
  qed simp
qed

lemma starts_with_end:
  assumes "number_end r" "set p \<subseteq> set number_chars"
  shows "starts_with p (s @ r) = starts_with p s"
proof (cases "length p \<le> length s \<or> r = []")
  case False
  then obtain c t where r: "r = c # t" by (cases r) auto
  obtain j where j: "length p - length s = Suc j" using False by (cases "length p - length s") auto
  have "lower c \<in> set (map lower (take (length p) (s @ r)))"
    by (simp add: r j)
  moreover have "lower c \<notin> set p" using number_end_hd [of c t] assms r by auto
  ultimately have "\<not> starts_with p (s @ r)" unfolding starts_with_def by metis
  moreover have "\<not> starts_with p s"
  proof
    assume "starts_with p s"
    then have "length p \<le> length s"
      by (metis starts_with_def length_map length_take min.cobounded1)
    with False show False by simp
  qed
  ultimately show ?thesis by simp
qed (auto simp: starts_with_def)

lemma mantissa_length: "mantissa P s = (a, b, k) \<Longrightarrow> k \<le> length s"
proof -
  assume m: "mantissa P s = (a, b, k)"
  have len: "length s = length (takeWhile P s) + length (dropWhile P s)"
    by (metis takeWhile_dropWhile_id length_append)
  show ?thesis
  proof (cases "dropWhile P s")
    case Nil
    with m len show ?thesis by (auto simp: mantissa_def Let_def)
  next
    case (Cons c t)
    with m len show ?thesis
      using length_takeWhile_le [of P t] by (auto simp: mantissa_def Let_def split: if_splits)
  qed
qed

lemma starts_with_length: "starts_with p s \<Longrightarrow> length p \<le> length s"
  by (metis starts_with_def length_map length_take min.cobounded1)

lemma exponent_length: "snd (exponent m s) \<le> length s"
proof (cases s)
  case (Cons c t)
  then show ?thesis
    using length_takeWhile_le [of is_digit t] length_takeWhile_le [of is_digit "tl t"]
    by (cases t) (auto simp: exponent_def Let_def)
qed (simp add: exponent_def)

lemma read_unsigned_length: "snd (read_unsigned neg s) \<le> length s"
proof -
  let ?r = "read_unsigned neg s"
  obtain a b k where h: "mantissa is_hex (drop 2 s) = (a, b, k)" by (cases "mantissa is_hex (drop 2 s)")
  obtain a' b' i where d: "mantissa is_digit s = (a', b', i)" by (cases "mantissa is_digit s")
  note len = mantissa_length [OF h] mantissa_length [OF d] exponent_length [of "CHR ''p''" "drop (2 + k) s"]
    exponent_length [of "CHR ''e''" "drop i s"]
  show ?thesis
  proof (cases "starts_with ''infinity'' s \<or> starts_with ''inf'' s \<or> starts_with ''nan'' s")
    case True
    have "snd ?r \<le> length s" if "starts_with ''nan'' s" "\<not> starts_with ''infinity'' s" "\<not> starts_with ''inf'' s"
    proof -
      have s3: "3 \<le> length s" using starts_with_length [OF that(1)] by simp
      show ?thesis
      proof (cases "drop 3 s")
        case Nil
        with that s3 show ?thesis by (simp add: read_unsigned_def)
      next
        case (Cons c t)
        then have "length s - 3 = Suc (length t)" by (metis length_Cons length_drop)
        then have l: "length s = length t + 4" using s3 by linarith
        have "5 + length t - length (dropWhile nan_char t) \<le> length s" if "dropWhile nan_char t \<noteq> []"
          using l that by (cases "dropWhile nan_char t") auto
        then have "snd (if c = CHR ''('' \<and> dropWhile nan_char t \<noteq> [] \<and> hd (dropWhile nan_char t) = CHR '')''
            then (NaN, 5 + length t - length (dropWhile nan_char t)) else (NaN, 3)) \<le> length s"
          using l by auto
        with that Cons show ?thesis by (simp add: read_unsigned_def Let_def)
      qed
    qed
    with True show ?thesis
      by (auto simp: read_unsigned_def dest: starts_with_length)
  next
    case False
    then show ?thesis
      using len h d by (auto simp: read_unsigned_def dest: starts_with_length split: prod.splits)
  qed
qed

lemma read_unsigned_end:
  assumes "number_end r" "read_unsigned neg s = (Fin q, k)" "0 < k"
  shows "read_unsigned neg (s @ r) = (Fin q, k)"
proof -
  have sw: "starts_with p (s @ r) = starts_with p s" if "p \<in> {''infinity'', ''inf'', ''nan'', ''0x''}" for p
    by (rule starts_with_end [OF assms(1)]) (use that in \<open>auto simp: number_chars_def\<close>)
  have not: "\<not> starts_with ''infinity'' s" "\<not> starts_with ''inf'' s" "\<not> starts_with ''nan'' s"
    using assms(2) by (auto simp: read_unsigned_def Let_def split: if_splits list.splits)
  obtain a b j where h: "mantissa is_hex (drop 2 s) = (a, b, j)" by (cases "mantissa is_hex (drop 2 s)")
  obtain a' b' i where d: "mantissa is_digit s = (a', b', i)" by (cases "mantissa is_digit s")
  have dr: "mantissa is_digit (s @ r) = (a', b', i)" using mantissa_end [OF assms(1)] d by simp
  show ?thesis
  proof (cases "starts_with ''0x'' s \<and> 0 < j")
    case True
    then have s2: "2 \<le> length s" using starts_with_length by fastforce
    have "mantissa is_hex (drop 2 (s @ r)) = (a, b, j)"
      using mantissa_end [OF assms(1)] h s2 by simp
    moreover have "2 + j \<le> length s" using mantissa_length [OF h] s2 by simp
    ultimately show ?thesis
      using True assms(2) not h exponent_end [OF assms(1), of "CHR ''p''" "drop (2 + j) s"]
      by (simp add: read_unsigned_def sw)
  next
    case False
    obtain a2 b2 j2 where h2: "mantissa is_hex (drop 2 (s @ r)) = (a2, b2, j2)"
      by (cases "mantissa is_hex (drop 2 (s @ r))")
    have nohex: "\<not> (starts_with ''0x'' s \<and> 0 < j2)"
    proof
      assume c: "starts_with ''0x'' s \<and> 0 < j2"
      then have "2 \<le> length s" using starts_with_length by fastforce
      then have "mantissa is_hex (drop 2 (s @ r)) = (a, b, j)"
        using mantissa_end [OF assms(1)] h by simp
      with c h2 False show False by simp
    qed
    have "i \<le> length s" by (rule mantissa_length [OF d])
    then show ?thesis
      using False nohex assms(2,3) not h h2 d dr exponent_end [OF assms(1), of "CHR ''e''" "drop i s"]
      by (auto simp: read_unsigned_def sw split: prod.splits if_splits)
  qed
qed

text \<open>A text that is a number to its end, and starts like one.\<close>

definition number_start :: "string \<Rightarrow> bool" where
  "number_start s \<longleftrightarrow> s \<noteq> [] \<and> (is_digit (hd s) \<or> hd s = CHR ''-'')"

lemma number_start_space: "number_start s \<Longrightarrow> dropWhile is_space (s @ r) = s @ r"
  by (cases s) (auto simp: number_start_def is_digit_def is_space_def)

lemma strtod_digits:
  assumes "number_start s" "hd s \<noteq> CHR ''-''"
  shows "strtod (s @ r) = (case read_unsigned False (s @ r) of (d, n) \<Rightarrow> if n = 0 then (Fin 0, 0) else (d, n))"
proof -
  have "hd s \<noteq> CHR ''+''" "s \<noteq> []" using assms by (auto simp: number_start_def is_digit_def)
  with assms number_start_space [OF assms(1), of r] show ?thesis
    by (cases s) (auto simp: strtod_def Let_def split: prod.splits)
qed

lemma strtod_minus:
  "strtod (CHR ''-'' # s) = (case read_unsigned True s of (d, n) \<Rightarrow> if n = 0 then (Fin 0, 0) else (d, Suc n))"
  by (simp add: strtod_def is_space_def Let_def split: prod.splits)

lemma strtod_end:
  assumes "number_end r" "number_start s" "strtod s = (Fin q, length s)"
  shows "strtod (s @ r) = (Fin q, length s)"
proof (cases "hd s = CHR ''-''")
  case True
  with assms(2) obtain t where s: "s = CHR ''-'' # t" by (cases s) (auto simp: number_start_def)
  with assms(3) have "read_unsigned True t = (Fin q, length t)" "0 < length t"
    by (auto simp: strtod_minus split: prod.splits if_splits)
  from read_unsigned_end [OF assms(1) this] this(2) s show ?thesis by (simp add: strtod_minus)
next
  case False
  with assms(2,3) strtod_digits [of s "[]"] have u: "read_unsigned False s = (Fin q, length s)" "0 < length s"
    by (auto simp: number_start_def split: prod.splits if_splits)
  from read_unsigned_end [OF assms(1) u] u(2) strtod_digits [OF assms(2) False, of r] show ?thesis by simp
qed

lemma strtod_length: "snd (strtod s) \<le> length s"
proof -
  have l: "length (dropWhile is_space s) \<le> length s" by (rule length_dropWhile_le)
  show ?thesis
  proof (cases "dropWhile is_space s")
    case Nil
    have "snd (read_unsigned False []) = 0" using read_unsigned_length [of False "[]"] by simp
    then show ?thesis unfolding strtod_def Nil by (auto simp: Let_def split: prod.splits)
  next
    case (Cons c r)
    show ?thesis
      using l read_unsigned_length [of True r] read_unsigned_length [of False r] read_unsigned_length [of False "c # r"]
      unfolding strtod_def Cons by (auto simp: Let_def split: prod.splits)
  qed
qed

section \<open>Printed integers are read back\<close>

lemma all_digits_letter:
  assumes "list_all is_digit s" "s \<noteq> []" "p \<noteq> []" "\<not> is_digit (hd p)" "lower (hd p) = hd p"
  shows "\<not> starts_with p s"
proof
  assume "starts_with p s"
  then have "hd (map lower (take (length p) s)) = hd p" by (simp add: starts_with_def)
  then have "lower (hd s) = hd p" using assms(2,3) by (cases s; cases p) auto
  moreover have "lower (hd s) = hd s" "is_digit (hd s)"
    using assms(1,2) by (cases s; auto simp: is_digit_def lower_def Let_def)+
  ultimately show False using assms(4) by simp
qed

lemma all_digits_hex:
  assumes "list_all is_digit s"
  shows "\<not> starts_with ''0x'' s"
proof
  assume sw: "starts_with ''0x'' s"
  from starts_with_length [OF sw] obtain a b t where s: "s = a # b # t"
    by (cases s; cases "tl s") auto
  with sw have "lower b = CHR ''x''" by (simp add: starts_with_def)
  moreover have "is_digit b" using assms s by simp
  ultimately show False by (auto simp: is_digit_def lower_def Let_def split: if_splits)
qed

lemma read_unsigned_show_nat:
  assumes "n < 2 ^ 53"
  shows "read_unsigned neg (show_nat n) = (Fin (if neg then - of_nat n else of_nat n), length (show_nat n))"
proof -
  let ?s = "show_nat n"
  have d: "list_all is_digit ?s" by (rule show_nat_digits)
  have sw: "\<not> starts_with ''infinity'' ?s" "\<not> starts_with ''inf'' ?s" "\<not> starts_with ''nan'' ?s"
    "\<not> starts_with ''0x'' ?s"
    using all_digits_letter [OF d] all_digits_hex [OF d] by (auto simp: is_digit_def lower_def)
  have all: "dropWhile is_digit ?s = []" "takeWhile is_digit ?s = ?s"
    using d by (auto simp: list_all_iff dropWhile_eq_Nil_conv takeWhile_eq_all_conv)
  have "mantissa is_digit ?s = (?s, [], length ?s)" unfolding mantissa_def Let_def all by simp
  moreover have "to_double neg n 1 = Fin (if neg then - of_nat n else of_nat n)"
    using to_double_exact [of n neg] assms by (cases "n = 0") (simp_all add: to_double_def)
  ultimately show ?thesis
    by (auto simp: read_unsigned_def sw exponent_def scaled_double_def split: prod.splits)
qed

lemma number_start_show_int: "number_start (show_int i)"
proof -
  have "is_digit (hd (show_nat n))" for n
    using show_nat_digits [of n] by (cases "show_nat n") (auto dest: arg_cong [where f = length])
  then show ?thesis by (simp add: number_start_def show_int_def)
qed

lemma strtod_show_int:
  assumes "\<bar>i\<bar> < 2 ^ 53"
  shows "strtod (show_int i) = (Fin (of_int i), length (show_int i))"
proof (cases "i < 0")
  case True
  then have "of_nat (nat (- i)) = (of_int (- i) :: rat)" by simp
  then show ?thesis
    using True read_unsigned_show_nat [of "nat (- i)" True] assms by (simp add: show_int_def strtod_minus)
next
  case False
  then have n: "of_nat (nat i) = (of_int i :: rat)" by simp
  have "hd (show_nat (nat i)) \<noteq> CHR ''-''"
    using show_nat_digits [of "nat i"] by (cases "show_nat (nat i)") (auto simp: is_digit_def)
  then show ?thesis
    using False n read_unsigned_show_nat [of "nat i" False] assms
      strtod_digits [OF number_start_show_int [of i], of "[]"] by (simp add: show_int_def)
qed

end
