(* ===== verification/HttpConn.thy ===== *)
theory HttpConn
  imports Conn HttpFilter HttpTables HttpBody CppNumber "HOL-Library.AList"
begin

text \<open>
  \<open>http_conn\<close> of \<open>src/http/http_conn.h\<close>: the connection that reads a request on \<open>EPOLLIN\<close> and
  answers it on \<open>EPOLLOUT\<close>. The object is a record over \<open>conn\<close>; \<open>net\<close> is its socket and
  \<open>world\<close> the system calls and the close queue. Response headers are kept in the order they were
  first set; the order in which \<open>unordered_map\<close> gives them out is the parameter \<open>header_order\<close>.
  Loops that retry run on fuel, and a loop whose fuel is used up has not returned: \<open>Blocked\<close>.
\<close>

section \<open>The object and its environment\<close>

record http = conn +
  req_header :: request_header
  req_body :: request_body
  res_version :: http_Version
  res_status :: http_Status
  res_headers :: "(string \<times> string) list"
  header_text :: string
  file_name :: string
  body_text :: string
  file_fd :: int
  file_content :: string
  st_size :: nat

text \<open>
  What \<open>open\<close> and \<open>fstat\<close> find: the descriptor, the bytes \<open>sendfile\<close> reads from it, the size,
  \<open>S_IROTH\<close> and \<open>S_ISDIR\<close> of the mode. A router has its allowed methods and its nine virtual
  methods; one that throws gives \<open>None\<close> and the state it left.
\<close>

record opened =
  o_fd :: int
  o_content :: string
  o_size :: nat
  o_roth :: bool
  o_dir :: bool

type_synonym http_result = "(bool \<times> http \<times> net \<times> world) outcome"

type_synonym handler = "http \<Rightarrow> net \<Rightarrow> world \<Rightarrow> (bool option \<times> http \<times> net \<times> world) outcome"

record router =
  r_allow :: "http_Methods list"
  r_method :: "http_Methods \<Rightarrow> handler"

record http_env =
  base_path :: string
  open_file :: "string \<Rightarrow> opened option"
  routers :: "string \<rightharpoonup> router"
  filters :: "(http \<Rightarrow> bool) node"
  header_order :: "(string \<times> string) list \<Rightarrow> (string \<times> string) list"

text \<open>\<open>router::allow\<close>, \<open>register_router\<close>.\<close>

definition router_allow :: "router \<Rightarrow> http_Methods \<Rightarrow> bool" where
  "router_allow r m = (m \<in> set (r_allow r))"

definition register_router :: "string \<Rightarrow> router \<Rightarrow> http_env \<Rightarrow> http_env" where
  "register_router url r env = env\<lparr>routers := (routers env)(url \<mapsto> r)\<rparr>"

section \<open>Building the response\<close>

definition set_header :: "string \<Rightarrow> string \<Rightarrow> http \<Rightarrow> http" where
  "set_header k v c = c\<lparr>res_headers := AList.update k v (res_headers c)\<rparr>"

definition response_text :: "http_env \<Rightarrow> http \<Rightarrow> string outcome" where
  "response_text env c =
     (case map_of http_version_map (res_version c) of
        None \<Rightarrow> Throw
      | Some v \<Rightarrow>
          bind_out (status_text (res_status c)) (\<lambda>reason.
          Ret (v @ '' '' @ show_int (status_code (res_status c)) @ '' '' @ reason @ [CR, LF] @
               concat (map (\<lambda>p. fst p @ '':'' @ snd p @ [CR, LF]) (header_order env (res_headers c))) @
               [CR, LF])))"

definition build_body_text :: "http \<Rightarrow> http outcome" where
  "build_body_text c =
     bind_out (status_text (res_status c)) (\<lambda>reason.
     Ret (c\<lparr>body_text := ''<h1> '' @ show_int (status_code (res_status c)) @ '' '' @ reason @ ''</h1>''\<rparr>))"

definition clear_in :: "http \<Rightarrow> http" where
  "clear_in c = c\<lparr>req_header := clear_request_header (req_header c)\<rparr>"

text \<open>\<open>clear_out\<close> drops the number of the file descriptor without closing it.\<close>

definition clear_out :: "http \<Rightarrow> http" where
  "clear_out c =
     c\<lparr>res_headers := [], header_text := [], file_name := [], body_text := [],
       file_fd := - 1, file_content := [], st_size := 0\<rparr>"

section \<open>Sending\<close>

definition close_file :: "http \<Rightarrow> world \<Rightarrow> http \<times> world" where
  "close_file c w =
     (c\<lparr>file_fd := - 1\<rparr>, w\<lparr>calls := calls w @ [Close_fd (file_fd c)]\<rparr>)"

text \<open>\<open>while(!send(text, text.size())) { ... }\<close> of \<open>send_response_header\<close> and \<open>send_str\<close>.\<close>

fun send_retry :: "nat \<Rightarrow> string \<Rightarrow> http \<Rightarrow> net \<Rightarrow> world \<Rightarrow> http_result" where
  "send_retry 0 txt c n w = Blocked"
| "send_retry (Suc k) txt c n w =
     bind_out (send txt (of_nat (length txt)) c n) (\<lambda>(ok, c1, n1).
     if ok then Ret (True, c1, n1, w)
     else if errno n1 = EAGAIN then send_retry k txt c1 n1 w
     else
       let (c2, w2) = close_file c1 w; (c3, w3) = notify_close c2 w2 in Ret (False, c3, n1, w3))"

definition send_response_header :: "nat \<Rightarrow> http_env \<Rightarrow> http \<Rightarrow> net \<Rightarrow> world \<Rightarrow> http_result" where
  "send_response_header k env c n w =
     bind_out (response_text env c) (\<lambda>txt. send_retry k txt (c\<lparr>header_text := txt\<rparr>) n w)"

text \<open>The loop over \<open>sendfile\<close> is that of \<open>socket_io::send_file\<close>; the text body is sent once and
  the result of that \<open>send\<close> is not looked at.\<close>

definition send_response_body_base :: "http \<Rightarrow> net \<Rightarrow> world \<Rightarrow> http_result" where
  "send_response_body_base c n w =
     (if file_fd c \<noteq> - 1 then
        bind_out (send_file_loop (file_content c) c n) (\<lambda>(ok, closed, c1, n1).
        let (c2, w2) = (if closed then close_file c1 w else (c1, w)) in
        if ok then Ret (True, c2, n1, next_event EPOLLIN c2 w2) else Ret (False, c2, n1, w2))
      else
        bind_out (send (body_text c) (of_nat (length (body_text c))) c n) (\<lambda>(_, c1, n1).
        Ret (True, c1, n1, next_event EPOLLIN c1 w)))"

fun send_response_body :: "nat \<Rightarrow> http \<Rightarrow> net \<Rightarrow> world \<Rightarrow> http_result" where
  "send_response_body 0 c n w = Blocked"
| "send_response_body (Suc k) c n w =
     bind_out (send_response_body_base c n w) (\<lambda>(ok, c1, n1, w1).
     if ok then Ret (True, c1, n1, w1)
     else if errno n1 = EAGAIN then send_response_body k c1 n1 w1
     else let (c2, w2) = notify_close c1 w1 in Ret (False, c2, n1, w2))"

definition http_1_0_close :: "http \<Rightarrow> world \<Rightarrow> http \<times> world" where
  "http_1_0_close c w =
     (if res_version c = HTTP_1_0 then notify_close c w else (c, next_event EPOLLIN c w))"

text \<open>Header, body, end of the exchange; \<open>prep\<close> is what happens between header and body.\<close>

definition respond :: "nat \<Rightarrow> http_env \<Rightarrow> (http \<Rightarrow> http) \<Rightarrow> http \<Rightarrow> net \<Rightarrow> world \<Rightarrow> http_result" where
  "respond k env prep c n w =
     bind_out (send_response_header k env c n w) (\<lambda>(ok, c1, n1, w1).
     if \<not> ok then Ret (False, c1, n1, w1)
     else
       bind_out (send_response_body k (prep c1) n1 w1) (\<lambda>(ok, c2, n2, w2).
       if \<not> ok then Ret (False, c2, n2, w2)
       else let (c3, w3) = http_1_0_close c2 w2 in Ret (True, c3, n2, w3)))"

definition set_content_length :: "http \<Rightarrow> http" where
  "set_content_length c = set_header ''Content-Length'' (show_nat (length (body_text c))) c"

definition send_status :: "nat \<Rightarrow> http_env \<Rightarrow> http_Status \<Rightarrow> http \<Rightarrow> net \<Rightarrow> world \<Rightarrow> http_result" where
  "send_status k env st c n w =
     bind_out (build_body_text (c\<lparr>res_status := st\<rparr>)) (\<lambda>c1.
     respond k env (\<lambda>c. c) (set_content_length c1) n w)"

definition method_not_allow :: "nat \<Rightarrow> http_env \<Rightarrow> http \<Rightarrow> net \<Rightarrow> world \<Rightarrow> http_result" where
  "method_not_allow k env c n w = send_status k env Method_Not_Allowed c n w"

section \<open>Files\<close>

text \<open>
  The type of a file by the text after the last dot of its path. Without a dot the map is also asked
  for \<open>plain\<close>, which has no entry; the type set then is overwritten.
\<close>

definition content_type :: "string \<Rightarrow> string" where
  "content_type name =
     (let t = drop (pos_add (find_last_of (CHR ''.'') name) 1) name in
      case map_of http_content_type_map t of
        Some ty \<Rightarrow> ty
      | None \<Rightarrow> ''application/octet-stream'')"

definition file_error :: "http_Status \<Rightarrow> http \<Rightarrow> (bool \<times> http) outcome" where
  "file_error st c =
     bind_out (build_body_text (c\<lparr>res_status := st\<rparr>)) (\<lambda>c1. Ret (False, set_content_length c1))"

definition load_file :: "http_env \<Rightarrow> http \<Rightarrow> (bool \<times> http) outcome" where
  "load_file env c =
     (let name = base_path env @ rq_url (req_header c); c1 = c\<lparr>file_name := name\<rparr> in
      case open_file env name of
        None \<Rightarrow> file_error Not_Found (c1\<lparr>file_fd := - 1\<rparr>)
      | Some f \<Rightarrow>
          (let c2 = c1\<lparr>file_fd := o_fd f, file_content := o_content f, st_size := o_size f\<rparr> in
           if \<not> o_roth f then file_error Forbidden c2
           else if o_dir f then file_error Bad_Request c2
           else
             Ret (True, (set_header ''Content-Type'' (content_type name)
                          (set_header ''Content-Length'' (show_nat (st_size c2)) c2))
                          \<lparr>res_status := OK_status\<rparr>)))"

definition start_file :: "http \<Rightarrow> http" where
  "start_file c = c\<lparr>write_total_bytes := of_nat (st_size c), write_cursor := 0\<rparr>"

text \<open>What \<open>process_get\<close> does without a router, and \<open>render\<close> after setting the URL: the result of
  \<open>load_file\<close> is not looked at.\<close>

definition serve_file :: "nat \<Rightarrow> http_env \<Rightarrow> http \<Rightarrow> net \<Rightarrow> world \<Rightarrow> http_result" where
  "serve_file k env c n w =
     bind_out (load_file env c) (\<lambda>(_, c1). respond k env start_file c1 n w)"

definition render :: "nat \<Rightarrow> http_env \<Rightarrow> string \<Rightarrow> http \<Rightarrow> net \<Rightarrow> world \<Rightarrow> http_result" where
  "render k env path c n w =
     serve_file k env (c\<lparr>req_header := (req_header c)\<lparr>rq_url := path\<rparr>\<rparr>) n w"

definition redirect :: "nat \<Rightarrow> http_env \<Rightarrow> string \<Rightarrow> http \<Rightarrow> net \<Rightarrow> world \<Rightarrow> http_result" where
  "redirect k env url c n w =
     bind_out (send_response_header k env (set_header ''Location'' url (c\<lparr>res_status := See_Other\<rparr>)) n w)
       (\<lambda>(ok, c1, n1, w1).
        if \<not> ok then Ret (False, c1, n1, w1)
        else let (c2, w2) = http_1_0_close c1 w1 in Ret (True, c2, n1, w2))"

definition send_str :: "nat \<Rightarrow> http_env \<Rightarrow> string \<Rightarrow> string \<Rightarrow> http \<Rightarrow> net \<Rightarrow> world \<Rightarrow> http_result" where
  "send_str k env str type c n w =
     (let c1 = (set_header ''Content-Type'' type
                 (set_header ''Content-Length'' (show_nat (length str)) c))\<lparr>res_status := OK_status\<rparr> in
      bind_out (send_response_header k env c1 n w) (\<lambda>(ok, c2, n2, w2).
      if \<not> ok then Ret (False, c2, n2, w2)
      else
        bind_out (send_retry k str c2 n2 w2) (\<lambda>(ok, c3, n3, w3).
        if \<not> ok then Ret (False, c3, n3, w3)
        else let (c4, w4) = http_1_0_close c3 w3 in Ret (True, c4, n3, w4))))"

section \<open>Routing\<close>

text \<open>\<open>CONV_CHECK_ROUTER\<close> inside its \<open>try\<close>: no router, a method that is not allowed and an
  exception of the router's method all end in the \<open>catch\<close> clause.\<close>

definition check_router ::
  "http_env \<Rightarrow> http_Methods \<Rightarrow> (http \<Rightarrow> net \<Rightarrow> world \<Rightarrow> http_result) \<Rightarrow> http \<Rightarrow> net \<Rightarrow> world \<Rightarrow> http_result" where
  "check_router env m catch c n w =
     (case routers env (rq_url (req_header c)) of
        None \<Rightarrow> catch c n w
      | Some r \<Rightarrow>
          (if \<not> router_allow r (rq_method (req_header c)) then catch c n w
           else
             bind_out (r_method r m c n w) (\<lambda>(res, c1, n1, w1).
             case res of None \<Rightarrow> catch c1 n1 w1 | Some b \<Rightarrow> Ret (b, c1, n1, w1))))"

text \<open>\<open>process_get\<close>, and the eight other methods, which differ only in the method called.\<close>

definition process_get :: "nat \<Rightarrow> http_env \<Rightarrow> http \<Rightarrow> net \<Rightarrow> world \<Rightarrow> http_result" where
  "process_get k env c n w = check_router env GET (serve_file k env) c n w"

definition process_other :: "nat \<Rightarrow> http_env \<Rightarrow> http_Methods \<Rightarrow> http \<Rightarrow> net \<Rightarrow> world \<Rightarrow> http_result" where
  "process_other k env m c n w =
     check_router env m (\<lambda>c n w.
       bind_out (method_not_allow k env c n w) (\<lambda>(_, c1, n1, w1). Ret (True, c1, n1, w1))) c n w"

text \<open>\<open>forward\<close>: \<open>routers[url]\<close> of an unknown URL is a null pointer; what the method allows is not
  asked for.\<close>

definition forward :: "http_env \<Rightarrow> string \<Rightarrow> http_Methods \<Rightarrow> handler" where
  "forward env url m c n w =
     (case routers env url of None \<Rightarrow> Undef | Some r \<Rightarrow> r_method r m c n w)"

section \<open>The two event handlers\<close>

definition http_process_out :: "nat \<Rightarrow> http_env \<Rightarrow> http \<Rightarrow> net \<Rightarrow> world \<Rightarrow> http_result" where
  "http_process_out k env c n w =
     (let c0 = (clear_out c)\<lparr>res_version := rq_version (req_header c)\<rparr>;
          refused = (case match_filter (filters env) (rq_url (req_header c0)) of
                       None \<Rightarrow> False
                     | Some f \<Rightarrow> \<not> f c0)
      in if refused then send_status k env Forbidden c0 n w
         else if rq_method (req_header c0) = GET then process_get k env c0 n w
         else process_other k env (rq_method (req_header c0)) c0 n w)"

text \<open>The loop of \<open>process_in\<close> that waits for the whole body of a \<open>POST\<close>.\<close>

fun read_body :: "nat \<Rightarrow> string \<Rightarrow> http \<Rightarrow> net \<Rightarrow> (string \<times> http \<times> net) outcome" where
  "read_body 0 body c n = Blocked"
| "read_body (Suc k) body c n =
     bind_out (first_value ''Content-Length'' (rq_headers (req_header c))) (\<lambda>v.
     let cur = to_size_t (strtoll v) in
     if cur > of_nat (length body) then
       bind_out (recv body (cur - of_nat (length body)) c n) (\<lambda>(_, body1, c1, n1).
       read_body k body1 c1 n1)
     else Ret (body, c, n))"

definition http_process_in :: "nat \<Rightarrow> http \<Rightarrow> net \<Rightarrow> world \<Rightarrow> http_result" where
  "http_process_in k c n w =
     bind_out (recv_all [] (clear_in c) n) (\<lambda>(ok, data, c1, n1).
     if \<not> ok then let (c2, w2) = notify_close c1 w in Ret (False, c2, n1, w2)
     else if data = [] then Ret (True, c1, n1, next_event EPOLLIN c1 w)
     else
       let divide = find_sub [CR, LF, CR, LF] data in
       case parse_header k (take (pos_add divide 2) data) (req_header c1) of
         None \<Rightarrow> Blocked
       | Some r \<Rightarrow>
           bind_out r (\<lambda>(ok, h).
           let c2 = c1\<lparr>req_header := h\<rparr> in
           if \<not> ok then let (c3, w3) = notify_close c2 w in Ret (False, c3, n1, w3)
           else if rq_method h = POST then
             bind_out (substr data (pos_add divide 4) None) (\<lambda>body.
             bind_out (read_body k body c2 n1) (\<lambda>(body1, c3, n3).
             bind_out (parse_body body1 (req_header c3) (req_body c3)) (\<lambda>(_, b).
             let c4 = c3\<lparr>req_body := b\<rparr> in Ret (True, c4, n3, next_event EPOLLOUT c4 w))))
           else Ret (True, c2, n1, next_event EPOLLOUT c2 w)))"

end
