(* ===== verification/SocketFlow.thy ===== *)
theory SocketFlow
  imports SocketIO
begin

text \<open>
  Sending over a kernel that always makes some room: the budget lemmas for code that sends several
  things one after the other. \<open>flows m n\<close>: the script of \<open>n\<close> has at least \<open>m\<close> replies, and
  each makes room for at least one byte.
\<close>

definition flows :: "nat \<Rightarrow> net \<Rightarrow> bool" where
  "flows m n \<longleftrightarrow> list_all moves (send_script n) \<and> m \<le> length (send_script n)"

lemma flowsD: "flows (Suc m) n \<Longrightarrow> \<exists>k rs. send_script n = Room (Suc k) # rs \<and> flows m (n\<lparr>send_script := rs\<rparr>)"
proof -
  assume f: "flows (Suc m) n"
  then obtain r rs where r: "send_script n = r # rs" by (cases "send_script n") (auto simp: flows_def)
  with f obtain k where "r = Room (Suc k)" by (cases r) (auto simp: flows_def gr0_conv_Suc)
  with f r show ?thesis by (auto simp: flows_def)
qed

lemma flows_mono: "flows m n \<Longrightarrow> k \<le> m \<Longrightarrow> flows k n"
  by (auto simp: flows_def)

lemma flows_wire [simp]: "flows m (n\<lparr>wire_out := x\<rparr>) = flows m n"
  by (simp add: flows_def)

text \<open>What a call has put on the wire, all else but the script being the same.\<close>

definition put_out :: "string \<Rightarrow> net \<Rightarrow> net \<Rightarrow> bool" where
  "put_out d n n' \<longleftrightarrow> (\<exists>rs. n' = n\<lparr>send_script := rs, wire_out := wire_out n @ d\<rparr>)"

lemma put_out_wire: "put_out d n n' \<Longrightarrow> wire_out n' = wire_out n @ d"
  by (auto simp: put_out_def)

lemma put_out_same:
  "put_out d n n' \<Longrightarrow> errno n' = errno n \<and> recv_script n' = recv_script n \<and> wire_in n' = wire_in n"
  by (auto simp: put_out_def)

lemma put_out_refl: "put_out [] n n"
  by (auto simp: put_out_def intro: exI [of _ "send_script n"])

lemma put_out_trans: "put_out d n n' \<Longrightarrow> put_out e n' n'' \<Longrightarrow> put_out (d @ e) n n''"
  by (auto simp: put_out_def)

lemma send_base_flows:
  fixes s :: "'a sock_scheme"
  assumes "write_cursor s \<le> write_total_bytes s" "unat (write_total_bytes s) \<le> length data"
    and "flows (unat (write_total_bytes s) - unat (write_cursor s) + m) n"
  shows "\<exists>n'. send_base data s n = Ret (True, s\<lparr>write_cursor := write_total_bytes s\<rparr>, n') \<and> flows m n' \<and>
    put_out (take (unat (write_total_bytes s) - unat (write_cursor s)) (drop (unat (write_cursor s)) data)) n n'"
  using assms
proof (induction "unat (write_total_bytes s) - unat (write_cursor s)" arbitrary: s n rule: less_induct)
  case less
  let ?c = "unat (write_cursor s)" and ?t = "unat (write_total_bytes s)"
  show ?case
  proof (cases "write_cursor s < write_total_bytes s")
    case False
    with less.prems(1) have eq: "write_cursor s = write_total_bytes s" by simp
    then have "s\<lparr>write_cursor := write_total_bytes s\<rparr> = s" by (metis sock.surjective sock.update_convs(2))
    with eq less.prems(3) show ?thesis
      by (subst send_base.simps) (auto intro: put_out_refl)
  next
    case True
    then have ct: "?c < ?t" by (simp add: word_less_nat_alt)
    then have "?t - ?c + m = Suc (?t - ?c - 1 + m)" by simp
    with less.prems(3) have "flows (Suc (?t - ?c - 1 + m)) n" by (simp only:)
    then obtain k rs where r: "send_script n = Room (Suc k) # rs"
        and fl: "flows (?t - ?c - 1 + m) (n\<lparr>send_script := rs\<rparr>)"
      using flowsD by blast
    define q where "q = min (Suc k) (min 2048 (?t - ?c))"
    let ?s = "s\<lparr>write_cursor := write_cursor s + to_size_t (int q)\<rparr>"
    let ?n = "n\<lparr>send_script := rs, wire_out := wire_out n @ take q (drop ?c data)\<rparr>"
    have q: "0 < q" "q \<le> unat (write_total_bytes s - write_cursor s)" "q < 2 ^ 63" "q \<le> ?t - ?c"
      using ct True by (auto simp: q_def unat_cursor_left)
    have run: "send_base data s n = send_base data ?s ?n"
      using send_base_room [OF True less.prems(2) r, folded q_def] q(1) by simp
    note adv = cursor_advance [OF less.prems(1) q(2,3)]
    have "?t - unat (write_cursor ?s) < ?t - ?c" using adv q ct by simp
    moreover have "?t - unat (write_cursor ?s) + m \<le> ?t - ?c - 1 + m" using adv q ct by simp
    then have "flows (?t - unat (write_cursor ?s) + m) ?n"
      unfolding flows_wire by (rule flows_mono [OF fl])
    ultimately obtain n' where n': "send_base data ?s ?n = Ret (True, ?s\<lparr>write_cursor := write_total_bytes s\<rparr>, n')"
        "flows m n'" "put_out (take (?t - (?c + q)) (drop (?c + q) data)) ?n n'"
      using less.hyps [of ?s ?n] less.prems(2) adv by auto
    have "put_out (take q (drop ?c data)) n ?n" by (auto simp: put_out_def)
    from put_out_trans [OF this n'(3)] have "put_out (take (?t - ?c) (drop ?c data)) n n'"
      unfolding take_append_drop_chunk using q(4) by (simp only: le_add_diff_inverse diff_diff_left [symmetric])
    with run n' show ?thesis by simp
  qed
qed

lemma send_flows:
  fixes s :: "'a sock_scheme"
  assumes "already s" "data \<noteq> []" "length data < 2 ^ 64" "flows (length data + m) n"
  shows "\<exists>n' x. send data (of_nat (length data)) s n =
      Ret (True, s\<lparr>write_total_bytes := x, write_cursor := x, already := True\<rparr>, n') \<and>
    flows m n' \<and> put_out data n n'"
proof -
  let ?s = "s\<lparr>write_total_bytes := of_nat (length data), write_cursor := 0\<rparr>"
  have u: "unat (of_nat (length data) :: size_t) = length data" using assms(3) by (rule unat_of_nat_size)
  then have "(0 :: size_t) < of_nat (length data)" using assms(2) by (simp add: word_less_nat_alt)
  with send_start [OF assms(1), of "of_nat (length data)" data n] send_base_flows [of ?s data m n] u assms(4)
  show ?thesis by (fastforce simp: finish_send_def)
qed

text \<open>The same for \<open>sendfile\<close>.\<close>

lemma send_file_flows:
  fixes s :: "'a sock_scheme"
  assumes "write_cursor s \<le> write_total_bytes s" "unat (write_total_bytes s) \<le> length data"
    and "length data < 2 ^ 63"
    and "flows (unat (write_total_bytes s) - unat (write_cursor s) + m) n"
  shows "\<exists>n'. send_file_loop data s n = Ret (True, True, s\<lparr>write_cursor := write_total_bytes s\<rparr>, n') \<and> flows m n' \<and>
    put_out (take (unat (write_total_bytes s) - unat (write_cursor s)) (drop (unat (write_cursor s)) data)) n n'"
  using assms
proof (induction "unat (write_total_bytes s) - unat (write_cursor s)" arbitrary: s n rule: less_induct)
  case less
  let ?c = "unat (write_cursor s)" and ?t = "unat (write_total_bytes s)"
  show ?case
  proof (cases "write_cursor s < write_total_bytes s")
    case False
    with less.prems(1) have eq: "write_cursor s = write_total_bytes s" by simp
    then have "s\<lparr>write_cursor := write_total_bytes s\<rparr> = s" by (metis sock.surjective sock.update_convs(2))
    with eq less.prems(4) show ?thesis
      by (subst send_file_loop.simps) (auto intro: put_out_refl)
  next
    case True
    then have ct: "?c < ?t" by (simp add: word_less_nat_alt)
    then have "?t - ?c + m = Suc (?t - ?c - 1 + m)" by simp
    with less.prems(4) have "flows (Suc (?t - ?c - 1 + m)) n" by (simp only:)
    then obtain k rs where r: "send_script n = Room (Suc k) # rs"
        and fl: "flows (?t - ?c - 1 + m) (n\<lparr>send_script := rs\<rparr>)"
      using flowsD by blast
    define q where "q = min (Suc k) (?t - ?c)"
    let ?s = "s\<lparr>write_cursor := write_cursor s + to_size_t (int q)\<rparr>"
    let ?n = "n\<lparr>send_script := rs, wire_out := wire_out n @ take q (drop ?c data)\<rparr>"
    have left: "unat (write_total_bytes s - write_cursor s) = ?t - ?c"
      using True by (simp add: unat_cursor_left)
    have q: "0 < q" "q \<le> unat (write_total_bytes s - write_cursor s)" "q < 2 ^ 63" "q \<le> ?t - ?c"
      using ct True less.prems(2,3) left by (auto simp: q_def)
    have cnt: "min (Suc k) (length (take (?t - ?c) (drop ?c data))) = q"
      using less.prems(2) by (simp add: q_def)
    have bytes: "take (Suc k) (take (?t - ?c) (drop ?c data)) = take q (drop ?c data)"
      by (simp add: q_def)
    have "to_size_t (int q) \<noteq> - 1"
    proof
      assume "to_size_t (int q) = - 1"
      then have "q = unat (- 1 :: size_t)" using to_size_t_count(2) [OF q(3)] by metis
      with q(3) show False by (simp add: unsigned_minus_1_eq_mask mask_eq_exp_minus_1)
    qed
    then have run: "send_file_loop data s n = send_file_loop data ?s ?n"
      using True r cnt bytes left
      by (subst send_file_loop.simps) (simp add: sys_send_def Let_def)
    note adv = cursor_advance [OF less.prems(1) q(2,3)]
    have "?t - unat (write_cursor ?s) < ?t - ?c" using adv q ct by simp
    moreover have "?t - unat (write_cursor ?s) + m \<le> ?t - ?c - 1 + m" using adv q ct by simp
    then have "flows (?t - unat (write_cursor ?s) + m) ?n"
      unfolding flows_wire by (rule flows_mono [OF fl])
    ultimately obtain n' where n': "send_file_loop data ?s ?n = Ret (True, True, ?s\<lparr>write_cursor := write_total_bytes s\<rparr>, n')"
        "flows m n'" "put_out (take (?t - (?c + q)) (drop (?c + q) data)) ?n n'"
      using less.hyps [of ?s ?n] less.prems(2,3) adv by auto
    have "put_out (take q (drop ?c data)) n ?n" by (auto simp: put_out_def)
    from put_out_trans [OF this n'(3)] have "put_out (take (?t - ?c) (drop ?c data)) n n'"
      unfolding take_append_drop_chunk using q(4) by (simp only: le_add_diff_inverse diff_diff_left [symmetric])
    with run n' show ?thesis by simp
  qed
qed

end
