(* ===== verification/HttpConnProps.thy ===== *)
theory HttpConnProps
  imports HttpConn SocketFlow
begin

text \<open>
  What an HTTP connection answers: the exact bytes of the responses over any kernel that makes
  progress, for files, errors, filters and routes, and from the request text to the response.
\<close>

section \<open>Response texts\<close>

definition header_lines :: "(string \<times> string) list \<Rightarrow> string" where
  "header_lines hs = concat (map (\<lambda>p. fst p @ '':'' @ snd p @ [CR, LF]) hs)"

definition reason_of :: "http_Status \<Rightarrow> string" where
  "reason_of st = (case status_text st of Ret t \<Rightarrow> t | _ \<Rightarrow> [])"

definition head_text :: "http_env \<Rightarrow> http_Version \<Rightarrow> http_Status \<Rightarrow> (string \<times> string) list \<Rightarrow> string" where
  "head_text env v st hs =
     version_text v @ '' '' @ show_int (status_code st) @ '' '' @ reason_of st @ [CR, LF] @
     header_lines (header_order env hs) @ [CR, LF]"

definition error_page :: "http_Status \<Rightarrow> string" where
  "error_page st = ''<h1> '' @ show_int (status_code st) @ '' '' @ reason_of st @ ''</h1>''"

lemma status_text_reason: "status_text st = Ret (reason_of st)"
  using status_text_total [of st] by (auto simp: reason_of_def)

lemma version_text_known: "map_of http_version_map v = Some (version_text v)"
  by (cases v; simp add: version_text_def http_version_map_def)

lemma response_text_head: "response_text env c = Ret (head_text env (res_version c) (res_status c) (res_headers c))"
  by (simp add: response_text_def version_text_known status_text_reason head_text_def header_lines_def)

lemma head_text_not_Nil [simp]: "head_text env v st hs \<noteq> []"
  by (simp add: head_text_def)

lemma error_page_not_Nil [simp]: "error_page st \<noteq> []"
  by (simp add: error_page_def)

lemma build_body_page: "build_body_text c = Ret (c\<lparr>body_text := error_page (res_status c)\<rparr>)"
  by (simp add: build_body_text_def status_text_reason error_page_def)

section \<open>Header and body on the wire\<close>

lemma header_flows:
  assumes "already c" "0 < k"
    and h: "h = head_text env (res_version c) (res_status c) (res_headers c)" "length h < 2 ^ 64"
    and "flows (length h + m) n"
  shows "\<exists>n' x. send_response_header k env c n w =
      Ret (True, c\<lparr>header_text := h, write_total_bytes := x, write_cursor := x, already := True\<rparr>, n', w) \<and>
    flows m n' \<and> put_out h n n'"
proof -
  obtain j where k: "k = Suc j" using assms(2) by (cases k) auto
  have "h \<noteq> []" using h by simp
  from send_flows [of "c\<lparr>header_text := h\<rparr>" h m n, OF _ this h(2) assms(5)] assms(1)
  show ?thesis
    by (auto simp: send_response_header_def response_text_head k h(1) [symmetric])
qed

lemma body_text_flows:
  assumes "already c" "0 < k" "file_fd c = - 1"
    and "body_text c \<noteq> []" "length (body_text c) < 2 ^ 64" "flows (length (body_text c) + m) n"
  shows "\<exists>n' x. send_response_body k c n w =
      Ret (True, c\<lparr>write_total_bytes := x, write_cursor := x, already := True\<rparr>, n', next_event EPOLLIN c w) \<and>
    flows m n' \<and> put_out (body_text c) n n'"
proof -
  obtain j where k: "k = Suc j" using assms(2) by (cases k) auto
  from send_flows [OF assms(1,4,5,6)] show ?thesis
    by (auto simp: k send_response_body_base_def assms(3) next_event_def)
qed

lemma file_flows:
  assumes "0 < k" "file_fd c \<noteq> - 1" "st_size c \<le> length (file_content c)" "length (file_content c) < 2 ^ 63"
    and "write_total_bytes c = of_nat (st_size c)" "write_cursor c = 0" "flows (st_size c + m) n"
  shows "\<exists>n' x. send_response_body k c n w =
      Ret (True, c\<lparr>write_cursor := x, file_fd := - 1\<rparr>, n',
           next_event EPOLLIN c (w\<lparr>calls := calls w @ [Close_fd (file_fd c)]\<rparr>)) \<and>
    flows m n' \<and> put_out (take (st_size c) (file_content c)) n n'"
proof -
  obtain j where k: "k = Suc j" using assms(1) by (cases k) auto
  have "unat (write_total_bytes c) = st_size c" using assms(3-5) by (simp add: unat_of_nat_size)
  with send_file_flows [of c "file_content c" m n] assms(3-7)
  obtain n' where "send_file_loop (file_content c) c n =
      Ret (True, True, c\<lparr>write_cursor := write_total_bytes c\<rparr>, n')" "flows m n'"
    "put_out (take (st_size c) (file_content c)) n n'" by auto
  then show ?thesis
    using assms(2) by (auto simp: k send_response_body_base_def close_file_def next_event_def)
qed

section \<open>Whole responses\<close>

text \<open>
  How an answered request leaves the connection: no file is open, the socket is armed for the next
  request, and it closes itself exactly when the client speaks HTTP/1.0.
\<close>

definition answered :: "http \<Rightarrow> http \<Rightarrow> world \<Rightarrow> world \<Rightarrow> bool" where
  "answered c c' w w' \<longleftrightarrow>
     already c' \<and> file_fd c' = - 1 \<and> socket_fd c' = socket_fd c \<and>
     (\<exists>cs. calls w' = cs @ [Epoll_ctl_mod (epoll_fd c) (socket_fd c) (epoll_mod_mask EPOLLIN (ET c) (one_shot c))]) \<and>
     (if res_version c = HTTP_1_0 then status c' = CLOSE else status c' = status c \<and> cq w' = cq w)"

definition only_cursors :: "(http \<Rightarrow> http) \<Rightarrow> bool" where
  "only_cursors prep \<longleftrightarrow> (\<forall>c. \<exists>x y. prep c = c\<lparr>write_total_bytes := x, write_cursor := y\<rparr>)"

lemma only_cursors_cases [simp]: "only_cursors (\<lambda>c. c)" "only_cursors start_file"
proof -
  have "c\<lparr>write_total_bytes := write_total_bytes c, write_cursor := write_cursor c\<rparr> = c" for c :: http
    by simp
  then show "only_cursors (\<lambda>c. c)" unfolding only_cursors_def by metis
  show "only_cursors start_file" unfolding only_cursors_def start_file_def by blast
qed

lemma finish_answered:
  assumes "http_1_0_close c w = (c', w')" "already c" "file_fd c = - 1"
    and "calls w = cs @ [Epoll_ctl_mod (epoll_fd c) (socket_fd c) (epoll_mod_mask EPOLLIN (ET c) (one_shot c))]"
    and "socket_fd c0 = socket_fd c" "epoll_fd c0 = epoll_fd c" "ET c0 = ET c" "one_shot c0 = one_shot c"
    and "res_version c0 = res_version c" "status c0 = status c" "cq w = cq w0"
  shows "answered c0 c' w0 w'"
  using assms
  by (auto simp: answered_def http_1_0_close_def notify_close_def next_event_def epoll_mod_def split: if_splits)

lemma respond_text:
  assumes "already c" "0 < k" "file_fd c = - 1" "only_cursors prep"
    and b: "body_text c \<noteq> []" "length (body_text c) < 2 ^ 64"
    and h: "h = head_text env (res_version c) (res_status c) (res_headers c)" "length h < 2 ^ 64"
    and fl: "flows (length h + length (body_text c)) n"
  shows "\<exists>c' n' w'. respond k env prep c n w = Ret (True, c', n', w') \<and>
    put_out (h @ body_text c) n n' \<and> answered c c' w w'"
proof -
  from header_flows [OF assms(1,2) h fl] obtain n1 x where
    h1: "send_response_header k env c n w = Ret (True, c\<lparr>header_text := h, write_total_bytes := x,
        write_cursor := x, already := True\<rparr>, n1, w)" "flows (length (body_text c)) n1" "put_out h n n1"
    by blast
  let ?c1 = "c\<lparr>header_text := h, write_total_bytes := x, write_cursor := x, already := True\<rparr>"
  from assms(4) obtain y z where p: "prep ?c1 = ?c1\<lparr>write_total_bytes := y, write_cursor := z\<rparr>"
    unfolding only_cursors_def by blast
  from body_text_flows [of "prep ?c1" k 0 n1 w] p assms(2,3) b h1(2) obtain n2 v where
    h2: "send_response_body k (prep ?c1) n1 w = Ret (True, (prep ?c1)\<lparr>write_total_bytes := v,
        write_cursor := v, already := True\<rparr>, n2, next_event EPOLLIN (prep ?c1) w)" "put_out (body_text c) n1 n2"
    by auto
  let ?c2 = "(prep ?c1)\<lparr>write_total_bytes := v, write_cursor := v, already := True\<rparr>"
  let ?w2 = "next_event EPOLLIN (prep ?c1) w"
  obtain c3 w3 where cl: "http_1_0_close ?c2 ?w2 = (c3, w3)" by (cases "http_1_0_close ?c2 ?w2")
  have "answered c c3 w w3"
    by (rule finish_answered [OF cl, of "calls w"])
       (use p assms(3) in \<open>simp_all add: next_event_def epoll_mod_def\<close>)
  with h1(1) h2 cl put_out_trans [OF h1(3) h2(2)] show ?thesis
    by (simp add: respond_def)
qed

lemma respond_file:
  assumes "already c" "0 < k" "file_fd c \<noteq> - 1"
    and f: "st_size c \<le> length (file_content c)" "length (file_content c) < 2 ^ 63"
    and h: "h = head_text env (res_version c) (res_status c) (res_headers c)" "length h < 2 ^ 64"
    and fl: "flows (length h + st_size c) n"
  shows "\<exists>c' n' w'. respond k env start_file c n w = Ret (True, c', n', w') \<and>
    put_out (h @ take (st_size c) (file_content c)) n n' \<and> answered c c' w w' \<and>
    Close_fd (file_fd c) \<in> set (calls w')"
proof -
  from header_flows [OF assms(1,2) h fl] obtain n1 x where
    h1: "send_response_header k env c n w = Ret (True, c\<lparr>header_text := h, write_total_bytes := x,
        write_cursor := x, already := True\<rparr>, n1, w)" "flows (st_size c) n1" "put_out h n n1"
    by blast
  define c1 where "c1 = start_file (c\<lparr>header_text := h, write_total_bytes := x, write_cursor := x, already := True\<rparr>)"
  have c1: "file_fd c1 = file_fd c" "st_size c1 = st_size c" "file_content c1 = file_content c"
    "write_total_bytes c1 = of_nat (st_size c1)" "write_cursor c1 = 0" "already c1"
    by (simp_all add: c1_def start_file_def)
  let ?w2 = "next_event EPOLLIN c1 (w\<lparr>calls := calls w @ [Close_fd (file_fd c)]\<rparr>)"
  from file_flows [of k c1 0 n1 w] c1 assms(2,3) f h1(2) obtain n2 v where
    h2: "send_response_body k c1 n1 w = Ret (True, c1\<lparr>write_cursor := v, file_fd := - 1\<rparr>, n2, ?w2)"
      "put_out (take (st_size c) (file_content c)) n1 n2" by auto
  let ?c2 = "c1\<lparr>write_cursor := v, file_fd := - 1\<rparr>"
  obtain c3 w3 where cl: "http_1_0_close ?c2 ?w2 = (c3, w3)" by (cases "http_1_0_close ?c2 ?w2")
  have "answered c c3 w w3"
    by (rule finish_answered [OF cl, of "calls w @ [Close_fd (file_fd c)]"])
       (use c1 in \<open>simp_all add: next_event_def epoll_mod_def c1_def start_file_def\<close>)
  moreover have "Close_fd (file_fd c) \<in> set (calls w3)"
    using cl by (auto simp: http_1_0_close_def notify_close_def next_event_def split: if_splits)
  ultimately show ?thesis
    using h1(1) h2 cl put_out_trans [OF h1(3) h2(2)] by (simp add: respond_def c1_def [symmetric])
qed

section \<open>Requests on the wire\<close>

text \<open>The replies of the kernel to a reader: each brings at least one byte of what is left, at
  most the buffer's size, and in the end nothing is left.\<close>

fun consumed :: "nat list \<Rightarrow> string \<Rightarrow> bool" where
  "consumed [] d \<longleftrightarrow> d = []"
| "consumed (k # ks) d \<longleftrightarrow> 0 < k \<and> d \<noteq> [] \<and> consumed ks (drop (min k 2048) d)"

lemma recv_loop_consumed:
  fixes s :: "'a sock_scheme"
  assumes "read_total_bytes s = SIZE_MAX" "unat (read_cursor s) + length (wire_in n) < 2 ^ 63"
    and "recv_script n = map Arrived ks @ [Recv_error EAGAIN]" "consumed ks (wire_in n)"
  shows "\<exists>x. recv_loop d s n = Ret (True, d @ wire_in n, s\<lparr>read_cursor := x\<rparr>,
    n\<lparr>recv_script := [], wire_in := [], errno := EAGAIN\<rparr>)"
  using assms
proof (induction ks arbitrary: d s n)
  case Nil
  have "read_cursor s < SIZE_MAX"
    using Nil.prems(2) by (simp add: SIZE_MAX_def word_less_nat_alt unsigned_minus_1_eq_mask mask_eq_exp_minus_1)
  moreover have "s\<lparr>read_cursor := read_cursor s\<rparr> = s" by simp
  moreover have "n\<lparr>wire_in := []\<rparr> = n" using Nil.prems(4) by simp
  ultimately show ?case
    using Nil.prems by (subst recv_loop.simps) (auto simp: sys_recv_def intro!: exI [of _ "read_cursor s"])
next
  case (Cons k ks)
  have c: "unat (read_cursor s) < 2 ^ 63" using Cons.prems(2) by simp
  then have lt: "read_cursor s < read_total_bytes s"
    using Cons.prems(1)
    by (simp add: SIZE_MAX_def word_less_nat_alt unsigned_minus_1_eq_mask mask_eq_exp_minus_1)
  have "2048 \<le> unat (read_total_bytes s) - unat (read_cursor s)"
    using c Cons.prems(1) by (simp add: SIZE_MAX_def unsigned_minus_1_eq_mask mask_eq_exp_minus_1)
  then have chunk: "min 2048 (unat (read_total_bytes s) - unat (read_cursor s)) = 2048" by simp
  let ?m = "min k 2048"
  let ?got = "take ?m (wire_in n)"
  have len: "min ?m (length (wire_in n)) = length ?got" by simp
  have got: "length ?got \<noteq> 0" "length ?got < 2 ^ 63" "length ?got \<le> length (wire_in n)"
    using Cons.prems(4) by (auto simp: min_def)
  have same: "take (length ?got) (wire_in n) = ?got" "drop (length ?got) (wire_in n) = drop ?m (wire_in n)"
    by (simp_all add: min_def)
  let ?s = "s\<lparr>read_cursor := read_cursor s + to_size_t (int (length ?got))\<rparr>"
  let ?n = "n\<lparr>recv_script := map Arrived ks @ [Recv_error EAGAIN], wire_in := drop ?m (wire_in n)\<rparr>"
  have script: "recv_script n = Arrived k # (map Arrived ks @ [Recv_error EAGAIN])"
    using Cons.prems(3) by simp
  have run: "recv_loop d s n = recv_loop (d @ ?got) ?s ?n"
    using recv_loop_arrived [OF lt script, of d, unfolded chunk len same] got(1)
    by (simp only: if_False)
  have "unat (read_cursor ?s) = unat (read_cursor s) + length ?got"
    using unat_add_no_wrap [of "read_cursor s" "length ?got"] Cons.prems(2) got(3)
    by (simp add: to_size_t_of_nat)
  then have "unat (read_cursor ?s) + length (wire_in ?n) < 2 ^ 63"
    using Cons.prems(2) by simp
  from Cons.IH [of ?s ?n "d @ ?got", OF _ this] Cons.prems(1,4) run show ?case
    by auto
qed

lemma recv_all_consumed:
  fixes s :: "'a sock_scheme"
  assumes "already s" "length (wire_in n) < 2 ^ 63"
    and "recv_script n = map Arrived ks @ [Recv_error EAGAIN]" "consumed ks (wire_in n)"
  shows "\<exists>x. recv_all [] s n = Ret (True, wire_in n,
      s\<lparr>read_total_bytes := SIZE_MAX, read_cursor := x, already := True\<rparr>,
      n\<lparr>recv_script := [], wire_in := [], errno := EAGAIN\<rparr>)"
proof -
  let ?s = "s\<lparr>read_total_bytes := SIZE_MAX, read_cursor := 0\<rparr>"
  from recv_loop_consumed [of ?s n ks "[]"] assms obtain x where
    "recv_loop [] ?s n = Ret (True, wire_in n, ?s\<lparr>read_cursor := x\<rparr>,
      n\<lparr>recv_script := [], wire_in := [], errno := EAGAIN\<rparr>)" by auto
  moreover have "\<not> SIZE_MAX \<le> 0" by (simp add: SIZE_MAX_def)
  ultimately show ?thesis
    using assms(1) by (auto simp: recv_all_def recv_base_def finish_recv_def)
qed

text \<open>The blank line that ends the headers is the first place where two line ends meet.\<close>

lemma find_blank_line:
  assumes "ls \<noteq> []" "list_all (\<lambda>l. l \<noteq> [] \<and> CR \<notin> set l) ls"
  shows "find_sub [CR, LF, CR, LF] (concat (map (\<lambda>l. l @ [CR, LF]) ls) @ CR # LF # rest) =
    Some (length (concat (map (\<lambda>l. l @ [CR, LF]) ls)) - 2)"
  using assms
proof (induction ls)
  case (Cons l ls)
  have cr: "CR \<notin> set l" using Cons.prems by simp
  show ?case
  proof (cases ls)
    case Nil
    have "find_sub [CR, LF, CR, LF] (l @ [CR, LF, CR, LF] @ rest) = Some (length l)"
      using find_sub_skip [OF cr, of "[LF, CR, LF]" "[CR, LF, CR, LF] @ rest"] by simp
    with Nil show ?thesis by simp
  next
    case (Cons l2 ls2)
    let ?r = "concat (map (\<lambda>l. l @ [CR, LF]) ls) @ CR # LF # rest"
    obtain x xs where x: "l2 = x # xs" "x \<noteq> CR" using Cons.prems Cons by (cases l2) auto
    have "find_sub [CR, LF, CR, LF] (CR # LF # ?r) = map_option (Suc \<circ> Suc) (find_sub [CR, LF, CR, LF] ?r)"
      using x Cons by (simp add: option.map_comp comp_def)
    then show ?thesis
      using find_sub_skip [OF cr, of "[LF, CR, LF]" "CR # LF # ?r"] Cons.IH Cons.prems Cons
      by (simp add: comp_def)
  qed
qed simp

section \<open>The handler of \<open>EPOLLOUT\<close>\<close>

text \<open>The connection as the handler sees it after \<open>clear_out\<close>.\<close>

definition out_start :: "http \<Rightarrow> http" where
  "out_start c = (clear_out c)\<lparr>res_version := rq_version (req_header c)\<rparr>"

definition admitted :: "http_env \<Rightarrow> http \<Rightarrow> bool" where
  "admitted env c \<longleftrightarrow>
     (case match_filter (filters env) (rq_url (req_header c)) of None \<Rightarrow> True | Some f \<Rightarrow> f (out_start c))"

lemma out_start_facts [simp]:
  "req_header (out_start c) = req_header c" "res_version (out_start c) = rq_version (req_header c)"
  "already (out_start c) = already c" "res_headers (out_start c) = []" "file_fd (out_start c) = - 1"
  "socket_fd (out_start c) = socket_fd c" "epoll_fd (out_start c) = epoll_fd c"
  "ET (out_start c) = ET c" "one_shot (out_start c) = one_shot c" "status (out_start c) = status c"
  "st_size (out_start c) = 0"
  by (simp_all add: out_start_def clear_out_def)

lemma process_out_cases:
  "http_process_out k env c n w =
     (if \<not> admitted env c then send_status k env Forbidden (out_start c) n w
      else if rq_method (req_header c) = GET then process_get k env (out_start c) n w
      else process_other k env (rq_method (req_header c)) (out_start c) n w)"
  by (simp add: http_process_out_def admitted_def out_start_def clear_out_def Let_def split: option.split)

lemma send_status_page:
  assumes "already c" "0 < k" "file_fd c = - 1" "res_headers c = []"
    and h: "h = head_text env (res_version c) st [(''Content-Length'', show_nat (length (error_page st)))]"
    and "length (h @ error_page st) < 2 ^ 64" "flows (length (h @ error_page st)) n"
  shows "\<exists>c' n' w'. send_status k env st c n w = Ret (True, c', n', w') \<and>
    put_out (h @ error_page st) n n' \<and> answered c c' w w'"
proof -
  define c1 where "c1 = set_content_length (c\<lparr>res_status := st, body_text := error_page st\<rparr>)"
  have c1: "body_text c1 = error_page st" "already c1" "file_fd c1 = - 1" "res_version c1 = res_version c"
    "res_headers c1 = [(''Content-Length'', show_nat (length (error_page st)))]" "res_status c1 = st"
    "socket_fd c1 = socket_fd c" "epoll_fd c1 = epoll_fd c" "ET c1 = ET c" "one_shot c1 = one_shot c"
    "status c1 = status c"
    using assms(1,3,4) by (simp_all add: c1_def set_content_length_def set_header_def)
  have "answered c1 c' w w' \<Longrightarrow> answered c c' w w'" for c' w' using c1 by (simp add: answered_def)
  moreover have "\<exists>c' n' w'. respond k env (\<lambda>c. c) c1 n w = Ret (True, c', n', w') \<and>
      put_out (h @ body_text c1) n n' \<and> answered c1 c' w w'"
    by (rule respond_text) (use c1 assms(2,6,7) h in simp_all)
  moreover have "send_status k env st c n w = respond k env (\<lambda>c. c) c1 n w"
    by (simp add: send_status_def build_body_page c1_def)
  ultimately show ?thesis unfolding c1(1) by metis
qed

definition page_head :: "http_env \<Rightarrow> http_Version \<Rightarrow> http_Status \<Rightarrow> string" where
  "page_head env v st = head_text env v st [(''Content-Length'', show_nat (length (error_page st)))]"

text \<open>The answer to a request: what goes out and how the connection is left.\<close>

definition answers :: "http_result \<Rightarrow> string \<Rightarrow> http \<Rightarrow> net \<Rightarrow> world \<Rightarrow> bool" where
  "answers r txt c n w \<longleftrightarrow>
     (\<exists>c' n' w'. r = Ret (True, c', n', w') \<and> put_out txt n n' \<and> answered (out_start c) c' w w')"

lemma out_page:
  assumes "already c" "0 < k" and "txt = page_head env (rq_version (req_header c)) st @ error_page st"
    and "length txt < 2 ^ 64" "flows (length txt) n"
  shows "answers (send_status k env st (out_start c) n w) txt c n w"
  using send_status_page [of "out_start c" k _ env st n w, OF _ assms(2) _ _ refl] assms
  by (simp add: answers_def page_head_def)

section \<open>The handler of \<open>EPOLLIN\<close>\<close>

definition clean_header :: "string \<times> string \<Rightarrow> bool" where
  "clean_header nv \<longleftrightarrow> header_ok nv \<and> CR \<notin> set (fst nv) \<and> CR \<notin> set (snd nv)"

lemma clean_headers_ok: "list_all clean_header hs \<Longrightarrow> list_all header_ok hs"
  by (auto simp: list_all_iff clean_header_def)

lemma request_blank_line:
  assumes "CR \<notin> set url" "list_all clean_header hs"
  shows "find_sub [CR, LF, CR, LF] (request_text m url v hs @ CR # LF # body) =
    Some (length (request_text m url v hs) - 2)"
proof -
  let ?ls = "(method_text m @ CHR '' '' # url @ CHR '' '' # version_text v) # map (\<lambda>nv. fst nv @ '': '' @ snd nv) hs"
  have t: "request_text m url v hs = concat (map (\<lambda>l. l @ [CR, LF]) ?ls)"
    by (simp add: request_text_def show_header_def [abs_def] comp_def)
  have "list_all (\<lambda>l. l \<noteq> [] \<and> CR \<notin> set l) ?ls"
    using assms method_text_facts(3) [of m] version_text_facts(2) [of v]
    by (auto simp: list_all_iff clean_header_def)
  then show ?thesis unfolding t by (intro find_blank_line) simp_all
qed

text \<open>The request that arrived is the one that was written, and the rest is its body.\<close>

definition parsed :: "http_Methods \<Rightarrow> string \<Rightarrow> (string \<times> string) list \<Rightarrow> http_Version \<Rightarrow> (string \<times> string) list \<Rightarrow> request_header" where
  "parsed m path kvs v hs =
     \<lparr>rq_method = m, rq_url = path, rq_version = v, rq_parameters = map_of kvs,
      rq_headers = foldl put_header Map.empty hs\<rparr>"

definition request_fits :: "nat \<Rightarrow> string \<Rightarrow> (string \<times> string) list \<Rightarrow> (string \<times> string) list \<Rightarrow> bool" where
  "request_fits k path kvs hs \<longleftrightarrow>
     CHR ''?'' \<notin> set path \<and> url_chars (show_url path kvs) \<and> query_ok kvs \<and>
     list_all clean_header hs \<and> length kvs \<le> k"

lemma process_in_request:
  assumes "already c" "request_fits k path kvs hs"
    and data: "wire_in n = request_text m (show_url path kvs) v hs @ CR # LF # body"
    and "length (wire_in n) < 2 ^ 63" "recv_script n = map Arrived ks @ [Recv_error EAGAIN]"
    and "consumed ks (wire_in n)"
  shows "\<exists>x. http_process_in k c n w =
    (let c1 = c\<lparr>read_total_bytes := SIZE_MAX, read_cursor := x, already := True,
               req_header := parsed m path kvs v hs\<rparr>;
         n1 = n\<lparr>recv_script := [], wire_in := [], errno := EAGAIN\<rparr> in
     if m = POST then
       bind_out (read_body k body c1 n1) (\<lambda>(body1, c3, n3).
       bind_out (parse_body body1 (req_header c3) (req_body c3)) (\<lambda>(_, b).
       let c4 = c3\<lparr>req_body := b\<rparr> in Ret (True, c4, n3, next_event EPOLLOUT c4 w)))
     else Ret (True, c1, n1, next_event EPOLLOUT c1 w))"
proof -
  let ?req = "request_text m (show_url path kvs) v hs"
  from recv_all_consumed [of "clear_in c" n ks] assms(1,4-6) obtain x where
    r: "recv_all [] (clear_in c) n = Ret (True, wire_in n,
      (clear_in c)\<lparr>read_total_bytes := SIZE_MAX, read_cursor := x, already := True\<rparr>,
      n\<lparr>recv_script := [], wire_in := [], errno := EAGAIN\<rparr>)"
    by (auto simp: clear_in_def)
  have len: "2 \<le> length ?req" by (simp add: request_text_def)
  have div: "find_sub [CR, LF, CR, LF] (wire_in n) = Some (length ?req - 2)"
    unfolding data by (rule request_blank_line) (use assms(2) in \<open>simp_all add: request_fits_def url_chars_def\<close>)
  have head: "take (pos_add (Some (length ?req - 2)) 2) (wire_in n) = ?req"
    using len by (simp add: data)
  have tail: "substr (wire_in n) (pos_add (Some (length ?req - 2)) 4) None = Ret body"
    using len by (simp add: data)
  have ok: "list_all header_ok hs" using assms(2) clean_headers_ok by (simp add: request_fits_def)
  have parse: "parse_header k ?req (clear_request_header (req_header c)) =
      Some (Ret (True, parsed m path kvs v hs))"
    using parse_request [OF _ _ _ ok] assms(2) by (simp add: request_fits_def parsed_def)
  have ne: "wire_in n \<noteq> []" using data by simp
  show ?thesis
    unfolding http_process_in_def r bind_out.simps prod.case Let_def div head tail
    using ne parse by (intro exI [of _ x]) (simp add: clear_in_def parsed_def)
qed

lemma get_serves:
  assumes "admitted env c" "rq_method (req_header c) = GET" "routers env (rq_url (req_header c)) = None"
  shows "http_process_out k env c n w = serve_file k env (out_start c) n w"
  using assms by (simp add: process_out_cases process_get_def check_router_def)

definition file_head :: "http_env \<Rightarrow> http_Version \<Rightarrow> string \<Rightarrow> nat \<Rightarrow> string" where
  "file_head env v name sz =
     head_text env v OK_status [(''Content-Length'', show_nat sz), (''Content-Type'', content_type name)]"

lemma serve_existing:
  assumes "already c" "0 < k" "admitted env c" "rq_method (req_header c) = GET"
    and "routers env (rq_url (req_header c)) = None"
    and f: "open_file env (base_path env @ rq_url (req_header c)) = Some f" "o_roth f" "\<not> o_dir f"
      "o_fd f \<noteq> - 1" "o_size f = length (o_content f)"
    and bytes: "txt = file_head env (rq_version (req_header c)) (base_path env @ rq_url (req_header c)) (o_size f) @
      o_content f" "length txt < 2 ^ 63" "flows (length txt) n"
  shows "answers (http_process_out k env c n w) txt c n w"
proof -
  let ?name = "base_path env @ rq_url (req_header c)"
  define c1 where "c1 = (set_header ''Content-Type'' (content_type ?name)
      (set_header ''Content-Length'' (show_nat (o_size f)) ((out_start c)\<lparr>file_name := ?name,
        file_fd := o_fd f, file_content := o_content f, st_size := o_size f\<rparr>)))\<lparr>res_status := OK_status\<rparr>"
  have load: "load_file env (out_start c) = Ret (True, c1)"
    using f by (simp add: load_file_def c1_def Let_def)
  have c1: "already c1" "file_fd c1 = o_fd f" "st_size c1 = length (file_content c1)" "file_content c1 = o_content f"
    "res_status c1 = OK_status" "res_version c1 = rq_version (req_header c)"
    "res_headers c1 = [(''Content-Length'', show_nat (o_size f)), (''Content-Type'', content_type ?name)]"
    "socket_fd c1 = socket_fd (out_start c)" "epoll_fd c1 = epoll_fd (out_start c)" "ET c1 = ET (out_start c)"
    "one_shot c1 = one_shot (out_start c)" "status c1 = status (out_start c)"
    using assms(1) f by (simp_all add: c1_def set_header_def)
  have ans: "answered c1 c' w w' \<Longrightarrow> answered (out_start c) c' w w'" for c' w'
    using c1 by (simp add: answered_def)
  have "\<exists>c' n' w'. respond k env start_file c1 n w = Ret (True, c', n', w') \<and>
      put_out (file_head env (rq_version (req_header c)) ?name (o_size f) @ take (st_size c1) (file_content c1)) n n' \<and>
      answered c1 c' w w' \<and> Close_fd (file_fd c1) \<in> set (calls w')"
    by (rule respond_file) (use c1 f bytes assms(2) in \<open>simp_all add: file_head_def\<close>)
  with get_serves [OF assms(3-5)] load c1 ans bytes(1) show ?thesis
    by (auto simp: serve_file_def answers_def)
qed

section \<open>Properties\<close>

text \<open>C28: A filter that refuses a request is final: whatever routes and files there are, the answer
  is the page of \<open>403 Forbidden\<close>, and no file is opened.\<close>

theorem filter_refuses_request:
  assumes "already c" "0 < k" "match_filter (filters env) (rq_url (req_header c)) = Some f"
    and "\<not> f (out_start c)"
    and "txt = page_head env (rq_version (req_header c)) Forbidden @ error_page Forbidden"
    and "length txt < 2 ^ 64" "flows (length txt) n"
  shows "answers (http_process_out k env c n w) txt c n w"
  using out_page [OF assms(1,2,5-7)] assms(3,4) by (simp add: process_out_cases admitted_def)

text \<open>A method other than \<open>GET\<close> on a URL without router, or on a router that does not allow
  it, is answered with the page of \<open>405 Method Not Allowed\<close>.\<close>

theorem method_without_router:
  assumes "already c" "0 < k" "admitted env c" "rq_method (req_header c) \<noteq> GET"
    and "case routers env (rq_url (req_header c)) of None \<Rightarrow> True
         | Some r \<Rightarrow> \<not> router_allow r (rq_method (req_header c))"
    and "txt = page_head env (rq_version (req_header c)) Method_Not_Allowed @ error_page Method_Not_Allowed"
    and "length txt < 2 ^ 64" "flows (length txt) n"
  shows "answers (http_process_out k env c n w) txt c n w"
proof -
  have "http_process_out k env c n w =
      bind_out (method_not_allow k env (out_start c) n w) (\<lambda>(_, c1, n1, w1). Ret (True, c1, n1, w1))"
    using assms(3-5) by (auto simp: process_out_cases process_other_def check_router_def split: option.splits)
  with out_page [OF assms(1,2,6-8), of w] show ?thesis
    by (auto simp: answers_def method_not_allow_def)
qed

text \<open>C13: A \<open>GET\<close> without router is answered with the file at \<open>base_path\<close> followed by the URL, for
  every URL: status 200, its size and type, then exactly its bytes. The file is closed, the socket
  waits for the next request, and with HTTP/1.0 the connection closes itself.\<close>

theorem get_serves_file:
  assumes "already c" "0 < k" "admitted env c" "rq_method (req_header c) = GET"
    and "routers env (rq_url (req_header c)) = None"
    and f: "open_file env (base_path env @ rq_url (req_header c)) = Some f" "o_roth f" "\<not> o_dir f"
      "o_fd f \<noteq> - 1" "o_size f = length (o_content f)"
    and bytes: "txt = file_head env (rq_version (req_header c)) (base_path env @ rq_url (req_header c)) (o_size f) @
      o_content f" "length txt < 2 ^ 63" "flows (length txt) n"
  shows "answers (http_process_out k env c n w) txt c n w"
  by (rule serve_existing [OF assms])

text \<open>C37: A file the server may open but the world may not read (or a directory) is refused in the
  header only: the result of \<open>load_file\<close> is not looked at, the descriptor stays open, and after the
  header of the \<open>403\<close> page the bytes of the file itself go out.\<close>

theorem unreadable_file_is_sent:
  assumes "already c" "0 < k" "admitted env c" "rq_method (req_header c) = GET"
    and "routers env (rq_url (req_header c)) = None"
    and f: "open_file env (base_path env @ rq_url (req_header c)) = Some f" "\<not> o_roth f"
      "o_fd f \<noteq> - 1" "o_size f = length (o_content f)"
    and bytes: "txt = page_head env (rq_version (req_header c)) Forbidden @ o_content f"
      "length txt < 2 ^ 63" "flows (length txt) n"
  shows "answers (http_process_out k env c n w) txt c n w"
proof -
  let ?name = "base_path env @ rq_url (req_header c)"
  define c1 where "c1 = set_content_length ((out_start c)\<lparr>file_name := ?name, file_fd := o_fd f,
      file_content := o_content f, st_size := o_size f, res_status := Forbidden,
      body_text := error_page Forbidden\<rparr>)"
  have load: "load_file env (out_start c) = Ret (False, c1)"
    using f by (simp add: load_file_def file_error_def build_body_page c1_def Let_def)
  have c1: "already c1" "file_fd c1 = o_fd f" "st_size c1 = length (file_content c1)" "file_content c1 = o_content f"
    "res_status c1 = Forbidden" "res_version c1 = rq_version (req_header c)"
    "res_headers c1 = [(''Content-Length'', show_nat (length (error_page Forbidden)))]"
    "socket_fd c1 = socket_fd (out_start c)" "epoll_fd c1 = epoll_fd (out_start c)" "ET c1 = ET (out_start c)"
    "one_shot c1 = one_shot (out_start c)" "status c1 = status (out_start c)"
    using assms(1) f by (simp_all add: c1_def set_content_length_def set_header_def)
  have ans: "answered c1 c' w w' \<Longrightarrow> answered (out_start c) c' w w'" for c' w'
    using c1 by (simp add: answered_def)
  have "\<exists>c' n' w'. respond k env start_file c1 n w = Ret (True, c', n', w') \<and>
      put_out (page_head env (rq_version (req_header c)) Forbidden @ take (st_size c1) (file_content c1)) n n' \<and>
      answered c1 c' w w' \<and> Close_fd (file_fd c1) \<in> set (calls w')"
    by (rule respond_file) (use c1 f bytes assms(2) in \<open>simp_all add: page_head_def\<close>)
  with get_serves [OF assms(3-5)] load c1 ans bytes(1) show ?thesis
    by (auto simp: serve_file_def answers_def)
qed

text \<open>A \<open>GET\<close> for a file that does not exist is answered with the page of \<open>404 Not Found\<close>.\<close>

theorem missing_file_not_found:
  assumes "already c" "0 < k" "admitted env c" "rq_method (req_header c) = GET"
    and "routers env (rq_url (req_header c)) = None"
    and f: "open_file env (base_path env @ rq_url (req_header c)) = None"
    and bytes: "txt = page_head env (rq_version (req_header c)) Not_Found @ error_page Not_Found"
      "length txt < 2 ^ 63" "flows (length txt) n"
  shows "answers (http_process_out k env c n w) txt c n w"
proof -
  define c1 where "c1 = set_content_length ((out_start c)\<lparr>file_name := base_path env @ rq_url (req_header c),
      file_fd := - 1, res_status := Not_Found, body_text := error_page Not_Found\<rparr>)"
  have load: "load_file env (out_start c) = Ret (False, c1)"
    using f by (simp add: load_file_def file_error_def build_body_page c1_def Let_def)
  have c1: "already c1" "file_fd c1 = - 1" "body_text c1 = error_page Not_Found"
    "res_status c1 = Not_Found" "res_version c1 = rq_version (req_header c)"
    "res_headers c1 = [(''Content-Length'', show_nat (length (error_page Not_Found)))]"
    "socket_fd c1 = socket_fd (out_start c)" "epoll_fd c1 = epoll_fd (out_start c)" "ET c1 = ET (out_start c)"
    "one_shot c1 = one_shot (out_start c)" "status c1 = status (out_start c)"
    using assms(1) by (simp_all add: c1_def set_content_length_def set_header_def)
  have ans: "answered c1 c' w w' \<Longrightarrow> answered (out_start c) c' w w'" for c' w'
    using c1 by (simp add: answered_def)
  have "\<exists>c' n' w'. respond k env start_file c1 n w = Ret (True, c', n', w') \<and>
      put_out (page_head env (rq_version (req_header c)) Not_Found @ body_text c1) n n' \<and> answered c1 c' w w'"
    by (rule respond_text) (use c1 bytes assms(2) in \<open>simp_all add: page_head_def\<close>)
  with get_serves [OF assms(3-5)] load c1 ans bytes(1) show ?thesis
    by (auto simp: serve_file_def answers_def)
qed

text \<open>A \<open>POST\<close> request without \<open>Content-Length\<close> is undefined behaviour: element 0 of an empty
  vector is read, however the request arrives.\<close>

theorem post_without_length_undefined:
  assumes "already c" "request_fits k path kvs hs" "0 < k"
    and "wire_in n = request_text POST (show_url path kvs) v hs @ CR # LF # body"
    and "length (wire_in n) < 2 ^ 63" "recv_script n = map Arrived ks @ [Recv_error EAGAIN]"
    and "consumed ks (wire_in n)" "''Content-Length'' \<notin> fst ` set hs"
  shows "http_process_in k c n w = Undef"
proof -
  have "foldl put_header m hs ''Content-Length'' = m ''Content-Length''" for m
    using assms(8)
  proof (induction hs arbitrary: m)
    case (Cons h hs)
    then show ?case by (auto simp: put_header_def)
  qed simp
  then have "first_value ''Content-Length'' (rq_headers (parsed POST path kvs v hs)) = Undef"
    by (simp add: first_value_def parsed_def)
  then show ?thesis
    using process_in_request [OF assms(1,2,4-7), of w] assms(3) by (cases k) auto
qed


section \<open>Examples\<close>

definition site :: http_env where
  "site = \<lparr>base_path = ''/srv'',
     open_file = [''/srv/a.html'' \<mapsto> \<lparr>o_fd = 9, o_content = ''hello'', o_size = 5, o_roth = True, o_dir = False\<rparr>,
                  ''/srv/key'' \<mapsto> \<lparr>o_fd = 9, o_content = ''secret'', o_size = 6, o_roth = False, o_dir = False\<rparr>],
     routers = Map.empty, filters = register_filter (\<lambda>c. False) ''/private'' new_node,
     header_order = (\<lambda>hs. hs)\<rparr>"

definition new_http :: http where
  "new_http = conn.extend new_conn
     (http.fields old_request empty_body HTTP_1_1 OK_status [] [] [] [] (- 1) [] 0)"

definition asking :: "http_Methods \<Rightarrow> string \<Rightarrow> http" where
  "asking m url = new_http\<lparr>req_header := \<lparr>rq_method = m, rq_url = url, rq_version = HTTP_1_1,
     rq_parameters = Map.empty, rq_headers = Map.empty\<rparr>\<rparr>"

definition quiet_world :: world where
  "quiet_world = \<lparr>calls = [], cq = []\<rparr>"

definition open_net :: net where
  "open_net = idle_net (replicate 400 (Room 7)) [] []"

lemma asking_facts:
  "already (asking m url)" "rq_method (req_header (asking m url)) = m" "rq_url (req_header (asking m url)) = url"
  "rq_version (req_header (asking m url)) = HTTP_1_1"
  by (simp_all add: asking_def new_http_def conn.extend_def http.fields_def new_conn_def sock.extend_def new_sock_def)

lemma open_net_flows: "m \<le> 400 \<Longrightarrow> flows m open_net"
  by (simp add: flows_def open_net_def idle_net_def list_all_iff)

lemma site_filter:
  "match_filter (filters site) ''/private'' = Some (\<lambda>c. False)"
  "match_filter (filters site) ''/a.html'' = None" "match_filter (filters site) ''/key'' = None"
  "match_filter (filters site) ''/none'' = None"
  by (simp_all add: site_def register_filter_def register_walk.simps match_filter_def match_walk.simps
      new_node_def find_char_def Let_def)

lemma site_admits:
  "admitted site (asking m ''/a.html'')" "admitted site (asking m ''/key'')"
  "admitted site (asking m ''/none'')"
  by (simp_all add: admitted_def asking_facts site_filter)

lemmas text_evals = page_head_def error_page_def head_text_def header_lines_def file_head_def site_def
  reason_of_def status_text_def http_status_map_def version_text_def http_version_map_def show_int_def
  show_nat.simps content_type_def http_content_type_map_def find_last_of_def

theorem get_serves_file_witness:
  "answers (http_process_out 5 site (asking GET ''/a.html'') open_net quiet_world)
     (file_head site HTTP_1_1 ''/srv/a.html'' 5 @ ''hello'') (asking GET ''/a.html'') open_net quiet_world"
  by (rule get_serves_file [OF _ _ site_admits(1),
        where f = "\<lparr>o_fd = 9, o_content = ''hello'', o_size = 5, o_roth = True, o_dir = False\<rparr>"])
     (simp_all add: asking_facts open_net_flows text_evals)

theorem unreadable_file_is_sent_witness:
  "answers (http_process_out 5 site (asking GET ''/key'') open_net quiet_world)
     (page_head site HTTP_1_1 Forbidden @ ''secret'') (asking GET ''/key'') open_net quiet_world"
  by (rule unreadable_file_is_sent [OF _ _ site_admits(2),
        where f = "\<lparr>o_fd = 9, o_content = ''secret'', o_size = 6, o_roth = False, o_dir = False\<rparr>"])
     (simp_all add: asking_facts open_net_flows text_evals)

theorem missing_file_not_found_witness:
  "answers (http_process_out 5 site (asking GET ''/none'') open_net quiet_world)
     (page_head site HTTP_1_1 Not_Found @ error_page Not_Found) (asking GET ''/none'') open_net quiet_world"
  by (rule missing_file_not_found [OF _ _ site_admits(3)])
     (simp_all add: asking_facts open_net_flows text_evals)

theorem method_without_router_witness:
  "answers (http_process_out 5 site (asking DELETE ''/a.html'') open_net quiet_world)
     (page_head site HTTP_1_1 Method_Not_Allowed @ error_page Method_Not_Allowed)
     (asking DELETE ''/a.html'') open_net quiet_world"
  by (rule method_without_router [OF _ _ site_admits(1)])
     (simp_all add: asking_facts open_net_flows text_evals)

theorem filter_refuses_request_witness:
  "answers (http_process_out 5 site (asking GET ''/private'') open_net quiet_world)
     (page_head site HTTP_1_1 Forbidden @ error_page Forbidden) (asking GET ''/private'') open_net quiet_world"
proof -
  have m: "match_filter (filters site) (rq_url (req_header (asking GET ''/private''))) = Some (\<lambda>c. False)"
    by (simp add: asking_facts site_filter)
  show ?thesis
    by (rule filter_refuses_request [OF _ _ m]) (simp_all add: asking_facts open_net_flows text_evals)
qed

definition arriving :: "string \<Rightarrow> net" where
  "arriving req = idle_net (replicate 400 (Room 7)) [Arrived 10, Arrived 4000, Recv_error EAGAIN] req"

definition get_request :: string where
  "get_request = request_text GET (show_url ''/a.html'' [(''x'', ''1'')]) HTTP_1_1 [(''Host'', ''me'')] @ [CR, LF]"

definition post_request :: string where
  "post_request = request_text POST (show_url ''/form'' []) HTTP_1_1 [(''Host'', ''me'')] @ [CR, LF] @ ''a=1''"

lemmas request_evals = request_text_def method_text_def version_text_def http_method_map_def
  http_version_map_def show_header_def get_request_def post_request_def

lemma new_http_already: "already new_http"
  by (simp add: new_http_def conn.extend_def http.fields_def new_conn_def sock.extend_def new_sock_def)

lemma requests_fit:
  "request_fits 5 ''/a.html'' [(''x'', ''1'')] [(''Host'', ''me'')]" "request_fits 5 ''/form'' [] [(''Host'', ''me'')]"
  by (simp_all add: request_fits_def url_chars_def query_ok_def query_key_def query_value_def
      clean_header_def header_ok_def)

lemma arriving_facts:
  "wire_in (arriving req) = req" "recv_script (arriving req) = map Arrived [10, 4000] @ [Recv_error EAGAIN]"
  "m \<le> 400 \<Longrightarrow> flows m (arriving req)"
  by (simp_all add: arriving_def idle_net_def flows_def list_all_iff)

lemma site_page:
  "routers site u = None" "base_path site = ''/srv''"
  "open_file site ''/srv/a.html'' = Some \<lparr>o_fd = 9, o_content = ''hello'', o_size = 5, o_roth = True, o_dir = False\<rparr>"
  by (simp_all add: site_def)


theorem post_without_length_undefined_witness:
  "http_process_in 5 new_http (arriving post_request) quiet_world = Undef"
proof -
  have wire: "wire_in (arriving post_request) =
      request_text POST (show_url ''/form'' []) HTTP_1_1 [(''Host'', ''me'')] @ CR # LF # ''a=1''"
    by (simp add: arriving_facts post_request_def)
  show ?thesis
    by (rule post_without_length_undefined [OF new_http_already requests_fit(2) _ wire _ arriving_facts(2)])
       (simp_all add: arriving_facts request_evals)
qed

end
