(* ===== verification/ThreadPool.thy ===== *)
theory ThreadPool
  imports LockQueue
begin

text \<open>
  \<open>threadpool<T>\<close> and \<open>counting_semaphore\<close> of \<open>src/core/include/threadpool.h\<close>. The pool has
  one producer, the event loop that owns it and calls \<open>add\<close>, and \<open>thread_count\<close> workers
  in \<open>run\<close>. Each access of the queue or the semaphore takes its mutex on its own, so between
  two of them another thread may run: a program counter per thread says where it is.
\<close>

section \<open>The counting semaphore\<close>

text \<open>\<open>acquire\<close> waits while the count is 0: it is a step only when it is not.\<close>

definition sem_acquire :: "nat \<Rightarrow> nat option" where
  "sem_acquire c = (if c > 0 then Some (c - 1) else None)"

definition sem_release :: "nat \<Rightarrow> nat" where
  "sem_release c = c + 1"

section \<open>The pool\<close>

datatype 'a wpc = At_loop | At_acquire | At_empty_check | At_pop | Running 'a | Exited

datatype 'a ppc = Outside | At_push 'a | At_release

record 'a pool =
  max_process_count :: int
  process_pool :: "'a option lock_queue"
  sem :: nat
  stop :: bool
  threads :: "'a wpc list"
  producer :: "'a ppc"
  pushed :: "'a list"
  started :: "'a list"

text \<open>
  \<open>pushed\<close> and \<open>started\<close> are histories, read by no step: what \<open>add\<close> put into the queue and
  what workers took out. The constructor exits the process on a bad count.
\<close>

definition new_pool :: "int \<Rightarrow> int \<Rightarrow> 'a pool option" where
  "new_pool thread_count mpc =
     (if thread_count \<le> 0 \<or> mpc \<le> 0 then None
      else Some \<lparr>max_process_count = mpc, process_pool = [], sem = 0, stop = False,
                 threads = replicate (nat thread_count) At_loop, producer = Outside,
                 pushed = [], started = []\<rparr>)"

text \<open>\<open>add\<close>: the size check, the push and the release are three steps.\<close>

definition add_enter :: "'a \<Rightarrow> 'a pool \<Rightarrow> 'a pool option" where
  "add_enter t p =
     (if int (lq_size (process_pool p)) \<ge> max_process_count p then None
      else Some (p\<lparr>producer := At_push t\<rparr>))"

definition add_push :: "'a \<Rightarrow> 'a pool \<Rightarrow> 'a pool" where
  "add_push t p =
     p\<lparr>process_pool := lq_push (Some t) (process_pool p), producer := At_release,
       pushed := pushed p @ [t]\<rparr>"

definition add_release :: "'a pool \<Rightarrow> 'a pool" where
  "add_release p = p\<lparr>sem := sem_release (sem p), producer := Outside\<rparr>"

text \<open>\<open>add\<close> run without interruption: its return value and effect as the caller sees them.\<close>

definition add :: "'a \<Rightarrow> 'a pool \<Rightarrow> bool \<times> 'a pool" where
  "add t p =
     (case add_enter t p of
        None \<Rightarrow> (False, p)
      | Some p1 \<Rightarrow> (True, add_release (add_push t p1)))"

text \<open>One step of a worker in \<open>run\<close>; \<open>None\<close>: it has to wait, or has returned.\<close>

fun worker_step :: "nat \<Rightarrow> 'a pool \<Rightarrow> 'a pool option" where
  "worker_step i p =
     (case threads p ! i of
        At_loop \<Rightarrow> Some (p\<lparr>threads := (threads p)[i := if stop p then Exited else At_acquire]\<rparr>)
      | At_acquire \<Rightarrow>
          map_option (\<lambda>c. p\<lparr>sem := c, threads := (threads p)[i := At_empty_check]\<rparr>)
            (sem_acquire (sem p))
      | At_empty_check \<Rightarrow>
          Some (p\<lparr>threads := (threads p)[i := if lq_empty (process_pool p) then At_loop else At_pop]\<rparr>)
      | At_pop \<Rightarrow>
          (case lq_pop_ptr (process_pool p) of
             (_, None, q) \<Rightarrow> Some (p\<lparr>process_pool := q, threads := (threads p)[i := At_loop]\<rparr>)
           | (_, Some con, q) \<Rightarrow>
               Some (p\<lparr>process_pool := q, threads := (threads p)[i := Running con],
                       started := started p @ [con]\<rparr>))
      | Running con \<Rightarrow> Some (p\<lparr>threads := (threads p)[i := At_loop]\<rparr>)
      | Exited \<Rightarrow> None)"

declare worker_step.simps [simp del]

inductive pool_step :: "'a pool \<Rightarrow> 'a pool \<Rightarrow> bool" where
  enter: "producer p = Outside \<Longrightarrow> add_enter t p = Some p' \<Longrightarrow> pool_step p p'"
| push: "producer p = At_push t \<Longrightarrow> pool_step p (add_push t p)"
| release: "producer p = At_release \<Longrightarrow> pool_step p (add_release p)"
| work: "i < length (threads p) \<Longrightarrow> worker_step i p = Some p' \<Longrightarrow> pool_step p p'"
| destroy: "pool_step p (p\<lparr>stop := True\<rparr>)"

inductive pool_reach :: "'a pool \<Rightarrow> bool" where
  new: "new_pool n m = Some p \<Longrightarrow> pool_reach p"
| step: "pool_reach p \<Longrightarrow> pool_step p p' \<Longrightarrow> pool_reach p'"

section \<open>The invariant\<close>

text \<open>Every element of the queue is matched by a unit of the semaphore, by a worker that took
  a unit and has not popped yet, or by the producer between push and release.\<close>

fun holds_unit :: "'a wpc \<Rightarrow> bool" where
  "holds_unit At_empty_check = True"
| "holds_unit At_pop = True"
| "holds_unit _ = False"

definition holders :: "'a pool \<Rightarrow> nat" where
  "holders p = length (filter holds_unit (threads p))"

definition in_push :: "'a pool \<Rightarrow> nat" where
  "in_push p = (if producer p = At_release then 1 else 0)"

definition pool_inv :: "'a pool \<Rightarrow> bool" where
  "pool_inv p \<longleftrightarrow>
     length (process_pool p) = sem p + holders p + in_push p \<and>
     pushed p = started p @ map the (process_pool p) \<and> None \<notin> set (process_pool p) \<and>
     int (length (process_pool p)) \<le> max_process_count p \<and>
     (\<forall>t. producer p = At_push t \<longrightarrow> int (length (process_pool p)) < max_process_count p)"

lemma length_filter_update:
  "i < length xs \<Longrightarrow>
   length (filter P (xs[i := y])) + (if P (xs ! i) then 1 else 0) =
   length (filter P xs) + (if P y then 1 else 0)"
proof (induction xs arbitrary: i)
  case (Cons x xs)
  then show ?case by (cases i) auto
qed simp

lemma holder_in_bounds:
  assumes "i < length (threads p)" "holds_unit (threads p ! i)"
  shows "0 < holders p"
proof -
  have "threads p ! i \<in> set (filter holds_unit (threads p))" using assms by simp
  then show ?thesis unfolding holders_def by (metis length_pos_if_in_set)
qed

lemma pool_inv_new: "new_pool n m = Some p \<Longrightarrow> pool_inv p"
  by (auto simp: new_pool_def pool_inv_def holders_def in_push_def split: if_splits)

lemma pool_inv_producer:
  "pool_inv p \<Longrightarrow> producer p = Outside \<Longrightarrow> add_enter t p = Some p' \<Longrightarrow> pool_inv p'"
  "pool_inv p \<Longrightarrow> producer p = At_push t \<Longrightarrow> pool_inv (add_push t p)"
  "pool_inv p \<Longrightarrow> producer p = At_release \<Longrightarrow> pool_inv (add_release p)"
  "pool_inv p \<Longrightarrow> pool_inv (p\<lparr>stop := b\<rparr>)"
  by (auto simp: pool_inv_def add_enter_def add_push_def add_release_def sem_release_def
      holders_def in_push_def queue_simps split: if_splits)

text \<open>A worker that moves a thread between two places changes the holders by at most one.\<close>

lemma holders_update:
  assumes "i < length (threads p)"
  shows "holders (p\<lparr>threads := (threads p)[i := w]\<rparr>) + (if holds_unit (threads p ! i) then 1 else 0) =
    holders p + (if holds_unit w then 1 else 0)"
  using length_filter_update [OF assms, of holds_unit w] by (simp add: holders_def)

lemma pool_inv_frame:
  assumes "pool_inv p" "holders q = holders p" "process_pool q = process_pool p" "sem q = sem p"
    "producer q = producer p" "pushed q = pushed p" "started q = started p"
    "max_process_count q = max_process_count p"
  shows "pool_inv q"
  using assms unfolding pool_inv_def in_push_def by metis

lemma pool_inv_worker:
  assumes inv: "pool_inv p" and i: "i < length (threads p)" and w: "worker_step i p = Some p'"
  shows "pool_inv p'"
proof (cases "threads p ! i")
  case At_loop
  with w i holders_update [OF i] show ?thesis
    by (intro pool_inv_frame [OF inv]) (auto simp: worker_step.simps)
next
  case At_acquire
  with w obtain c where c: "sem p = Suc c"
    and p': "p' = p\<lparr>sem := c, threads := (threads p)[i := At_empty_check]\<rparr>"
    by (auto simp: worker_step.simps sem_acquire_def gr0_conv_Suc split: if_splits)
  have "holders p' = Suc (holders p)"
    using holders_update [OF i, of At_empty_check] At_acquire by (simp add: p' holders_def)
  with inv c show ?thesis by (auto simp: pool_inv_def p' in_push_def)
next
  case At_empty_check
  then have "0 < holders p" using holder_in_bounds [OF i] by simp
  with inv have "process_pool p \<noteq> []" by (auto simp: pool_inv_def)
  with w At_empty_check holders_update [OF i, of At_pop] show ?thesis
    by (intro pool_inv_frame [OF inv]) (auto simp: worker_step.simps queue_simps)
next
  case At_pop
  then have pos: "0 < holders p" using holder_in_bounds [OF i] by simp
  with inv obtain x q where q: "process_pool p = x # q"
    by (cases "process_pool p") (auto simp: pool_inv_def)
  with inv obtain t where t: "x = Some t" by (cases x) (auto simp: pool_inv_def)
  from w At_pop q t have p': "p' = p\<lparr>process_pool := q, threads := (threads p)[i := Running t],
      started := started p @ [t]\<rparr>"
    by (simp add: worker_step.simps queue_simps)
  have "Suc (holders p') = holders p"
    using holders_update [OF i, of "Running t"] At_pop by (simp add: p' holders_def)
  with inv q t show ?thesis by (auto simp: pool_inv_def p' in_push_def)
next
  case (Running x)
  with w i holders_update [OF i] show ?thesis
    by (intro pool_inv_frame [OF inv]) (auto simp: worker_step.simps)
next
  case Exited
  with w show ?thesis by (simp add: worker_step.simps)
qed

lemma pool_inv_step: "pool_step p p' \<Longrightarrow> pool_inv p \<Longrightarrow> pool_inv p'"
  by (induction rule: pool_step.induct) (auto intro: pool_inv_producer pool_inv_worker)

lemma pool_reach_inv: "pool_reach p \<Longrightarrow> pool_inv p"
  by (induction rule: pool_reach.induct) (auto intro: pool_inv_new pool_inv_step)

text \<open>The uninterrupted \<open>add\<close> is a run of the producer's steps.\<close>

lemma add_steps:
  assumes "producer p = Outside" "add t p = (b, p')"
  shows "pool_step\<^sup>*\<^sup>* p p'"
proof (cases "add_enter t p")
  case None
  with assms(2) show ?thesis by (simp add: add_def)
next
  case (Some p1)
  then have pc: "producer p1 = At_push t" by (auto simp: add_enter_def split: if_splits)
  have "producer (add_push t p1) = At_release" by (simp add: add_push_def)
  with pool_step.release have "pool_step (add_push t p1) p'"
    using assms(2) Some by (fastforce simp: add_def)
  with pool_step.enter [OF assms(1) Some] pool_step.push [OF pc] show ?thesis
    by (blast intro: rtranclp.intros)
qed

lemma add_result:
  "fst (add t p) \<longleftrightarrow> int (length (process_pool p)) < max_process_count p"
  "\<not> fst (add t p) \<Longrightarrow> snd (add t p) = p"
  "fst (add t p) \<Longrightarrow> process_pool (snd (add t p)) = process_pool p @ [Some t]"
  "fst (add t p) \<Longrightarrow> sem (snd (add t p)) = Suc (sem p)"
  by (auto simp: add_def add_enter_def add_push_def add_release_def sem_release_def queue_simps)

section \<open>After destruction\<close>

text \<open>The destructor only sets \<open>stop\<close>. No \<open>add\<close> follows it, so only workers move.\<close>

inductive shutdown_step :: "'a pool \<Rightarrow> 'a pool \<Rightarrow> bool" where
  work: "i < length (threads p) \<Longrightarrow> worker_step i p = Some p' \<Longrightarrow> shutdown_step p p'"
| destroy: "shutdown_step p (p\<lparr>stop := True\<rparr>)"

lemma shutdown_stuck:
  "shutdown_step p p' \<Longrightarrow> sem p = 0 \<Longrightarrow> list_all (\<lambda>w. w = At_acquire) (threads p) \<Longrightarrow>
   sem p' = 0 \<and> threads p' = threads p"
  by (induction rule: shutdown_step.induct)
     (auto simp: worker_step.simps sem_acquire_def list_all_length)

lemma shutdown_steps_stuck:
  "shutdown_step\<^sup>*\<^sup>* p p' \<Longrightarrow> sem p = 0 \<Longrightarrow> list_all (\<lambda>w. w = At_acquire) (threads p) \<Longrightarrow>
   sem p' = 0 \<and> threads p' = threads p"
  by (induction rule: rtranclp_induct) (auto dest: shutdown_stuck)

section \<open>Properties\<close>

definition example_pool :: "nat pool" where
  "example_pool =
     \<lparr>max_process_count = 2, process_pool = [Some 7], sem = 0, stop = False,
      threads = [At_empty_check], producer = Outside, pushed = [7], started = []\<rparr>"

lemma example_pool_reach: "pool_reach example_pool"
proof -
  let ?p = "\<lambda>q s w pr pu. \<lparr>max_process_count = 2, process_pool = q, sem = s, stop = False,
    threads = [w], producer = pr, pushed = pu, started = []\<rparr> :: nat pool"
  have "pool_reach (?p [] 0 At_loop Outside [])"
    by (rule pool_reach.new [of 1 2]) (simp add: new_pool_def)
  then have "pool_reach (?p [] 0 At_loop (At_push 7) [])"
    by (rule pool_reach.step) (rule pool_step.enter [of _ 7], simp_all add: add_enter_def queue_simps)
  then have "pool_reach (?p [Some 7] 0 At_loop At_release [7])"
    using pool_reach.step pool_step.push [of "?p [] 0 At_loop (At_push 7) []" 7]
    by (fastforce simp: add_push_def queue_simps)
  then have "pool_reach (?p [Some 7] 1 At_loop Outside [7])"
    using pool_reach.step pool_step.release [of "?p [Some 7] 0 At_loop At_release [7]"]
    by (fastforce simp: add_release_def sem_release_def)
  then have "pool_reach (?p [Some 7] 1 At_acquire Outside [7])"
    by (rule pool_reach.step) (rule pool_step.work [of 0], simp_all add: worker_step.simps)
  then have "pool_reach (?p [Some 7] 0 At_empty_check Outside [7])"
    by (rule pool_reach.step)
       (rule pool_step.work [of 0], simp_all add: worker_step.simps sem_acquire_def)
  then show ?thesis by (simp add: example_pool_def)
qed

text \<open>C16: Every task that \<open>add\<close> accepted is started exactly once and in the order of acceptance:
  at any moment of any interleaving the accepted tasks are the started ones followed by those in
  the queue.\<close>

theorem tasks_exactly_once_in_order:
  assumes "pool_reach p"
  shows "pushed p = started p @ map the (process_pool p)"
  using pool_reach_inv [OF assms] by (simp add: pool_inv_def)

theorem tasks_exactly_once_in_order_witness:
  "pushed example_pool = started example_pool @ map the (process_pool example_pool)"
  by (rule tasks_exactly_once_in_order [OF example_pool_reach])

text \<open>The queue never holds more than \<open>max_process_count\<close> tasks.\<close>

theorem pool_queue_bounded:
  assumes "pool_reach p"
  shows "int (length (process_pool p)) \<le> max_process_count p"
  using pool_reach_inv [OF assms] by (simp add: pool_inv_def)

theorem pool_queue_bounded_witness:
  "int (length (process_pool example_pool)) \<le> max_process_count example_pool"
  by (rule pool_queue_bounded [OF example_pool_reach])

text \<open>A worker that got through \<open>sem.acquire()\<close> always finds a task, so neither of the two
  \<open>continue\<close> statements after it is ever taken, and its next two steps start that task.\<close>

theorem acquired_worker_gets_task:
  assumes "pool_reach p" "i < length (threads p)" "threads p ! i = At_empty_check"
  shows "\<exists>con q p1 p2. process_pool p = Some con # q \<and> worker_step i p = Some p1 \<and>
    worker_step i p1 = Some p2 \<and> threads p2 ! i = Running con \<and> process_pool p2 = q"
proof -
  have inv: "pool_inv p" by (rule pool_reach_inv [OF assms(1)])
  have "0 < holders p" using holder_in_bounds [OF assms(2)] assms(3) by simp
  with inv obtain x q where q: "process_pool p = x # q"
    by (cases "process_pool p") (auto simp: pool_inv_def)
  with inv obtain con where "x = Some con" by (cases x) (auto simp: pool_inv_def)
  with q assms show ?thesis by (auto simp: worker_step.simps queue_simps)
qed

theorem acquired_worker_gets_task_witness:
  "\<exists>con q p1 p2. process_pool example_pool = Some con # q \<and> worker_step 0 example_pool = Some p1 \<and>
    worker_step 0 p1 = Some p2 \<and> threads p2 ! 0 = Running con \<and> process_pool p2 = q"
  by (rule acquired_worker_gets_task [OF example_pool_reach]) (simp_all add: example_pool_def)



text \<open>Destroying the pool does not end its workers: with the workers waiting in
  \<open>acquire\<close> and the semaphore at 0, every one of them waits for ever, whatever happens next.\<close>

theorem destroyed_pool_workers_wait_forever:
  assumes "sem p = 0" "list_all (\<lambda>w. w = At_acquire) (threads p)"
    and "shutdown_step\<^sup>*\<^sup>* (p\<lparr>stop := True\<rparr>) p'"
  shows "threads p' = threads p \<and> Exited \<notin> set (threads p')"
proof -
  have "threads p' = threads p"
    using shutdown_steps_stuck [OF assms(3)] assms(1,2) by simp
  with assms(2) show ?thesis by (auto simp: list_all_iff)
qed

theorem destroyed_pool_workers_wait_forever_witness:
  "let p = example_pool\<lparr>threads := [At_acquire, At_acquire], process_pool := [], stop := True\<rparr> in
   shutdown_step\<^sup>*\<^sup>* p p \<and> threads p = [At_acquire, At_acquire] \<and> Exited \<notin> set (threads p)"
  using destroyed_pool_workers_wait_forever
    [of "example_pool\<lparr>threads := [At_acquire, At_acquire], process_pool := []\<rparr>"
        "example_pool\<lparr>threads := [At_acquire, At_acquire], process_pool := [], stop := True\<rparr>"]
  by (simp add: example_pool_def)

end
