(* ===== verification/ConvSingle.thy ===== *)
theory ConvSingle
  imports Conn ThreadPool
begin

text \<open>
  The single-reactor server, \<open>conv_single<T>::wait\<close> of \<open>src/core/conv_single.h\<close>: the table
  of connections, the removal macro, accepting, the dispatch of events, the close queue and the
  loop. Objects of type \<open>T\<close> live at addresses; \<open>objs\<close> is the heap, a deleted object is not in
  it, and following a null or dangling pointer is \<open>Undef\<close>. The methods of \<open>T\<close> and a freshly
  constructed \<open>T\<close> are parameters. With a thread pool an event only hands the object to
  \<open>threadpool::add\<close>.
\<close>

section \<open>The state\<close>

record 'a server =
  connects :: "int \<rightharpoonup> nat option"
  current_connect_count :: int
  max_connect_count :: int
  objs :: "nat \<rightharpoonup> 'a conn_scheme"
  conn_pool :: "connpool option"
  next_obj :: nat
  thread_pool :: "nat pool option"
  outside :: world
  srv_socket_fd :: int
  srv_epoll_fd :: int
  srv_ET :: bool
  srv_one_shot :: bool
  max_events_count :: int
  listen_queue_count :: int

text \<open>\<open>connects[fd]\<close> with \<open>unordered_map\<close>'s insertion of a null pointer for a missing key.\<close>

definition touch :: "int \<Rightarrow> 'a server \<Rightarrow> 'a server" where
  "touch fd s = (case connects s fd of None \<Rightarrow> s\<lparr>connects := (connects s)(fd \<mapsto> None)\<rparr> | Some _ \<Rightarrow> s)"

definition pointer_at :: "'a server \<Rightarrow> int \<Rightarrow> nat option" where
  "pointer_at s fd = (case connects s fd of None \<Rightarrow> None | Some p \<Rightarrow> p)"

section \<open>Construction and set-up\<close>

text \<open>
  The values the constructor reads from the configuration; an option is \<open>None\<close> when the key is
  absent. The switches of the thread and the object pool count as set when the key is present.
  \<open>None\<close> as a result: the process exits.
\<close>

record conf_values =
  cf_max_connect_count :: int
  cf_multi_thread :: "int option"
  cf_object_pool :: "int option"
  cf_one_shot :: "bool option"
  cf_et :: "bool option"
  cf_max_events_count :: "int option"
  cf_listen_queue_count :: "int option"
  cf_port_reuse :: "bool option"
  cf_address_reuse :: "bool option"

definition enable_multi_thread :: "int \<Rightarrow> int \<Rightarrow> 'a server \<Rightarrow> 'a server option" where
  "enable_multi_thread thread_count max_process s =
     (case thread_pool s of
        Some _ \<Rightarrow> Some s
      | None \<Rightarrow> map_option (\<lambda>tp. s\<lparr>thread_pool := Some tp\<rparr>) (new_pool thread_count max_process))"

definition enable_object_pool :: "size_t \<Rightarrow> 'a server \<Rightarrow> 'a server" where
  "enable_object_pool sz s =
     (case conn_pool s of
        Some _ \<Rightarrow> s
      | None \<Rightarrow> s\<lparr>conn_pool := Some (connpool_new (unat sz) (next_obj s))\<rparr>)"

definition set_max_events_count :: "int \<Rightarrow> 'a server \<Rightarrow> 'a server" where
  "set_max_events_count n s = (if n \<ge> 0 then s\<lparr>max_events_count := n\<rparr> else s)"

definition set_max_connect_count :: "int \<Rightarrow> 'a server \<Rightarrow> 'a server" where
  "set_max_connect_count n s = (if n \<ge> 0 then s\<lparr>max_connect_count := n\<rparr> else s)"

definition set_listen_queue_count :: "int \<Rightarrow> 'a server \<Rightarrow> 'a server" where
  "set_listen_queue_count n s = (if n \<ge> 0 then s\<lparr>listen_queue_count := n\<rparr> else s)"

definition disable_multi_thread :: "'a server \<Rightarrow> 'a server" where
  "disable_multi_thread s = s\<lparr>thread_pool := None\<rparr>"

definition disable_object_pool :: "'a server \<Rightarrow> 'a server" where
  "disable_object_pool s = s\<lparr>conn_pool := None, objs := delete_pool_objects (conn_pool s) (objs s)\<rparr>"

definition set_et :: "bool \<Rightarrow> 'a server \<Rightarrow> 'a server" where
  "set_et b s = s\<lparr>srv_ET := b\<rparr>"

definition set_one_shot :: "bool \<Rightarrow> 'a server \<Rightarrow> 'a server" where
  "set_one_shot b s = s\<lparr>srv_one_shot := b\<rparr>"

definition set_addr_reuse :: "bool \<Rightarrow> 'a server \<Rightarrow> 'a server" where
  "set_addr_reuse b s =
     s\<lparr>outside := (outside s)\<lparr>calls := calls (outside s) @ [Set_reuse_addr (srv_socket_fd s) b]\<rparr>\<rparr>"

definition set_port_reuse :: "bool \<Rightarrow> 'a server \<Rightarrow> 'a server" where
  "set_port_reuse b s =
     s\<lparr>outside := (outside s)\<lparr>calls := calls (outside s) @ [Set_reuse_port (srv_socket_fd s) b]\<rparr>\<rparr>"

definition blank_server :: "'a server" where
  "blank_server =
     \<lparr>connects = Map.empty, current_connect_count = 0, max_connect_count = 200000,
      objs = Map.empty, conn_pool = None, next_obj = 0, thread_pool = None,
      outside = \<lparr>calls = [], cq = []\<rparr>, srv_socket_fd = - 1, srv_epoll_fd = - 1,
      srv_ET = False, srv_one_shot = True, max_events_count = 4096, listen_queue_count = 1024\<rparr>"

definition opt_set :: "'b option \<Rightarrow> ('b \<Rightarrow> 's \<Rightarrow> 's) \<Rightarrow> 's \<Rightarrow> 's" where
  "opt_set v f s = (case v of None \<Rightarrow> s | Some x \<Rightarrow> f x s)"

definition conv_single_new :: "conf_values \<Rightarrow> int \<Rightarrow> 'a server option" where
  "conv_single_new cf socket_ret =
     (let s0 = blank_server\<lparr>max_connect_count := cf_max_connect_count cf\<rparr> in
      case (case cf_multi_thread cf of None \<Rightarrow> Some s0 | Some n \<Rightarrow> enable_multi_thread n 40000 s0) of
        None \<Rightarrow> None
      | Some s1 \<Rightarrow>
          (let s2 = opt_set (cf_object_pool cf) (\<lambda>n. enable_object_pool (to_size_t n)) s1;
               s3 = opt_set (cf_one_shot cf) set_one_shot s2;
               s4 = opt_set (cf_et cf) set_et s3;
               s5 = opt_set (cf_max_events_count cf) (\<lambda>n s. s\<lparr>max_events_count := n\<rparr>) s4;
               s6 = opt_set (cf_listen_queue_count cf) (\<lambda>n s. s\<lparr>listen_queue_count := n\<rparr>) s5
           in if socket_ret < 0 then None
              else
                let s7 = s6\<lparr>srv_socket_fd := socket_ret\<rparr>;
                    s8 = (if cf_port_reuse cf = Some True then set_port_reuse True s7 else s7)
                in Some (if cf_address_reuse cf = Some True then set_addr_reuse True s8 else s8)))"

text \<open>What \<open>wait\<close> does before the loop, with the results of its four system calls.\<close>

record startup =
  bind_ret :: int
  epoll_create_ret :: int
  listen_ret :: int
  register_ret :: int

definition wait_start :: "startup \<Rightarrow> 'a server \<Rightarrow> 'a server option" where
  "wait_start r s =
     (if bind_ret r < 0 then None
      else
        let s1 = (if srv_epoll_fd s = - 1 then s\<lparr>srv_epoll_fd := epoll_create_ret r\<rparr> else s) in
        if srv_epoll_fd s1 < 0 then None
        else if listen_ret r < 0 then None
        else if register_ret r < 0 then None
        else Some (s1\<lparr>outside := (outside s1)\<lparr>calls := calls (outside s1) @
                       epoll_add (srv_epoll_fd s1) (srv_socket_fd s1) (srv_ET s1) False False\<rparr>\<rparr>))"

section \<open>Objects\<close>

definition take_object :: "'a conn_scheme \<Rightarrow> 'a server \<Rightarrow> nat \<times> 'a server" where
  "take_object fresh s =
     (case conn_pool s of
        Some p \<Rightarrow>
          (let (t, p') = pool_acquire p in
           (t, s\<lparr>conn_pool := Some p',
                 objs := (case objs s t of None \<Rightarrow> (objs s)(t \<mapsto> fresh) | Some _ \<Rightarrow> objs s)\<rparr>))
      | None \<Rightarrow>
          (let (t, a) = heap_get (next_obj s) in
           (t, s\<lparr>next_obj := a, objs := (objs s)(t \<mapsto> fresh)\<rparr>)))"

definition put_object :: "nat \<Rightarrow> 'a server \<Rightarrow> 'a server" where
  "put_object t s =
     (case conn_pool s of
        Some p \<Rightarrow> s\<lparr>conn_pool := Some (pool_release t p)\<rparr>
      | None \<Rightarrow> s\<lparr>next_obj := heap_put t (next_obj s), objs := (objs s)(t := None)\<rparr>)"

section \<open>The operations of the loop\<close>

text \<open>\<open>CONNECTS_REMOVE_FD\<close>.\<close>

definition connects_remove_fd :: "int \<Rightarrow> 'a server \<Rightarrow> 'a server outcome" where
  "connects_remove_fd fd s =
     (case pointer_at s fd of
        None \<Rightarrow> Undef
      | Some t \<Rightarrow>
          (case objs s t of
             None \<Rightarrow> Undef
           | Some c \<Rightarrow>
               (let (c', w') = conn_close c (outside s);
                    s1 = s\<lparr>objs := (objs s)(t \<mapsto> c'), outside := w',
                           current_connect_count := current_connect_count s - 1\<rparr>;
                    s2 = put_object t s1
                in Ret (s2\<lparr>connects := (connects s2)(fd := None)\<rparr>))))"

definition close_client :: "int \<Rightarrow> 'a server \<Rightarrow> 'a server" where
  "close_client fd s =
     s\<lparr>outside := (outside s)\<lparr>calls := calls (outside s) @ [Close_fd fd]\<rparr>\<rparr>"

text \<open>The listening socket is readable; \<open>accept\<close> returned \<open>client_fd\<close>, which is not checked.\<close>

definition accept_client :: "'a conn_scheme \<Rightarrow> int \<Rightarrow> string \<Rightarrow> 'a server \<Rightarrow> 'a server outcome" where
  "accept_client fresh client_fd addr s =
     (if current_connect_count s \<ge> max_connect_count s then Ret (close_client client_fd s)
      else
        let refused =
              (case conn_pool s of
                 Some _ \<Rightarrow>
                   (let (t, s1) = take_object fresh s in
                    if pointer_at s1 client_fd \<noteq> None
                    then Inl (close_client client_fd (put_object t s1))
                    else Inr (t, s1))
               | None \<Rightarrow>
                   (if pointer_at s client_fd \<noteq> None then Inl (close_client client_fd s)
                    else Inr (take_object fresh s)))
        in case refused of
             Inl s' \<Rightarrow> Ret s'
           | Inr (t, s1) \<Rightarrow>
               (case objs s1 t of
                  None \<Rightarrow> Undef
                | Some c \<Rightarrow>
                    (let (c', w') = conn_init client_fd addr (srv_epoll_fd s1) (srv_ET s1)
                                      (srv_one_shot s1) True True c (outside s1)
                     in Ret (s1\<lparr>connects := (connects s1)(client_fd \<mapsto> Some t),
                                objs := (objs s1)(t \<mapsto> c'), outside := w',
                                current_connect_count := current_connect_count s1 + 1\<rparr>))))"

text \<open>
  An event on a connection: set the status, then give the object to the thread pool or call
  \<open>process\<close>. After \<open>RDHUP\<close> and \<open>ERROR\<close> the connection is removed in any case (\<open>always\<close>).
\<close>

definition dispatch :: "'a methods \<Rightarrow> Status \<Rightarrow> bool \<Rightarrow> int \<Rightarrow> 'a server \<Rightarrow> 'a server outcome" where
  "dispatch H st always fd s =
     (case pointer_at s fd of
        None \<Rightarrow> Undef
      | Some t \<Rightarrow>
          (case objs s t of
             None \<Rightarrow> Undef
           | Some c \<Rightarrow>
               (let s1 = s\<lparr>objs := (objs s)(t \<mapsto> c\<lparr>status := st\<rparr>)\<rparr> in
                case thread_pool s1 of
                  Some tp \<Rightarrow>
                    (let (ok, tp') = add t tp;
                         s2 = s1\<lparr>thread_pool := Some tp'\<rparr> in
                     if ok then Ret s2 else connects_remove_fd fd s2)
                | None \<Rightarrow>
                    (let (ret, c', w') = process H (c\<lparr>status := st\<rparr>) (outside s1);
                         s2 = s1\<lparr>objs := (objs s1)(t \<mapsto> c'), outside := w'\<rparr> in
                     if always \<or> \<not> ret then connects_remove_fd fd s2 else Ret s2))))"

record event =
  ev_fd :: int
  ev_events :: u32
  ev_client :: int
  ev_addr :: string

text \<open>The body of the \<open>for\<close> loop. \<open>ev_client\<close> and \<open>ev_addr\<close> are what \<open>accept\<close> gives, used
  for the listening socket only.\<close>

definition handle_event :: "'a methods \<Rightarrow> 'a conn_scheme \<Rightarrow> event \<Rightarrow> 'a server \<Rightarrow> 'a server outcome" where
  "handle_event H fresh e s =
     (if ev_fd e = srv_socket_fd s then accept_client fresh (ev_client e) (ev_addr e) s
      else if ev_events e AND EPOLLRDHUP \<noteq> 0 then dispatch H RDHUP True (ev_fd e) s
      else if ev_events e AND EPOLLERR \<noteq> 0 then dispatch H ERROR True (ev_fd e) s
      else if ev_events e AND EPOLLOUT \<noteq> 0 then dispatch H OUT False (ev_fd e) s
      else if ev_events e AND EPOLLIN \<noteq> 0 then dispatch H IN False (ev_fd e) s
      else connects_remove_fd (ev_fd e) s)"

fun handle_events ::
  "'a methods \<Rightarrow> 'a conn_scheme \<Rightarrow> event list \<Rightarrow> 'a server \<Rightarrow> 'a server outcome" where
  "handle_events H fresh [] s = Ret s"
| "handle_events H fresh (e # es) s =
     bind_out (handle_event H fresh e s) (handle_events H fresh es)"

lemma put_object_outside [simp]: "outside (put_object t s) = outside s"
  by (auto simp: put_object_def split: option.split)

lemma connects_remove_fd_cq:
  "connects_remove_fd fd s = Ret s' \<Longrightarrow> cq (outside s') = cq (outside s)"
  by (auto simp: connects_remove_fd_def conn_close_def Let_def split: option.splits if_splits)

text \<open>\<open>while(!close_queue->empty()) { ... }\<close>\<close>

function drain_close_queue :: "'a server \<Rightarrow> 'a server outcome" where
  "drain_close_queue s =
     (if lq_empty (cq (outside s)) then Ret s
      else
        let (_, fd, q) = lq_pop_int (cq (outside s));
            s1 = s\<lparr>outside := (outside s)\<lparr>cq := q\<rparr>\<rparr> in
        if fd = - 1 then drain_close_queue s1
        else if pointer_at s1 fd = None then drain_close_queue (touch fd s1)
        else (case connects_remove_fd fd s1 of
                Ret s2 \<Rightarrow> drain_close_queue s2
              | Throw \<Rightarrow> Throw | Undef \<Rightarrow> Undef | Blocked \<Rightarrow> Blocked | Abort \<Rightarrow> Abort))"
  by pat_completeness auto
termination
  by (relation "measure (\<lambda>s. length (cq (outside s)))")
     (auto simp: queue_simps touch_def neq_Nil_conv dest: connects_remove_fd_cq split: option.split if_splits)

declare drain_close_queue.simps [simp del]

text \<open>
  What ends one turn of the loop: the flag \<open>run\<close> was cleared by a signal, or what
  \<open>epoll_wait\<close> gave. \<open>close\<close> forgets the connections without closing them.
\<close>

datatype poll = Run_cleared | Poll_events "event list" | Poll_interrupted | Poll_failed

definition server_close :: "'a server \<Rightarrow> 'a server" where
  "server_close s =
     s\<lparr>outside := \<lparr>calls = calls (outside s) @
                     (if srv_socket_fd s \<noteq> - 1 then [Close_fd (srv_socket_fd s)] else []) @
                     (if srv_epoll_fd s \<noteq> - 1 then [Close_fd (srv_epoll_fd s)] else []),
                   cq = []\<rparr>,
       srv_socket_fd := - 1, srv_epoll_fd := - 1, connects := Map.empty,
       thread_pool := None, conn_pool := None, objs := delete_pool_objects (conn_pool s) (objs s)\<rparr>"

text \<open>The loop, over the turns it takes; the flag is false once \<open>wait\<close> has returned.\<close>

fun wait_loop ::
  "'a methods \<Rightarrow> 'a conn_scheme \<Rightarrow> poll list \<Rightarrow> 'a server \<Rightarrow> (bool \<times> 'a server) outcome" where
  "wait_loop H fresh [] s = Ret (True, s)"
| "wait_loop H fresh (Run_cleared # ps) s = Ret (False, server_close s)"
| "wait_loop H fresh (Poll_interrupted # ps) s =
     bind_out (drain_close_queue s) (wait_loop H fresh ps)"
| "wait_loop H fresh (Poll_failed # ps) s =
     bind_out (drain_close_queue s) (\<lambda>s1. Ret (False, server_close s1))"
| "wait_loop H fresh (Poll_events es # ps) s =
     bind_out (drain_close_queue s) (\<lambda>s1.
     bind_out (handle_events H fresh es s1) (wait_loop H fresh ps))"

text \<open>
  With a thread pool a worker's step runs beside the loop: at \<open>Running t\<close> it calls
  \<open>con->process()\<close> on the object at \<open>t\<close>; the other steps move only the pool. \<open>None\<close>: the
  worker is waiting.
\<close>

definition worker_move :: "'a methods \<Rightarrow> nat \<Rightarrow> 'a server \<Rightarrow> 'a server outcome option" where
  "worker_move H i s =
     (case thread_pool s of
        None \<Rightarrow> None
      | Some tp \<Rightarrow>
          (case worker_step i tp of
             None \<Rightarrow> None
           | Some tp' \<Rightarrow>
               Some (case threads tp ! i of
                       Running t \<Rightarrow>
                         (case objs s t of
                            None \<Rightarrow> Undef
                          | Some c \<Rightarrow>
                              (let (ret, c', w') = process H c (outside s) in
                               Ret (s\<lparr>thread_pool := Some tp', objs := (objs s)(t \<mapsto> c'), outside := w'\<rparr>)))
                     | _ \<Rightarrow> Ret (s\<lparr>thread_pool := Some tp'\<rparr>))))"

text \<open>Interleavings of the loop and the workers, as explicit sequences of turns.\<close>

datatype turn = Drain | Handle event | Worker nat

fun turns :: "'a methods \<Rightarrow> 'a conn_scheme \<Rightarrow> turn list \<Rightarrow> 'a server \<Rightarrow> 'a server outcome" where
  "turns H fresh [] s = Ret s"
| "turns H fresh (Drain # ts) s = bind_out (drain_close_queue s) (turns H fresh ts)"
| "turns H fresh (Handle e # ts) s = bind_out (handle_event H fresh e s) (turns H fresh ts)"
| "turns H fresh (Worker i # ts) s =
     (case worker_move H i s of
        None \<Rightarrow> turns H fresh ts s
      | Some m \<Rightarrow> bind_out m (turns H fresh ts))"

end
