(* ===== verification/ConvSingleProps.thy ===== *)
theory ConvSingleProps
  imports ConvSingle
begin

text \<open>
  The invariant of the connection table of \<open>conv_single\<close>: every operation of the loop keeps it,
  so does a worker of the thread pool, and the loop follows no null or dangling pointer as long
  as \<open>epoll_wait\<close> reports registered descriptors. Then what goes wrong around it.
\<close>

section \<open>The invariant of the connection table\<close>

text \<open>
  The live descriptors are the keys with an object. Their number is \<open>current_connect_count\<close>,
  each one's object exists and has this descriptor, and the source of objects counts exactly
  these objects as given out.
\<close>

definition live :: "'a server \<Rightarrow> int set" where
  "live s = {fd. pointer_at s fd \<noteq> None}"

definition owned :: "'a server \<Rightarrow> nat set" where
  "owned s = {t. \<exists>fd. pointer_at s fd = Some t}"

definition source_ok :: "'a server \<Rightarrow> nat set \<Rightarrow> bool" where
  "source_ok s U = (case conn_pool s of Some p \<Rightarrow> pool_uses p U | None \<Rightarrow> heap_uses (next_obj s) U)"

definition srv_ok :: "'a server \<Rightarrow> bool" where
  "srv_ok s \<longleftrightarrow>
     finite (live s) \<and> current_connect_count s = int (card (live s)) \<and>
     (\<forall>fd t. pointer_at s fd = Some t \<longrightarrow> (\<exists>c. objs s t = Some c \<and> socket_fd c = fd)) \<and>
     source_ok s (owned s)"

definition keeps_fd :: "'a methods \<Rightarrow> bool" where
  "keeps_fd H \<longleftrightarrow>
     (\<forall>c w. socket_fd (fst (snd (process_in H c w))) = socket_fd c \<and>
            socket_fd (fst (snd (process_out H c w))) = socket_fd c \<and>
            socket_fd (fst (snd (process_rdhup H c w))) = socket_fd c \<and>
            socket_fd (fst (snd (process_error H c w))) = socket_fd c)"

lemma process_keeps_fd:
  assumes "keeps_fd H" "process H c w = (ret, c', w')"
  shows "socket_fd c' = socket_fd c"
proof -
  have "socket_fd (fst (snd (process H c w))) = socket_fd c"
    using assms(1) unfolding keeps_fd_def
    by (auto simp: process_def process_base_def notify_close_facts split: Status.split prod.split)
       (metis fst_conv snd_conv notify_close_facts(2))+
  with assms(2) show ?thesis by simp
qed

text \<open>\<open>table\<close>: the part of the state the invariant reads; what leaves it alone keeps it.\<close>

lemma srv_ok_cong:
  assumes "srv_ok s" "connects s' = connects s" "conn_pool s' = conn_pool s"
    "next_obj s' = next_obj s" "current_connect_count s' = current_connect_count s"
    "\<And>t c. t \<in> owned s \<Longrightarrow> objs s t = Some c \<Longrightarrow> \<exists>c'. objs s' t = Some c' \<and> socket_fd c' = socket_fd c"
  shows "srv_ok s' \<and> live s' = live s"
proof -
  have p: "pointer_at s' = pointer_at s" using assms(2) by (auto simp: pointer_at_def)
  then have l: "live s' = live s" "owned s' = owned s" by (auto simp: live_def owned_def)
  have src: "source_ok s' (owned s)" "finite (live s)"
      "current_connect_count s = int (card (live s))"
    using assms(1,3,4) by (simp_all add: srv_ok_def source_ok_def cong: option.case_cong)
  have "\<exists>c. objs s' t = Some c \<and> socket_fd c = fd" if "pointer_at s' fd = Some t" for fd t
  proof -
    from that p have t: "pointer_at s fd = Some t" by simp
    then obtain c where "objs s t = Some c" "socket_fd c = fd" using assms(1) by (auto simp: srv_ok_def)
    with assms(6) [of t c] t show ?thesis by (auto simp: owned_def)
  qed
  with src l assms(5) show ?thesis by (auto simp: srv_ok_def)
qed

lemma source_put:
  assumes "source_ok s U" "t \<in> U"
  shows "source_ok (put_object t s) (U - {t})"
  using assms ps.put_back hs.put_back
  by (auto simp: source_ok_def put_object_def split: option.splits)

lemma source_take:
  assumes "source_ok s U" "take_object fresh s = (t, s1)"
  shows "t \<notin> U \<and> source_ok s1 (insert t U)"
proof (cases "conn_pool s")
  case None
  with assms show ?thesis
    using hs.get_fresh [of "next_obj s" U t "next_obj s1"]
    by (auto simp: source_ok_def take_object_def split: prod.splits)
next
  case (Some p)
  with assms show ?thesis
    using ps.get_fresh [of p U t "the (conn_pool s1)"]
    by (auto simp: source_ok_def take_object_def split: prod.splits)
qed

lemma take_object_frame:
  assumes "take_object fresh s = (t, s1)"
  shows "connects s1 = connects s" "outside s1 = outside s"
    "current_connect_count s1 = current_connect_count s" "thread_pool s1 = thread_pool s"
    "max_connect_count s1 = max_connect_count s" "srv_socket_fd s1 = srv_socket_fd s"
    "u \<noteq> t \<Longrightarrow> objs s1 u = objs s u" "\<exists>c. objs s1 t = Some c"
  using assms by (auto simp: take_object_def split: option.splits prod.splits)

lemma put_object_frame [simp]:
  "connects (put_object t s) = connects s"
  "current_connect_count (put_object t s) = current_connect_count s"
  "thread_pool (put_object t s) = thread_pool s"
  "max_connect_count (put_object t s) = max_connect_count s"
  "srv_socket_fd (put_object t s) = srv_socket_fd s"
  "u \<noteq> t \<Longrightarrow> objs (put_object t s) u = objs s u"
  by (auto simp: put_object_def split: option.split)

lemma pointer_at_update [simp]:
  "pointer_at (s\<lparr>connects := m\<rparr>) fd = (case m fd of None \<Rightarrow> None | Some p \<Rightarrow> p)"
  by (simp add: pointer_at_def)

lemma pointer_at_frame [simp]:
  "pointer_at (s\<lparr>objs := x\<rparr>) = pointer_at s" "pointer_at (s\<lparr>outside := w\<rparr>) = pointer_at s"
  "pointer_at (s\<lparr>thread_pool := tp\<rparr>) = pointer_at s"
  "pointer_at (s\<lparr>current_connect_count := n\<rparr>) = pointer_at s"
  "pointer_at (s\<lparr>conn_pool := cp\<rparr>) = pointer_at s" "pointer_at (s\<lparr>next_obj := a\<rparr>) = pointer_at s"
  "pointer_at (put_object t s) = pointer_at s" "pointer_at (touch fd s) = pointer_at s"
  by (auto simp: pointer_at_def touch_def fun_eq_iff split: option.split)

lemma source_ok_frame [simp]:
  "source_ok (s\<lparr>objs := x\<rparr>) = source_ok s" "source_ok (s\<lparr>outside := w\<rparr>) = source_ok s"
  "source_ok (s\<lparr>thread_pool := tp\<rparr>) = source_ok s"
  "source_ok (s\<lparr>current_connect_count := n\<rparr>) = source_ok s"
  "source_ok (s\<lparr>connects := m\<rparr>) = source_ok s"
  by (simp_all add: source_ok_def fun_eq_iff cong: option.case_cong)

lemma srv_ok_owner:
  assumes "srv_ok s" "pointer_at s fd = Some t" "pointer_at s fd' = Some t"
  shows "fd = fd'"
proof -
  have "\<exists>c. objs s t = Some c \<and> socket_fd c = fd" "\<exists>c. objs s t = Some c \<and> socket_fd c = fd'"
    using assms unfolding srv_ok_def by blast+
  then show ?thesis by auto
qed

lemma srv_ok_touch: "srv_ok (touch fd s) \<longleftrightarrow> srv_ok s"
  proof -
  have "conn_pool (touch fd s) = conn_pool s" "next_obj (touch fd s) = next_obj s"
    "objs (touch fd s) = objs s" "current_connect_count (touch fd s) = current_connect_count s"
    by (simp_all add: touch_def split: option.split)
  then show ?thesis by (simp add: srv_ok_def live_def owned_def source_ok_def cong: option.case_cong)
qed

text \<open>Removing a live connection closes its descriptor and takes exactly it out of the table.\<close>

lemma connects_remove_ok:
  assumes ok: "srv_ok s" and fd: "fd \<in> live s"
  obtains s' where "connects_remove_fd fd s = Ret s'" "srv_ok s'" "live s' = live s - {fd}"
    "current_connect_count s' = current_connect_count s - 1"
    "cq (outside s') = cq (outside s)" "srv_socket_fd s' = srv_socket_fd s"
    "max_connect_count s' = max_connect_count s" "thread_pool s' = thread_pool s"
proof -
  from fd obtain t where t: "pointer_at s fd = Some t" by (auto simp: live_def)
  with ok obtain c where c: "objs s t = Some c" "socket_fd c = fd" by (auto simp: srv_ok_def)
  obtain c' w' where cl: "conn_close c (outside s) = (c', w')" by (cases "conn_close c (outside s)")
  define s1 where "s1 = s\<lparr>objs := (objs s)(t \<mapsto> c'), outside := w',
    current_connect_count := current_connect_count s - 1\<rparr>"
  define s' where "s' = (put_object t s1)\<lparr>connects := (connects (put_object t s1))(fd := None)\<rparr>"
  have ret: "connects_remove_fd fd s = Ret s'"
    by (simp add: connects_remove_fd_def t c cl s1_def s'_def)
  have p: "pointer_at s' x = (if x = fd then None else pointer_at s x)" for x
    by (simp add: s'_def s1_def pointer_at_def)
  have live': "live s' = live s - {fd}" by (auto simp: live_def p)
  have owned': "owned s' = owned s - {t}"
  proof (intro set_eqI iffI)
    fix u assume "u \<in> owned s'"
    then obtain x where x: "x \<noteq> fd" "pointer_at s x = Some u" by (auto simp: owned_def p split: if_splits)
    with srv_ok_owner [OF ok t, of x] show "u \<in> owned s - {t}" by (auto simp: owned_def)
  next
    fix u assume "u \<in> owned s - {t}"
    then obtain x where "pointer_at s x = Some u" "u \<noteq> t" by (auto simp: owned_def)
    with t have "pointer_at s' x = Some u" by (auto simp: p)
    then show "u \<in> owned s'" by (auto simp: owned_def)
  qed
  have "source_ok s1 (owned s)" using ok by (simp add: srv_ok_def s1_def)
  then have "source_ok (put_object t s1) (owned s - {t})"
    by (rule source_put) (use t in \<open>auto simp: owned_def\<close>)
  then have "source_ok s' (owned s')" unfolding owned' by (simp add: s'_def)
  moreover have "card (live s') = card (live s) - 1" "0 < card (live s)" "finite (live s')"
    using fd ok by (auto simp: live' srv_ok_def card_gt_0_iff)
  moreover have "\<exists>c. objs s' u = Some c \<and> socket_fd c = x" if "pointer_at s' x = Some u" for x u
  proof -
    from that have x: "x \<noteq> fd" "pointer_at s x = Some u" by (auto simp: p split: if_splits)
    then have "u \<noteq> t" using srv_ok_owner [OF ok t] by auto
    then have "objs s' u = objs s u" by (simp add: s'_def s1_def)
    with x ok show ?thesis by (auto simp: srv_ok_def)
  qed
  ultimately have "srv_ok s'"
    using ok by (auto simp: srv_ok_def s'_def s1_def)
  moreover have "cq w' = cq (outside s)" using conn_close_facts(2) [of c "outside s"] cl by simp
  ultimately show ?thesis using that ret live' by (simp add: s'_def s1_def)
qed

lemma touch_frame [simp]:
  "outside (touch fd s) = outside s" "srv_socket_fd (touch fd s) = srv_socket_fd s"
  "max_connect_count (touch fd s) = max_connect_count s"
  "current_connect_count (touch fd s) = current_connect_count s"
  by (simp_all add: touch_def split: option.split)

lemma close_client_frame [simp]:
  "connects (close_client fd s) = connects s" "cq (outside (close_client fd s)) = cq (outside s)"
  "srv_socket_fd (close_client fd s) = srv_socket_fd s" "thread_pool (close_client fd s) = thread_pool s"
  "max_connect_count (close_client fd s) = max_connect_count s"
  "current_connect_count (close_client fd s) = current_connect_count s"
  "pointer_at (close_client fd s) = pointer_at s"
  by (simp_all add: close_client_def)

lemma live_cong: "pointer_at s = pointer_at s' \<Longrightarrow> live s = live s'"
  by (simp add: live_def)

lemma close_client_ok: "srv_ok s \<Longrightarrow> srv_ok (close_client fd s) \<and> live (close_client fd s) = live s"
  by (rule srv_ok_cong) (auto simp: close_client_def srv_ok_def owned_def)

lemma owned_pointer: "t \<notin> owned s \<Longrightarrow> pointer_at s fd = Some u \<Longrightarrow> u \<noteq> t"
  by (auto simp: owned_def)

lemma take_put_ok:
  assumes ok: "srv_ok s" and tk: "take_object fresh s = (t, s1)"
  shows "srv_ok (put_object t s1) \<and> live (put_object t s1) = live s"
proof -
  note fr = take_object_frame [OF tk]
  from ok have "source_ok s (owned s)" by (simp add: srv_ok_def)
  from source_take [OF this tk] have t: "t \<notin> owned s" "source_ok s1 (insert t (owned s))" by auto
  from source_put [OF t(2), of t] t(1) have src: "source_ok (put_object t s1) (owned s)" by simp
  have p: "pointer_at (put_object t s1) = pointer_at s" by (simp add: pointer_at_def fun_eq_iff fr)
  then have l: "live (put_object t s1) = live s" "owned (put_object t s1) = owned s"
    by (auto simp: live_def owned_def)
  have "objs (put_object t s1) u = objs s u" if "pointer_at s fd = Some u" for fd u
    using owned_pointer [OF t(1) that] fr(7) by simp
  with ok have "\<forall>fd u. pointer_at s fd = Some u \<longrightarrow>
      (\<exists>c. objs (put_object t s1) u = Some c \<and> socket_fd c = fd)"
    by (auto simp: srv_ok_def)
  with ok src l p fr(3) show ?thesis by (simp add: srv_ok_def)
qed

lemma take_insert_ok:
  fixes w' :: world
  assumes ok: "srv_ok s" and tk: "take_object fresh s = (t, s1)"
    and fd: "pointer_at s fd = None" and c': "socket_fd c' = fd"
  defines "s2 \<equiv> s1\<lparr>connects := (connects s1)(fd \<mapsto> Some t), objs := (objs s1)(t \<mapsto> c'),
                    outside := w', current_connect_count := current_connect_count s1 + 1\<rparr>"
  shows "srv_ok s2 \<and> live s2 = insert fd (live s)"
proof -
  note fr = take_object_frame [OF tk]
  from ok have "source_ok s (owned s)" by (simp add: srv_ok_def)
  from source_take [OF this tk] have t: "t \<notin> owned s" "source_ok s1 (insert t (owned s))" by auto
  have p: "pointer_at s2 x = (if x = fd then Some t else pointer_at s x)" for x
    by (simp add: s2_def pointer_at_def fr)
  have l: "live s2 = insert fd (live s)" by (auto simp: live_def p)
  have "pointer_at s2 x = Some u \<longleftrightarrow> (x = fd \<and> u = t) \<or> pointer_at s x = Some u" for x u
    using fd by (auto simp: p)
  then have o: "owned s2 = insert t (owned s)" by (auto simp: owned_def)
  have "source_ok s2 (owned s2)" unfolding o using t(2) by (simp add: s2_def)
  moreover have "fd \<notin> live s" using fd by (simp add: live_def)
  moreover have "\<exists>c. objs s2 u = Some c \<and> socket_fd c = x" if "pointer_at s2 x = Some u" for x u
  proof (cases "x = fd")
    case True
    with that c' show ?thesis by (simp add: p s2_def)
  next
    case False
    with that have x: "pointer_at s x = Some u" by (simp add: p)
    from owned_pointer [OF t(1) x] fr(7) have "objs s2 u = objs s u" by (simp add: s2_def)
    with x ok show ?thesis by (auto simp: srv_ok_def)
  qed
  ultimately show ?thesis
    using ok l by (auto simp: srv_ok_def s2_def fr)
qed

text \<open>Accepting: at most one new live descriptor, and never past the maximum.\<close>

lemma accept_client_cases:
  assumes ok: "srv_ok s"
  shows "\<exists>s'. accept_client fresh fd addr s = Ret s' \<and> srv_ok s' \<and>
    cq (outside s') = cq (outside s) \<and> srv_socket_fd s' = srv_socket_fd s \<and>
    thread_pool s' = thread_pool s \<and> max_connect_count s' = max_connect_count s \<and>
    (if current_connect_count s < max_connect_count s \<and> fd \<notin> live s
     then live s' = insert fd (live s) \<and> current_connect_count s' = current_connect_count s + 1
     else live s' = live s \<and> current_connect_count s' = current_connect_count s)"
proof -
  obtain t s1 where tk: "take_object fresh s = (t, s1)" by (cases "take_object fresh s")
  note fr = take_object_frame [OF tk]
  obtain c where c: "objs s1 t = Some c" using fr(8) by blast
  obtain c' w' where ci: "conn_init fd addr (srv_epoll_fd s1) (srv_ET s1) (srv_one_shot s1) True True c
      (outside s1) = (c', w')" by (cases "conn_init fd addr (srv_epoll_fd s1) (srv_ET s1) (srv_one_shot s1) True True c
      (outside s1)")
  with conn_init_facts [of fd addr "srv_epoll_fd s1" "srv_ET s1" "srv_one_shot s1" True True c "outside s1"]
  have ini: "socket_fd c' = fd" "cq w' = cq (outside s1)" by simp_all
  have p1: "pointer_at s1 = pointer_at s" by (simp add: pointer_at_def fun_eq_iff fr)
  consider (full) "current_connect_count s \<ge> max_connect_count s"
    | (taken) "current_connect_count s < max_connect_count s" "fd \<in> live s"
    | (new) "current_connect_count s < max_connect_count s" "fd \<notin> live s" by linarith
  then show ?thesis
  proof cases
    case full
    then show ?thesis using close_client_ok [OF ok] by (simp add: accept_client_def)
  next
    case taken
    then show ?thesis
      using close_client_ok [OF ok, of fd] close_client_ok [of "put_object t s1" fd]
        take_put_ok [OF ok tk] p1 tk fr
      by (auto simp: accept_client_def live_def split: option.split)
  next
    case new
    then have "pointer_at s fd = None" by (simp add: live_def)
    with new take_insert_ok [OF ok tk this ini(1), of w'] p1 tk c ci ini(2) fr
    show ?thesis by (auto simp: accept_client_def split: option.split)
  qed
qed

section \<open>Events and the close queue\<close>

text \<open>What an operation of the loop keeps, and the descriptors it may drop or add.\<close>

definition step_ok :: "int set \<Rightarrow> int set \<Rightarrow> 'a server \<Rightarrow> 'a server \<Rightarrow> bool" where
  "step_ok dropped added s s' \<longleftrightarrow>
     srv_ok s' \<and> live s - dropped \<subseteq> live s' \<and> live s' \<subseteq> live s \<union> added \<and>
     srv_socket_fd s' = srv_socket_fd s \<and> max_connect_count s' = max_connect_count s \<and>
     (current_connect_count s \<le> max_connect_count s \<longrightarrow>
      current_connect_count s' \<le> max_connect_count s)"

lemma step_ok_refl: "srv_ok s \<Longrightarrow> step_ok D A s s"
  by (auto simp: step_ok_def)

lemma step_ok_trans:
  "step_ok D A s s1 \<Longrightarrow> step_ok D' A' s1 s2 \<Longrightarrow> step_ok (D \<union> D') (A \<union> A') s s2"
  by (auto simp: step_ok_def)

lemma step_ok_mono: "step_ok D A s s' \<Longrightarrow> D \<subseteq> D' \<Longrightarrow> A \<subseteq> A' \<Longrightarrow> step_ok D' A' s s'"
  by (auto simp: step_ok_def)

lemma step_ok_cong:
  assumes "srv_ok s" "connects s' = connects s" "conn_pool s' = conn_pool s"
    "next_obj s' = next_obj s" "current_connect_count s' = current_connect_count s"
    "srv_socket_fd s' = srv_socket_fd s" "max_connect_count s' = max_connect_count s"
    "\<And>t c. t \<in> owned s \<Longrightarrow> objs s t = Some c \<Longrightarrow> \<exists>c'. objs s' t = Some c' \<and> socket_fd c' = socket_fd c"
  shows "step_ok D A s s' \<and> live s' = live s"
  using srv_ok_cong [OF assms(1-5,8)] assms(5-7) by (simp add: step_ok_def)

lemma remove_step:
  assumes "srv_ok s" "fd \<in> live s"
  obtains s' where "connects_remove_fd fd s = Ret s'" "step_ok {fd} {} s s'" "live s' = live s - {fd}"
    "cq (outside s') = cq (outside s)"
proof -
  obtain s' where s': "connects_remove_fd fd s = Ret s'" "srv_ok s'" "live s' = live s - {fd}"
    "current_connect_count s' = current_connect_count s - 1"
    "cq (outside s') = cq (outside s)" "srv_socket_fd s' = srv_socket_fd s"
    "max_connect_count s' = max_connect_count s"
    using connects_remove_ok [OF assms] by metis
  then have "step_ok {fd} {} s s'" by (auto simp: step_ok_def)
  with s' that show ?thesis by blast
qed

lemma accept_step:
  assumes "srv_ok s"
  shows "\<exists>s'. accept_client fresh fd addr s = Ret s' \<and> step_ok {} {fd} s s'"
  using accept_client_cases [OF assms, of fresh fd addr]
  by (elim ex_forward) (auto simp: step_ok_def split: if_splits)

lemma dispatch_step:
  assumes ok: "srv_ok s" and H: "keeps_fd H" and fd: "fd \<in> live s"
  shows "\<exists>s'. dispatch H st always fd s = Ret s' \<and> step_ok {fd} {} s s'"
proof -
  from fd obtain t where t: "pointer_at s fd = Some t" by (auto simp: live_def)
  with ok obtain c where c: "objs s t = Some c" "socket_fd c = fd" by (auto simp: srv_ok_def)
  define s1 where "s1 = s\<lparr>objs := (objs s)(t \<mapsto> c\<lparr>status := st\<rparr>)\<rparr>"
  have remove: "\<exists>s'. connects_remove_fd fd s2 = Ret s' \<and> step_ok {fd} {} s s'"
    if "step_ok {fd} {} s s2 \<and> live s2 = live s" for s2
  proof -
    from that fd have "srv_ok s2" "fd \<in> live s2" by (auto simp: step_ok_def)
    then obtain s' where "connects_remove_fd fd s2 = Ret s'" "step_ok {fd} {} s2 s'"
      using remove_step by blast
    then show ?thesis using that step_ok_trans [of "{fd}" "{}" s s2 "{fd}" "{}" s'] by auto
  qed
  show ?thesis
  proof (cases "thread_pool s")
    case (Some tp)
    obtain b tp' where a: "add t tp = (b, tp')" by (cases "add t tp")
    let ?s2 = "s1\<lparr>thread_pool := Some tp'\<rparr>"
    have "step_ok {fd} {} s ?s2 \<and> live ?s2 = live s"
      by (rule step_ok_cong [OF ok]) (auto simp: s1_def c)
    then show ?thesis
      using remove [of ?s2] Some a t c by (auto simp: dispatch_def s1_def Let_def)
  next
    case None
    obtain r c' w' where p: "process H (c\<lparr>status := st\<rparr>) (outside s) = (r, c', w')"
      by (cases "process H (c\<lparr>status := st\<rparr>) (outside s)")
    let ?s2 = "s1\<lparr>objs := (objs s1)(t \<mapsto> c'), outside := w'\<rparr>"
    have "socket_fd c' = socket_fd c" using process_keeps_fd [OF H p] by simp
    then have "step_ok {fd} {} s ?s2 \<and> live ?s2 = live s"
      by (intro step_ok_cong [OF ok]) (auto simp: s1_def c)
    then show ?thesis
      using remove [of ?s2] None p t c by (auto simp: dispatch_def s1_def Let_def)
  qed
qed

lemma handle_event_step:
  assumes ok: "srv_ok s" and H: "keeps_fd H"
    and e: "ev_fd e = srv_socket_fd s \<or> ev_fd e \<in> live s"
  shows "\<exists>s'. handle_event H fresh e s = Ret s' \<and> step_ok {ev_fd e} {ev_client e} s s'"
proof (cases "ev_fd e = srv_socket_fd s")
  case True
  with accept_step [OF ok, of fresh "ev_client e" "ev_addr e"] show ?thesis
    by (auto simp: handle_event_def intro: step_ok_mono)
next
  case False
  with e have fd: "ev_fd e \<in> live s" by simp
  note d = dispatch_step [OF ok H fd]
  obtain s' where r: "connects_remove_fd (ev_fd e) s = Ret s'" "step_ok {ev_fd e} {} s s'"
    using remove_step [OF ok fd] by blast
  have "\<exists>s'. handle_event H fresh e s = Ret s' \<and> step_ok {ev_fd e} {} s s'"
    using False d r by (simp add: handle_event_def)
  then show ?thesis by (auto intro: step_ok_mono)
qed

text \<open>A batch of \<open>epoll_wait\<close>: each registered descriptor at most once, none that is closed.\<close>

definition batch_ok :: "event list \<Rightarrow> 'a server \<Rightarrow> bool" where
  "batch_ok es s \<longleftrightarrow>
     distinct (map ev_fd es) \<and> (\<forall>e\<in>set es. ev_fd e = srv_socket_fd s \<or> ev_fd e \<in> live s)"

lemma handle_events_step:
  assumes "srv_ok s" "keeps_fd H" "batch_ok es s"
  shows "\<exists>s'. handle_events H fresh es s = Ret s' \<and>
    step_ok (ev_fd ` set es) (ev_client ` set es) s s'"
  using assms(1,3)
proof (induction es arbitrary: s)
  case Nil
  then show ?case by (simp add: step_ok_refl)
next
  case (Cons e es)
  from Cons.prems(2) have "ev_fd e = srv_socket_fd s \<or> ev_fd e \<in> live s" by (simp add: batch_ok_def)
  from handle_event_step [OF Cons.prems(1) assms(2) this] obtain s1
    where s1: "handle_event H fresh e s = Ret s1" "step_ok {ev_fd e} {ev_client e} s s1" by blast
  have "batch_ok es s1"
    unfolding batch_ok_def
  proof (intro conjI ballI)
    show "distinct (map ev_fd es)" using Cons.prems(2) by (simp add: batch_ok_def)
  next
    fix x assume x: "x \<in> set es"
    then have "ev_fd x \<in> ev_fd ` set es" by (rule imageI)
    moreover have "ev_fd e \<notin> ev_fd ` set es" using Cons.prems(2) by (simp add: batch_ok_def)
    ultimately have "ev_fd x \<noteq> ev_fd e" by metis
    with x Cons.prems(2) have "ev_fd x \<noteq> ev_fd e" "ev_fd x = srv_socket_fd s \<or> ev_fd x \<in> live s"
      by (auto simp: batch_ok_def)
    with s1(2) show "ev_fd x = srv_socket_fd s1 \<or> ev_fd x \<in> live s1" by (auto simp: step_ok_def)
  qed
  moreover have "srv_ok s1" using s1(2) by (simp add: step_ok_def)
  ultimately obtain s2 where s2: "handle_events H fresh es s1 = Ret s2"
      "step_ok (ev_fd ` set es) (ev_client ` set es) s1 s2"
    using Cons.IH by blast
  from step_ok_trans [OF s1(2) s2(2)] s1(1) s2(1) show ?case by simp
qed

text \<open>The close queue is emptied; every descriptor in it that is live is closed, but not -1.\<close>

lemma drain_nil: "cq (outside s) = [] \<Longrightarrow> drain_close_queue s = Ret s"
  by (subst drain_close_queue.simps) (simp add: queue_simps)

lemma drain_cons:
  assumes "cq (outside s) = fd # q"
  defines "s1 \<equiv> s\<lparr>outside := (outside s)\<lparr>cq := q\<rparr>\<rparr>"
  shows "drain_close_queue s =
    (if fd = - 1 then drain_close_queue s1
     else if pointer_at s fd = None then drain_close_queue (touch fd s1)
     else bind_out (connects_remove_fd fd s1) drain_close_queue)"
  by (subst drain_close_queue.simps)
     (cases "connects_remove_fd fd s1"; simp add: assms(1) queue_simps s1_def Let_def)

lemma drain_step:
  assumes "srv_ok s"
  shows "\<exists>s'. drain_close_queue s = Ret s' \<and> step_ok (set (cq (outside s)) - {- 1}) {} s s' \<and>
    live s' = live s - (set (cq (outside s)) - {- 1}) \<and> cq (outside s') = []"
  using assms
proof (induction "cq (outside s)" arbitrary: s)
  case Nil
  then show ?case by (simp add: drain_nil step_ok_refl)
next
  case (Cons fd q)
  let ?s1 = "s\<lparr>outside := (outside s)\<lparr>cq := q\<rparr>\<rparr>"
  have s1: "step_ok {} {} s ?s1 \<and> live ?s1 = live s"
    by (rule step_ok_cong [OF Cons.prems]) auto
  have IH: "\<exists>s'. drain_close_queue s2 = Ret s' \<and> step_ok (D \<union> (set q - {- 1})) {} s s' \<and>
      live s' = live s - (D \<union> (set q - {- 1})) \<and> cq (outside s') = []"
    if "step_ok D {} s s2" "live s2 = live s - D" "cq (outside s2) = q" for D s2
  proof -
    from that(1) have "srv_ok s2" by (simp add: step_ok_def)
    from Cons.hyps(1) [OF that(3) [symmetric] this] that(3) obtain s' where
      "drain_close_queue s2 = Ret s'" "step_ok (set q - {- 1}) {} s2 s'"
      "live s' = live s2 - (set q - {- 1})" "cq (outside s') = []" by auto
    with step_ok_trans [OF that(1), of "set q - {- 1}" "{}" s'] that(2) show ?thesis
      by (simp add: Diff_Un [symmetric] Diff_eq Int_assoc)
  qed
  note split = drain_cons [OF Cons.hyps(2) [symmetric]]
  have q: "set (cq (outside s)) = insert fd (set q)" using Cons.hyps(2) [symmetric] by simp
  have eq: "insert fd (set q - {- 1}) = set (cq (outside s)) - {- 1}" if "fd \<noteq> - 1"
    using q that by auto
  consider (skip) "fd = - 1" | (null) "fd \<noteq> - 1" "fd \<notin> live s" | (live) "fd \<noteq> - 1" "fd \<in> live s"
    by blast
  then show ?case
  proof cases
    case skip
    with IH [of "{}" ?s1] s1 split q show ?thesis by simp
  next
    case null
    have "step_ok {} {} s (touch fd ?s1)" "live (touch fd ?s1) = live s" "cq (outside (touch fd ?s1)) = q"
      using s1 by (simp_all add: step_ok_def srv_ok_touch live_def touch_frame)
    then have "step_ok {fd} {} s (touch fd ?s1)" "live (touch fd ?s1) = live s - {fd}"
      using null by (auto intro: step_ok_mono)
    from IH [OF this \<open>cq (outside (touch fd ?s1)) = q\<close>] null split eq show ?thesis
      by (simp add: live_def)
  next
    case live
    then obtain s2 where s2: "connects_remove_fd fd ?s1 = Ret s2" "step_ok {fd} {} ?s1 s2"
        "live s2 = live s - {fd}" "cq (outside s2) = q"
      using remove_step [of ?s1 fd] s1 by (auto simp: step_ok_def)
    have "step_ok {fd} {} s s2" using step_ok_trans [of "{}" "{}" s ?s1 "{fd}" "{}" s2] s1 s2(2) by simp
    moreover obtain t where "pointer_at s fd = Some t" using live by (auto simp: live_def)
    ultimately show ?thesis using IH [OF _ s2(3,4)] s2(1) live(1) split eq by simp
  qed
qed

section \<open>Reachable states\<close>

lemma worker_move_step:
  assumes ok: "srv_ok s" and H: "keeps_fd H" and m: "worker_move H i s = Some (Ret s')"
  shows "step_ok {} {} s s' \<and> live s' = live s"
proof -
  from m obtain tp tp' where tp: "thread_pool s = Some tp" "worker_step i tp = Some tp'"
    by (auto simp: worker_move_def split: option.splits)
  show ?thesis
  proof (cases "\<exists>t. threads tp ! i = Running t")
    case True
    with m tp obtain t c r c' w' where c: "objs s t = Some c" "process H c (outside s) = (r, c', w')"
      "s' = s\<lparr>thread_pool := Some tp', objs := (objs s)(t \<mapsto> c'), outside := w'\<rparr>"
      by (auto simp: worker_move_def Let_def split: option.splits prod.splits)
    with process_keeps_fd [OF H c(2)] show ?thesis by (intro step_ok_cong [OF ok]) auto
  next
    case False
    with m tp have "s' = s\<lparr>thread_pool := Some tp'\<rparr>"
      by (cases "threads tp ! i") (simp_all add: worker_move_def)
    then show ?thesis by (intro step_ok_cong [OF ok]) auto
  qed
qed

text \<open>
  The states between two operations of the loop, with the workers running beside it: from the
  start of the loop, an event is handled when its descriptor is registered.
\<close>

inductive srv_reach :: "'a methods \<Rightarrow> 'a conn_scheme \<Rightarrow> 'a server \<Rightarrow> bool"
  for H fresh where
  start: "conv_single_new cf sock = Some s0 \<Longrightarrow> wait_start r s0 = Some s \<Longrightarrow> srv_reach H fresh s"
| drain: "srv_reach H fresh s \<Longrightarrow> drain_close_queue s = Ret s' \<Longrightarrow> srv_reach H fresh s'"
| handle: "srv_reach H fresh s \<Longrightarrow> ev_fd e = srv_socket_fd s \<or> ev_fd e \<in> live s \<Longrightarrow>
    handle_event H fresh e s = Ret s' \<Longrightarrow> srv_reach H fresh s'"
| work: "srv_reach H fresh s \<Longrightarrow> worker_move H i s = Some (Ret s') \<Longrightarrow> srv_reach H fresh s'"

definition unused :: "int \<Rightarrow> 'a server \<Rightarrow> bool" where
  "unused n s \<longleftrightarrow>
     connects s = Map.empty \<and> current_connect_count s = 0 \<and> next_obj s = 0 \<and>
     max_connect_count s = n \<and> (case conn_pool s of None \<Rightarrow> True | Some p \<Rightarrow> \<exists>k. p = connpool_new k 0)"

lemma opt_set_unused:
  "(\<And>x s. unused n s \<Longrightarrow> unused n (f x s)) \<Longrightarrow> unused n s \<Longrightarrow> unused n (opt_set v f s)"
  by (simp add: opt_set_def split: option.split)

lemma start_unused:
  assumes "conv_single_new cf sock = Some s0"
  shows "unused (cf_max_connect_count cf) s0"
proof -
  let ?u = "unused (cf_max_connect_count cf)"
  have upd: "?u s \<Longrightarrow> ?u (set_one_shot b s)" "?u s \<Longrightarrow> ?u (set_et b s)"
    "?u s \<Longrightarrow> ?u (set_port_reuse b s)" "?u s \<Longrightarrow> ?u (set_addr_reuse b s)"
    "?u s \<Longrightarrow> ?u (s\<lparr>max_events_count := k\<rparr>)" "?u s \<Longrightarrow> ?u (s\<lparr>listen_queue_count := k\<rparr>)"
    "?u s \<Longrightarrow> ?u (s\<lparr>srv_socket_fd := k\<rparr>)" "?u s \<Longrightarrow> ?u (s\<lparr>thread_pool := tp\<rparr>)"
    for s :: "'a server" and b k tp
    by (simp_all add: unused_def set_one_shot_def set_et_def set_port_reuse_def set_addr_reuse_def)
  have pool: "?u s \<Longrightarrow> ?u (enable_object_pool sz s)" for s :: "'a server" and sz
    by (auto simp: unused_def enable_object_pool_def split: option.splits)
  have "?u (blank_server\<lparr>max_connect_count := cf_max_connect_count cf\<rparr>)"
    by (simp add: unused_def blank_server_def)
  with assms show ?thesis
    by (auto simp: conv_single_new_def Let_def enable_multi_thread_def
        intro!: upd opt_set_unused pool split: option.splits if_splits)
qed

lemma start_ok:
  assumes "conv_single_new cf sock = Some s0" "wait_start r s0 = Some s"
  shows "srv_ok s" "live s = {}" "current_connect_count s = 0"
    "max_connect_count s = cf_max_connect_count cf"
proof -
  from start_unused [OF assms(1)] assms(2) have u: "unused (cf_max_connect_count cf) s"
    by (auto simp: wait_start_def unused_def Let_def split: if_splits)
  then have "pointer_at s = (\<lambda>_. None)" by (simp add: pointer_at_def fun_eq_iff unused_def)
  with u show "srv_ok s" "live s = {}" "current_connect_count s = 0"
      "max_connect_count s = cf_max_connect_count cf"
    by (auto simp: unused_def srv_ok_def live_def owned_def source_ok_def heap_uses_def
        connpool_new_uses split: option.splits)
qed

lemma srv_reach_ok:
  assumes "srv_reach H fresh s" "keeps_fd H"
  shows "srv_ok s \<and> (0 \<le> max_connect_count s \<longrightarrow> current_connect_count s \<le> max_connect_count s)"
  using assms(1)
proof induction
  case (start cf sock s0 r s)
  with start_ok [OF start] show ?case by simp
next
  case (drain s s')
  with drain_step [of s] show ?case by (auto simp: step_ok_def)
next
  case (handle s e s')
  with handle_event_step [of s H e fresh] assms(2) show ?case by (auto simp: step_ok_def)
next
  case (work s i s')
  with worker_move_step [of s H i s'] assms(2) show ?case by (auto simp: step_ok_def)
qed

section \<open>Properties\<close>

text \<open>C1: In every reachable state, thread pool or not, \<open>current_connect_count\<close> is the number of
  descriptors with a connection object, that object exists, carries this descriptor and belongs to
  no other one, and the count never passes \<open>max_connect_count\<close>.\<close>

theorem connection_count_exact:
  assumes "srv_reach H fresh s" "keeps_fd H" "0 \<le> max_connect_count s"
  shows "current_connect_count s = int (card {fd. pointer_at s fd \<noteq> None}) \<and>
    current_connect_count s \<le> max_connect_count s \<and>
    (\<forall>fd t. pointer_at s fd = Some t \<longrightarrow>
      (\<exists>c. objs s t = Some c \<and> socket_fd c = fd) \<and> (\<forall>fd'. pointer_at s fd' = Some t \<longrightarrow> fd' = fd))"
  using srv_reach_ok [OF assms(1,2)] assms(3) srv_ok_owner
  by (auto simp: srv_ok_def live_def)

definition small_conf :: conf_values where
  "small_conf = \<lparr>cf_max_connect_count = 2, cf_multi_thread = None, cf_object_pool = Some 1,
     cf_one_shot = None, cf_et = Some True, cf_max_events_count = None, cf_listen_queue_count = None,
     cf_port_reuse = None, cf_address_reuse = None\<rparr>"

definition small_start :: startup where
  "small_start = \<lparr>bind_ret = 0, epoll_create_ret = 4, listen_ret = 0, register_ret = 0\<rparr>"

definition small_server :: "unit server" where
  "small_server = blank_server\<lparr>max_connect_count := 2, conn_pool := Some (connpool_new 1 0), srv_ET := True,
    srv_socket_fd := 3, srv_epoll_fd := 4, outside := \<lparr>calls = epoll_add 4 3 True False False, cq = []\<rparr>\<rparr>"

lemma small_server_new:
  "conv_single_new small_conf 3 =
     Some (small_server\<lparr>srv_epoll_fd := - 1, outside := \<lparr>calls = [], cq = []\<rparr>\<rparr>)"
  by (simp add: small_server_def conv_single_new_def small_conf_def blank_server_def opt_set_def
        enable_object_pool_def to_size_t_def set_et_def)

lemma small_server_start:
  "wait_start small_start (small_server\<lparr>srv_epoll_fd := - 1, outside := \<lparr>calls = [], cq = []\<rparr>\<rparr>) =
     Some small_server"
  by (simp add: small_server_def blank_server_def wait_start_def small_start_def)

lemma failing_keeps_fd: "keeps_fd failing_methods"
  by (auto simp: keeps_fd_def failing_methods_def notify_close_facts default_rdhup_def default_error_def)

lemma small_server_reach: "srv_reach failing_methods new_conn small_server"
  by (rule srv_reach.start [OF small_server_new small_server_start])

lemma small_server_facts:
  "max_connect_count small_server = 2" "srv_socket_fd small_server = 3"
  "connects small_server = Map.empty" "cq (outside small_server) = []"
  by (simp_all add: small_server_def blank_server_def)

definition quiet_methods :: "unit methods" where
  "quiet_methods = \<lparr>process_in = (\<lambda>c w. (False, c, w)), process_out = (\<lambda>c w. (False, c, w)),
     process_rdhup = default_rdhup, process_error = default_error\<rparr>"

definition client_conn :: conn where
  "client_conn = new_conn\<lparr>socket_fd := 7, epoll_fd := 4, ET := True, one_shot := True,
     has_close_queue := True\<rparr>"

definition client_server :: "unit server" where
  "client_server = small_server\<lparr>connects := [7 \<mapsto> Some 0], objs := [0 \<mapsto> client_conn],
     current_connect_count := 1, conn_pool := Some ((connpool_new 1 0)\<lparr>free := []\<rparr>),
     outside := \<lparr>calls = epoll_add 4 3 True False False @ epoll_add 4 7 True True True, cq = []\<rparr>\<rparr>"

lemma client_accepted:
  "handle_event quiet_methods new_conn \<lparr>ev_fd = 3, ev_events = EPOLLIN, ev_client = 7, ev_addr = []\<rparr> small_server = Ret client_server"
  by (simp add: handle_event_def accept_client_def take_object_def pool_acquire_def connpool_new_def
      queue_simps pointer_at_def conn_init_def client_conn_def client_server_def small_server_def
      blank_server_def new_conn_def sock.extend_def new_sock_def)

lemma quiet_reach: "srv_reach quiet_methods new_conn client_server"
  by (rule srv_reach.handle [OF srv_reach.start [OF small_server_new small_server_start] _ client_accepted])
     (simp add: small_server_facts)

lemma quiet_keeps_fd: "keeps_fd quiet_methods"
  by (auto simp: keeps_fd_def quiet_methods_def notify_close_facts default_rdhup_def default_error_def)

theorem connection_count_exact_witness:
  "current_connect_count client_server = int (card {fd. pointer_at client_server fd \<noteq> None}) \<and>
    current_connect_count client_server \<le> max_connect_count client_server \<and>
    (\<exists>c. objs client_server 0 = Some c \<and> socket_fd c = 7)"
proof -
  have "0 \<le> max_connect_count client_server" "pointer_at client_server 7 = Some 0"
    by (simp_all add: client_server_def small_server_def blank_server_def pointer_at_def)
  with connection_count_exact [OF quiet_reach quiet_keeps_fd] show ?thesis by blast
qed


definition batch2 :: "event list" where
  "batch2 = [\<lparr>ev_fd = 3, ev_events = EPOLLIN, ev_client = 7, ev_addr = ''a''\<rparr>]"


text \<open>Draining the close queue closes exactly the live connections named in it: a descriptor
  named twice, already closed, or -1 does no harm, and the count drops by the number closed.\<close>

theorem drain_closes_each_once:
  assumes "srv_reach H fresh s" "keeps_fd H"
  shows "\<exists>s'. drain_close_queue s = Ret s' \<and> cq (outside s') = [] \<and>
    live s' = live s - (set (cq (outside s)) - {- 1}) \<and>
    current_connect_count s' =
      current_connect_count s - int (card (live s \<inter> (set (cq (outside s)) - {- 1})))"
proof -
  from srv_reach_ok [OF assms] have ok: "srv_ok s" by blast
  let ?D = "set (cq (outside s)) - {- 1}"
  from drain_step [OF ok] obtain s' where s': "drain_close_queue s = Ret s'" "srv_ok s'"
      "live s' = live s - ?D" "cq (outside s') = []" by (auto simp: step_ok_def)
  have fin: "finite (live s)" using ok by (simp add: srv_ok_def)
  have "card (live s') = card (live s) - card (live s \<inter> ?D)"
    unfolding s'(3) by (subst card_Diff_subset_Int) (use fin in auto)
  moreover have "card (live s \<inter> ?D) \<le> card (live s)" by (rule card_mono [OF fin]) simp
  ultimately show ?thesis using s' ok by (auto simp: srv_ok_def)
qed

theorem drain_closes_each_once_witness:
  "\<exists>s'. drain_close_queue small_server = Ret s' \<and> cq (outside s') = [] \<and>
    live s' = live small_server - (set (cq (outside small_server)) - {- 1}) \<and>
    current_connect_count s' = current_connect_count small_server -
      int (card (live small_server \<inter> (set (cq (outside small_server)) - {- 1})))"
  by (rule drain_closes_each_once [OF small_server_reach failing_keeps_fd])

section \<open>Around the invariant\<close>

definition fails_quietly :: "'a methods \<Rightarrow> bool" where
  "fails_quietly H \<longleftrightarrow> (\<forall>c w. process_in H c w = (False, c, w))"

abbreviation in_event :: "int \<Rightarrow> int \<Rightarrow> event" where
  "in_event fd client \<equiv> \<lparr>ev_fd = fd, ev_events = EPOLLIN, ev_client = client, ev_addr = []\<rparr>"

lemma handle_in:
  "fd \<noteq> srv_socket_fd s \<Longrightarrow> handle_event H fresh (in_event fd cl) s = dispatch H IN False fd s"
  by (simp add: handle_event_def epoll_bits)

lemma handle_accept:
  "handle_event H fresh (in_event (srv_socket_fd s) cl) s = accept_client fresh cl [] s"
  by (simp add: handle_event_def)

lemma srv_ok_obj:
  assumes "srv_ok s" "pointer_at s fd = Some t" "objs s t = Some c"
  shows "socket_fd c = fd"
proof -
  have "\<exists>c. objs s t = Some c \<and> socket_fd c = fd" using assms unfolding srv_ok_def by blast
  with assms(3) show ?thesis by simp
qed

text \<open>A failing handler: its connection is removed at once, and its descriptor stays queued.\<close>

lemma failing_dispatch:
  assumes ok: "srv_ok s" and tp: "thread_pool s = None" and H: "fails_quietly H"
    and c: "pointer_at s fd = Some t" "objs s t = Some c" "has_close_queue c"
  obtains s' where "dispatch H IN False fd s = Ret s'" "step_ok {fd} {} s s'"
    "live s' = live s - {fd}" "cq (outside s') = cq (outside s) @ [fd]"
proof -
  have fd: "socket_fd c = fd" "fd \<in> live s" using srv_ok_obj [OF ok c(1,2)] c by (auto simp: live_def)
  define s2 where "s2 = s\<lparr>objs := (objs s)(t \<mapsto> c\<lparr>status := CLOSE\<rparr>),
    outside := (outside s)\<lparr>cq := cq (outside s) @ [fd]\<rparr>\<rparr>"
  have s2: "step_ok {} {} s s2 \<and> live s2 = live s"
    by (rule step_ok_cong [OF ok]) (auto simp: s2_def c)
  then have ok2: "srv_ok s2" by (simp add: step_ok_def)
  have d: "dispatch H IN False fd s = connects_remove_fd fd s2"
    using tp H c fd
    by (simp add: dispatch_def process_def process_base_def fails_quietly_def notify_close_def
        queue_simps s2_def)
  have "fd \<in> live s2" using fd s2 by simp
  from remove_step [OF ok2 this] obtain s' where s': "connects_remove_fd fd s2 = Ret s'"
    "step_ok {fd} {} s2 s'" "live s' = live s2 - {fd}" "cq (outside s') = cq (outside s2)" by blast
  from step_ok_trans [of "{}" "{}" s s2 "{fd}" "{}" s'] s2 s'(2) have "step_ok {fd} {} s s'" by simp
  with that d s' s2 show ?thesis by (simp add: s2_def)
qed

text \<open>C24: Without a thread pool a connection whose handler fails is removed at once, and its
  descriptor is in the close queue as well. If the kernel gives the same number to a client
  accepted in the same batch, the next turn of the loop finds the stale entry and closes the new
  connection, which has not had a single event.\<close>

theorem stale_entry_closes_new_client:
  assumes "srv_reach H fresh s" "keeps_fd H" "fails_quietly H" "thread_pool s = None"
    and "pointer_at s fd = Some t" "objs s t = Some c" "has_close_queue c"
    and "fd \<noteq> - 1" "fd \<noteq> srv_socket_fd s" "cq (outside s) = []" "0 \<le> max_connect_count s"
  shows "\<exists>s1 s2. handle_events H fresh [in_event fd 0, in_event (srv_socket_fd s) fd] s = Ret s1 \<and>
    fd \<in> live s1 \<and> current_connect_count s1 = current_connect_count s \<and>
    wait_loop H fresh [Poll_interrupted] s1 = Ret (True, s2) \<and> fd \<notin> live s2"
proof -
  from srv_reach_ok [OF assms(1,2)] assms(11)
  have ok: "srv_ok s" "current_connect_count s \<le> max_connect_count s" by auto
  from failing_dispatch [OF ok(1) assms(4,3,5,6,7)] obtain s0 where
    s0: "dispatch H IN False fd s = Ret s0" "step_ok {fd} {} s s0" "live s0 = live s - {fd}"
      "cq (outside s0) = cq (outside s) @ [fd]" by blast
  have fd: "fd \<in> live s" "0 < card (live s)"
    using assms(5) ok(1) by (auto simp: live_def srv_ok_def card_gt_0_iff)
  have ok0: "srv_ok s0" "srv_socket_fd s0 = srv_socket_fd s" "max_connect_count s0 = max_connect_count s"
    using s0(2) by (auto simp: step_ok_def)
  then have n0: "current_connect_count s0 = current_connect_count s - 1"
    using fd ok(1) s0(3) by (simp add: srv_ok_def)
  from accept_client_cases [OF ok0(1), of fresh fd "[]"] n0 ok(2) ok0(3) s0(3) obtain s1 where
    s1: "accept_client fresh fd [] s0 = Ret s1" "srv_ok s1" "cq (outside s1) = [fd]"
      "live s1 = insert fd (live s0)" "current_connect_count s1 = current_connect_count s"
    using s0(4) assms(10) by auto
  from drain_step [OF s1(2)] s1(3) assms(8) obtain s2 where
    "drain_close_queue s1 = Ret s2" "live s2 = live s1 - {fd}" by auto
  moreover have "handle_event H fresh (in_event (srv_socket_fd s) fd) s0 = Ret s1"
    using handle_accept [of H fresh s0 fd] ok0(2) s1(1) by simp
  ultimately show ?thesis
    using s0(1) s1(4,5) handle_in [OF assms(9)] by auto
qed

lemma quiet_facts: "keeps_fd quiet_methods" "fails_quietly quiet_methods"
  by (rule quiet_keeps_fd) (simp add: fails_quietly_def quiet_methods_def)

theorem stale_entry_closes_new_client_witness:
  "\<exists>s1 s2. handle_events quiet_methods new_conn
      [in_event 7 0, in_event (srv_socket_fd client_server) 7] client_server = Ret s1 \<and>
    7 \<in> live s1 \<and> current_connect_count s1 = current_connect_count client_server \<and>
    wait_loop quiet_methods new_conn [Poll_interrupted] s1 = Ret (True, s2) \<and> 7 \<notin> live s2"
  by (rule stale_entry_closes_new_client [OF quiet_reach quiet_facts, where t = 0 and c = client_conn])
     (simp_all add: client_server_def client_conn_def small_server_def blank_server_def pointer_at_def)

text \<open>The result of \<open>accept\<close> is not checked. When it fails with one place left, the failure takes
  the place: an object is taken and counted under descriptor -1, no entry of the close queue ever
  removes it, and from then on every client is refused.\<close>

theorem failed_accept_takes_a_place:
  assumes "srv_reach H fresh s" "keeps_fd H" "- 1 \<notin> live s"
    and "max_connect_count s = current_connect_count s + 1"
  shows "\<exists>s'. handle_event H fresh (in_event (srv_socket_fd s) (- 1)) s = Ret s' \<and>
    current_connect_count s' = max_connect_count s' \<and>
    (\<forall>client. handle_event H fresh (in_event (srv_socket_fd s') client) s' =
       Ret (close_client client s')) \<and>
    (\<forall>q. \<exists>s''. drain_close_queue (s'\<lparr>outside := (outside s')\<lparr>cq := q\<rparr>\<rparr>) = Ret s'' \<and> - 1 \<in> live s'')"
proof -
  from srv_reach_ok [OF assms(1,2)] have ok: "srv_ok s" by blast
  from accept_client_cases [OF ok, of fresh "- 1" "[]"] assms(3,4) obtain s' where
    s': "accept_client fresh (- 1) [] s = Ret s'" "srv_ok s'" "live s' = insert (- 1) (live s)"
      "max_connect_count s' = max_connect_count s"
      "current_connect_count s' = current_connect_count s + 1" by auto
  have "\<exists>s''. drain_close_queue (s'\<lparr>outside := (outside s')\<lparr>cq := q\<rparr>\<rparr>) = Ret s'' \<and> - 1 \<in> live s''"
    for q
  proof -
    let ?s = "s'\<lparr>outside := (outside s')\<lparr>cq := q\<rparr>\<rparr>"
    have "srv_ok ?s \<and> live ?s = live s'" by (rule srv_ok_cong [OF s'(2)]) auto
    with drain_step [of ?s] s'(3) show ?thesis by auto
  qed
  then show ?thesis
    using s' assms(4) by (simp add: handle_accept) (simp add: accept_client_def)
qed

theorem failed_accept_takes_a_place_witness:
  "\<exists>s'. handle_event quiet_methods new_conn (in_event (srv_socket_fd client_server) (- 1)) client_server = Ret s' \<and>
    current_connect_count s' = max_connect_count s' \<and>
    (\<forall>client. handle_event quiet_methods new_conn (in_event (srv_socket_fd s') client) s' =
       Ret (close_client client s')) \<and>
    (\<forall>q. \<exists>s''. drain_close_queue (s'\<lparr>outside := (outside s')\<lparr>cq := q\<rparr>\<rparr>) = Ret s'' \<and> - 1 \<in> live s'')"
  by (rule failed_accept_takes_a_place [OF quiet_reach quiet_facts(1)])
     (simp_all add: client_server_def small_server_def blank_server_def live_def pointer_at_def)

subsection \<open>Freed objects and the thread pool\<close>

abbreviation one_worker :: "nat pool \<Rightarrow> nat wpc \<Rightarrow> bool" where
  "one_worker tp w \<equiv> threads tp = [w] \<and> \<not> stop tp"

text \<open>The worker waiting at the semaphore takes the next task and runs it: four steps.\<close>

lemma task_run:
  assumes "thread_pool s = Some tp" "one_worker tp At_acquire" "sem tp = Suc k"
    "process_pool tp = Some t # q"
  shows "turns H fresh (replicate 4 (Worker 0)) s =
    (case objs s t of
       None \<Rightarrow> Undef
     | Some c \<Rightarrow>
         (let (r, c', w') = process H c (outside s) in
          Ret (s\<lparr>thread_pool := Some (tp\<lparr>sem := k, process_pool := q, threads := [At_loop],
                   started := started tp @ [t]\<rparr>), objs := (objs s)(t \<mapsto> c'), outside := w'\<rparr>)))"
proof -
  have "replicate 4 (Worker 0) = [Worker 0, Worker 0, Worker 0, Worker 0]"
    by (simp add: numeral_eq_Suc)
  then show ?thesis
    using assms
    by (simp add: worker_move_def worker_step.simps sem_acquire_def queue_simps
        split: option.split prod.split)
qed

lemma queue_task:
  assumes "thread_pool s = Some tp" "int (length (process_pool tp)) < max_process_count tp"
    "pointer_at s fd = Some t" "objs s t = Some c"
  shows "dispatch H st al fd s =
    Ret (s\<lparr>objs := (objs s)(t \<mapsto> c\<lparr>status := st\<rparr>), thread_pool := Some (snd (add t tp))\<rparr>)"
  using assms add_result(1) [of t tp] by (auto simp: dispatch_def Let_def split: prod.split)

lemma turns_append: "turns H fresh (xs @ ys) s = bind_out (turns H fresh xs s) (turns H fresh ys)"
proof (induction xs arbitrary: s)
  case (Cons x xs)
  then have "turns H fresh (xs @ ys) = (\<lambda>s. bind_out (turns H fresh xs s) (turns H fresh ys))" by blast
  then show ?case by (cases x) (simp_all add: bind_out_assoc split: option.split)
qed simp

lemma remove_deletes:
  assumes "conn_pool s = None" "pointer_at s fd = Some t" "objs s t = Some c"
  shows "\<exists>s'. connects_remove_fd fd s = Ret s' \<and> objs s' t = None \<and>
    thread_pool s' = thread_pool s \<and> cq (outside s') = cq (outside s)"
  using assms conn_close_facts(2) [of c "outside s"]
  by (auto simp: connects_remove_fd_def put_object_def Let_def split: prod.split)

text \<open>C22: With a thread pool and without one-shot mode, two events of a connection can both wait in
  the queue of the pool: data arrives, then the peer closes. The first task asks for the closure,
  the loop deletes the object, and the worker follows the dangling pointer of the second task.\<close>

theorem second_task_uses_freed_object:
  assumes "srv_reach H fresh s" "keeps_fd H" "process_rdhup H = default_rdhup"
    and "thread_pool s = Some tp" "one_worker tp At_acquire" "process_pool tp = []" "sem tp = 0"
    and "2 \<le> max_process_count tp" "conn_pool s = None" "cq (outside s) = []"
    and "pointer_at s fd = Some t" "objs s t = Some c" "has_close_queue c"
    and "fd \<noteq> - 1" "fd \<noteq> srv_socket_fd s"
  shows "turns H fresh ([Handle (in_event fd 0),
      Handle \<lparr>ev_fd = fd, ev_events = EPOLLIN OR EPOLLRDHUP, ev_client = 0, ev_addr = []\<rparr>] @
      replicate 4 (Worker 0) @ [Drain] @ replicate 5 (Worker 0)) s = Undef"
proof -
  let ?rdhup = "\<lparr>ev_fd = fd, ev_events = EPOLLIN OR EPOLLRDHUP, ev_client = 0, ev_addr = []\<rparr> :: event"
  have fd: "socket_fd c = fd" using srv_reach_ok [OF assms(1,2)] srv_ok_obj assms(11,12) by blast
  define s1 where "s1 = s\<lparr>objs := (objs s)(t \<mapsto> c\<lparr>status := IN\<rparr>), thread_pool := Some (snd (add t tp))\<rparr>"
  define s2 where "s2 = s1\<lparr>objs := (objs s1)(t \<mapsto> c\<lparr>status := RDHUP\<rparr>),
    thread_pool := Some (snd (add t (snd (add t tp))))\<rparr>"
  define tp2 where "tp2 = snd (add t (snd (add t tp)))"
  have tp2: "process_pool tp2 = [Some t, Some t]" "sem tp2 = Suc (Suc 0)" "one_worker tp2 At_acquire"
    using assms(5-8) by (auto simp: tp2_def add_def add_enter_def add_push_def add_release_def
        sem_release_def queue_simps)
  have h1: "handle_event H fresh (in_event fd 0) s = Ret s1"
    using queue_task [OF assms(4) _ assms(11,12), of H IN False] assms(6,8)
    by (simp add: handle_in [OF assms(15)] s1_def)
  have "dispatch H RDHUP True fd s1 = Ret s2"
    by (subst queue_task [where tp = "snd (add t tp)" and t = t and c = "c\<lparr>status := IN\<rparr>"])
       (use assms in \<open>auto simp: s1_def s2_def add_def add_enter_def add_push_def add_release_def queue_simps\<close>)
  then have h2: "handle_event H fresh ?rdhup s1 = Ret s2"
    using assms(15) by (simp add: handle_event_def epoll_bits s1_def)
  define s3 where "s3 = s2\<lparr>thread_pool := Some (tp2\<lparr>sem := Suc 0, process_pool := [Some t],
    threads := [At_loop], started := started tp2 @ [t]\<rparr>), objs := (objs s2)(t \<mapsto> c\<lparr>status := CLOSE\<rparr>),
    outside := (outside s)\<lparr>cq := [fd]\<rparr>\<rparr>"
  have "turns H fresh (replicate 4 (Worker 0)) s2 = Ret s3"
    using task_run [of s2 tp2 "Suc 0" t "[Some t]" H fresh] tp2 assms(3,10,13) fd
    by (simp add: s2_def s1_def s3_def tp2_def process_def default_rdhup_def notify_close_def queue_simps)
  moreover obtain s4 where s4: "drain_close_queue s3 = Ret s4" "objs s4 t = None"
      "thread_pool s4 = thread_pool s3"
  proof -
    let ?s = "s3\<lparr>outside := (outside s3)\<lparr>cq := []\<rparr>\<rparr>"
    have "conn_pool ?s = None" "pointer_at ?s fd = Some t" "objs ?s t = Some (c\<lparr>status := CLOSE\<rparr>)"
      using assms(9,11) by (simp_all add: s3_def s2_def s1_def)
    from remove_deletes [OF this] obtain s' where "connects_remove_fd fd ?s = Ret s'" "objs s' t = None"
      "thread_pool s' = thread_pool s3" "cq (outside s') = []" by auto
    moreover have "drain_close_queue s3 = bind_out (connects_remove_fd fd ?s) drain_close_queue"
      by (subst drain_cons [of s3 fd "[]"]) (use assms(11,14) in \<open>simp_all add: s3_def s2_def s1_def\<close>)
    ultimately show ?thesis using that drain_nil [of s'] by simp
  qed
  define s5 where "s5 = s4\<lparr>thread_pool := Some (tp2\<lparr>sem := Suc 0, process_pool := [Some t],
    threads := [At_acquire], started := started tp2 @ [t]\<rparr>)\<rparr>"
  have "worker_move H 0 s4 = Some (Ret s5)"
    using s4(3) tp2(3) by (simp add: worker_move_def worker_step.simps s3_def s5_def)
  moreover have "turns H fresh (replicate 4 (Worker 0)) s5 = Undef"
    using task_run [of s5 _ 0 t "[]" H fresh] s4(2) tp2(3) by (simp add: s5_def)
  moreover have "replicate 5 (Worker 0) = Worker 0 # replicate 4 (Worker 0)"
    by (simp add: numeral_eq_Suc)
  ultimately show ?thesis
    using h1 h2 s4(1) by (simp add: turns_append)
qed

definition threads_conf :: conf_values where
  "threads_conf = \<lparr>cf_max_connect_count = 5, cf_multi_thread = Some 1, cf_object_pool = None,
     cf_one_shot = Some False, cf_et = None, cf_max_events_count = None, cf_listen_queue_count = None,
     cf_port_reuse = None, cf_address_reuse = None\<rparr>"

definition one_pool :: "nat wpc \<Rightarrow> nat pool" where
  "one_pool w = \<lparr>max_process_count = 40000, process_pool = [], sem = 0, stop = False, threads = [w],
     producer = Outside, pushed = [], started = []\<rparr>"

definition threads_server :: "unit server" where
  "threads_server = blank_server\<lparr>max_connect_count := 5, thread_pool := Some (one_pool At_loop),
    srv_one_shot := False, srv_socket_fd := 3, srv_epoll_fd := 4,
    outside := \<lparr>calls = epoll_add 4 3 False False False, cq = []\<rparr>\<rparr>"

definition threads_client :: "nat wpc \<Rightarrow> unit server" where
  "threads_client w = threads_server\<lparr>connects := [7 \<mapsto> Some 0],
    objs := [0 \<mapsto> client_conn\<lparr>ET := False, one_shot := False\<rparr>], next_obj := 1,
    thread_pool := Some (one_pool w), current_connect_count := 1,
    outside := \<lparr>calls = epoll_add 4 3 False False False @ epoll_add 4 7 False False True, cq = []\<rparr>\<rparr>"

lemma threads_start:
  "conv_single_new threads_conf 3 =
     Some (threads_server\<lparr>srv_epoll_fd := - 1, outside := \<lparr>calls = [], cq = []\<rparr>\<rparr>)"
  "wait_start small_start (threads_server\<lparr>srv_epoll_fd := - 1, outside := \<lparr>calls = [], cq = []\<rparr>\<rparr>) =
     Some threads_server"
  by (simp_all add: threads_server_def conv_single_new_def threads_conf_def blank_server_def opt_set_def
        enable_multi_thread_def set_one_shot_def new_pool_def one_pool_def wait_start_def small_start_def)

lemma threads_accept:
  "handle_event quiet_methods new_conn (in_event 3 7) threads_server = Ret (threads_client At_loop)"
  "worker_move quiet_methods 0 (threads_client At_loop) = Some (Ret (threads_client At_acquire))"
  by (simp_all add: handle_event_def accept_client_def take_object_def heap_get_def worker_move_def
      worker_step.simps one_pool_def pointer_at_def conn_init_def client_conn_def threads_client_def
      threads_server_def blank_server_def new_conn_def sock.extend_def new_sock_def)

lemma threads_reach: "srv_reach quiet_methods new_conn (threads_client At_acquire)"
  by (rule srv_reach.work [OF srv_reach.handle [OF srv_reach.start [OF threads_start] _ threads_accept(1)]
        threads_accept(2)])
     (simp add: threads_server_def)

theorem second_task_uses_freed_object_witness:
  "turns quiet_methods new_conn ([Handle (in_event 7 0),
      Handle \<lparr>ev_fd = 7, ev_events = EPOLLIN OR EPOLLRDHUP, ev_client = 0, ev_addr = []\<rparr>] @
      replicate 4 (Worker 0) @ [Drain] @ replicate 5 (Worker 0)) (threads_client At_acquire) = Undef"
  by (rule second_task_uses_freed_object [OF threads_reach quiet_facts(1),
        where tp = "one_pool At_acquire" and t = 0 and c = "client_conn\<lparr>ET := False, one_shot := False\<rparr>"])
     (simp_all add: quiet_methods_def threads_client_def one_pool_def threads_server_def blank_server_def
        pointer_at_def client_conn_def)

end
