(* ===== verification/Json.thy ===== *)
theory Json
  imports CppNumber "HOL-Library.Finite_Map"
begin

text \<open>
  The values of \<open>src/core/include/json/json.h\<close>: \<open>json_val\<close>, the class \<open>json\<close>, and their printing.
  An \<open>unordered_map\<close> is a finite map; the order in which it is walked is the parameter \<open>order\<close>, from
  the set of keys to a list of them. Copies are deep, so a value here is what a \<open>json_val\<close> holds, not
  where it is stored; the memory of arrays is the subject of \<open>JsonArray\<close>. A failed \<open>assert\<close> is
  \<open>Abort\<close>.
\<close>

section \<open>Values\<close>

datatype json_type = JSON_NULL | JSON_INT | JSON_DOUBLE | JSON_BOOL | JSON_STRING | JSON_ARRAY | JSON_JSON

datatype json_ret =
  JSON_INVALID_VALUE | JSON_OK | JSON_PARSE_STRING_0 | JSON_MISS_SQUARE | JSON_PARSE_EXPECT_VALUE
| JSON_MISS_KEY | JSON_MISS_COLON | JSON_MISS_CURLY | JSON_PARSE_INVALID_UNICODE_SURROGATE
| JSON_PARSE_INVALID_UNICODE_HEX

text \<open>A string is a buffer read as a C string, with a \<open>size\<close> of its own.\<close>

datatype json_val =
  V_null
| V_int "32 word"
| V_double double
| V_bool bool
| V_string string nat
| V_array "json_val list"
| V_json "(string, json_val) fmap"

type_synonym json = "(string, json_val) fmap"

primrec type_of :: "json_val \<Rightarrow> json_type" where
  "type_of V_null = JSON_NULL"
| "type_of (V_int i) = JSON_INT"
| "type_of (V_double d) = JSON_DOUBLE"
| "type_of (V_bool b) = JSON_BOOL"
| "type_of (V_string s n) = JSON_STRING"
| "type_of (V_array vs) = JSON_ARRAY"
| "type_of (V_json m) = JSON_JSON"

definition cstr :: "string \<Rightarrow> string" where
  "cstr s = takeWhile (\<lambda>c. c \<noteq> NUL) s"

lemma cstr_id: "NUL \<notin> set s \<Longrightarrow> cstr s = s"
  by (auto simp: cstr_def takeWhile_eq_all_conv)

text \<open>The constructor from a string takes its C string; the assignment keeps the size.\<close>

definition string_val :: "string \<Rightarrow> json_val" where
  "string_val s = V_string (cstr s) (length (cstr s))"

definition assign_string :: "string \<Rightarrow> json_val" where
  "assign_string s = V_string (cstr s) (length s)"

section \<open>Conversions and access\<close>

definition as_int32 :: "json_val \<Rightarrow> 32 word outcome" where
  "as_int32 v = (case v of V_int i \<Rightarrow> Ret i | _ \<Rightarrow> Abort)"

definition as_double :: "json_val \<Rightarrow> double outcome" where
  "as_double v = (case v of V_double d \<Rightarrow> Ret d | _ \<Rightarrow> Abort)"

definition as_short :: "json_val \<Rightarrow> 16 word outcome" where
  "as_short v =
     (case v of
        V_int i \<Rightarrow> Ret (ucast i)
      | V_double d \<Rightarrow> bind_out (double_cast 16 d) (\<lambda>i. Ret (word_of_int i))
      | _ \<Rightarrow> Abort)"

definition as_string :: "json_val \<Rightarrow> string outcome" where
  "as_string v = (case v of V_string s n \<Rightarrow> Ret s | _ \<Rightarrow> Abort)"

definition as_bool :: "json_val \<Rightarrow> bool outcome" where
  "as_bool v = (case v of V_bool b \<Rightarrow> Ret b | _ \<Rightarrow> Abort)"

definition as_long_long :: "json_val \<Rightarrow> 64 word outcome" where
  "as_long_long v =
     (case v of V_double d \<Rightarrow> bind_out (double_cast 64 d) (\<lambda>i. Ret (word_of_int i)) | _ \<Rightarrow> Abort)"

text \<open>\<open>v[index]\<close>: the index is compared as a \<open>size_t\<close>, so a negative one is out of bounds too.\<close>

definition val_at :: "json_val \<Rightarrow> size_t \<Rightarrow> json_val outcome" where
  "val_at v index =
     (case v of
        V_array vs \<Rightarrow> if of_nat (length vs) \<le> index then Throw else Ret (vs ! unat index)
      | _ \<Rightarrow> Abort)"

definition val_at_int :: "json_val \<Rightarrow> 32 word \<Rightarrow> json_val outcome" where
  "val_at_int v index = val_at v (scast index)"

text \<open>\<open>operator[]\<close> of \<open>json\<close> inserts null for a missing key; the result is the element and the map.\<close>

definition json_at :: "json \<Rightarrow> string \<Rightarrow> json_val \<times> json" where
  "json_at m key =
     (case fmlookup m key of Some v \<Rightarrow> (v, m) | None \<Rightarrow> (V_null, fmupd key V_null m))"

definition val_at_key :: "json_val \<Rightarrow> string \<Rightarrow> (json_val \<times> json_val) outcome" where
  "val_at_key v key =
     (case v of V_json m \<Rightarrow> (let (x, m') = json_at m key in Ret (x, V_json m')) | _ \<Rightarrow> Abort)"

definition eq_string :: "json_val \<Rightarrow> string \<Rightarrow> bool outcome" where
  "eq_string v s = (case v of V_string t n \<Rightarrow> Ret (t = cstr s) | _ \<Rightarrow> Abort)"

definition eq_int :: "json_val \<Rightarrow> 32 word \<Rightarrow> bool outcome" where
  "eq_int v x =
     (case v of V_double d \<Rightarrow> Ret (d = int_to_double x) | V_int i \<Rightarrow> Ret (i = x) | _ \<Rightarrow> Abort)"

text \<open>A NaN is equal to nothing.\<close>

definition eq_double :: "json_val \<Rightarrow> double \<Rightarrow> bool outcome" where
  "eq_double v x =
     (case v of
        V_double d \<Rightarrow> Ret (d = x \<and> d \<noteq> NaN)
      | V_int i \<Rightarrow> Ret (int_to_double i = x)
      | _ \<Rightarrow> Abort)"

definition eq_bool :: "json_val \<Rightarrow> bool \<Rightarrow> bool outcome" where
  "eq_bool v b = (case v of V_bool c \<Rightarrow> Ret (c = b) | _ \<Rightarrow> Abort)"

definition val_push_back :: "json_val \<Rightarrow> json_val \<Rightarrow> json_val outcome" where
  "val_push_back v x = (case v of V_array vs \<Rightarrow> Ret (V_array (vs @ [x])) | _ \<Rightarrow> Abort)"

definition val_size :: "json_val \<Rightarrow> nat" where
  "val_size v = (case v of V_array vs \<Rightarrow> length vs | V_string s n \<Rightarrow> n | _ \<Rightarrow> 0)"

section \<open>The class \<open>json\<close>\<close>

type_synonym key_order = "string fset \<Rightarrow> string list"

definition key_order_ok :: "key_order \<Rightarrow> bool" where
  "key_order_ok order \<longleftrightarrow> (\<forall>ks. fset_of_list (order ks) = ks \<and> distinct (order ks))"

definition iterate :: "key_order \<Rightarrow> (string, 'v) fmap \<Rightarrow> (string \<times> 'v) list" where
  "iterate order m = map (\<lambda>k. (k, the (fmlookup m k))) (order (fmdom m))"

definition json_emplace :: "string \<times> json_val \<Rightarrow> json \<Rightarrow> json" where
  "json_emplace p m = (case fmlookup m (fst p) of Some _ \<Rightarrow> m | None \<Rightarrow> fmupd (fst p) (snd p) m)"

text \<open>The constructor from a list, the copy constructor, and copy assignment, which adds to what the
  target already holds.\<close>

definition json_of_list :: "(string \<times> json_val) list \<Rightarrow> json" where
  "json_of_list kvs = fold json_emplace kvs fmempty"

definition json_assign :: "key_order \<Rightarrow> json \<Rightarrow> json \<Rightarrow> json" where
  "json_assign order cp self = fold json_emplace (iterate order cp) self"

definition json_copy :: "key_order \<Rightarrow> json \<Rightarrow> json" where
  "json_copy order cp = json_assign order cp fmempty"

definition json_move_assign :: "json \<Rightarrow> json \<Rightarrow> json" where
  "json_move_assign right self = right"

definition has_key :: "json \<Rightarrow> string \<Rightarrow> bool" where
  "has_key m key \<longleftrightarrow> key |\<in>| fmdom m"

definition keys :: "key_order \<Rightarrow> json \<Rightarrow> string list" where
  "keys order m = map fst (iterate order m)"

definition json_clear :: "json \<Rightarrow> json" where
  "json_clear m = fmempty"

section \<open>Printing\<close>

definition comma_join :: "string list \<Rightarrow> string" where
  "comma_join ss = (case ss of [] \<Rightarrow> [] | s # r \<Rightarrow> s @ concat (map (\<lambda>t. CHR '','' # t) r))"

definition bool_text :: "bool \<Rightarrow> string" where
  "bool_text b = (if b then ''true'' else ''false'')"

definition entry_text :: "string \<Rightarrow> string \<times> string \<Rightarrow> string" where
  "entry_text sep p = DQ # fst p @ DQ # sep @ snd p"

definition object_text :: "string \<Rightarrow> (string \<times> string) list \<Rightarrow> string" where
  "object_text sep ps = CHR ''{'' # comma_join (map (entry_text sep) ps) @ ''}''"

definition array_text :: "string list \<Rightarrow> string" where
  "array_text ss = CHR ''['' # comma_join ss @ '']''"

text \<open>\<open>to_string\<close> and \<open><<\<close> differ in what stands between key and value.\<close>

primrec print_val :: "key_order \<Rightarrow> string \<Rightarrow> json_val \<Rightarrow> string" where
  "print_val order sep V_null = ''null''"
| "print_val order sep (V_int i) = show_int (sint i)"
| "print_val order sep (V_double d) = show_double d"
| "print_val order sep (V_bool b) = bool_text b"
| "print_val order sep (V_string s n) = DQ # s @ [DQ]"
| "print_val order sep (V_array vs) = array_text (map (print_val order sep) vs)"
| "print_val order sep (V_json m) = object_text sep (iterate order (fmmap (print_val order sep) m))"

definition to_string :: "key_order \<Rightarrow> json_val \<Rightarrow> string" where
  "to_string order v = print_val order '':'' v"

definition stream_text :: "key_order \<Rightarrow> json_val \<Rightarrow> string" where
  "stream_text order v = print_val order '' : '' v"

definition to_html_header :: "json_val \<Rightarrow> string outcome" where
  "to_html_header v =
     (case v of V_string s n \<Rightarrow> Ret s | V_int i \<Rightarrow> Ret (show_int (sint i)) | _ \<Rightarrow> Throw)"

definition to_http_header :: "key_order \<Rightarrow> json \<Rightarrow> string outcome" where
  "to_http_header order m =
     bind_out (seq_out (map (\<lambda>(k, v). bind_out (to_html_header v) (\<lambda>t. Ret (k @ '':'' @ t @ [CR, LF])))
       (iterate order m))) (\<lambda>ls. Ret (concat ls))"

text \<open>
  \<open>dump\<close> repeats the cases of \<open>to_string\<close> for the values of the outermost object. Its loop over an
  array has no test for the empty one: \<open>size - 1\<close> wraps, and element 0 of an empty array is read.
\<close>

definition dump_value :: "key_order \<Rightarrow> json_val \<Rightarrow> string outcome" where
  "dump_value order v =
     (case v of
        V_array vs \<Rightarrow> if vs = [] then Undef else Ret (array_text (map (to_string order) vs))
      | V_json m \<Rightarrow> Ret (object_text '' : '' (iterate order (fmmap (to_string order) m)))
      | _ \<Rightarrow> Ret (to_string order v))"

definition dump :: "key_order \<Rightarrow> json \<Rightarrow> string outcome" where
  "dump order m =
     bind_out (seq_out (map (\<lambda>(k, v). bind_out (dump_value order v) (\<lambda>t. Ret (k, t))) (iterate order m)))
       (\<lambda>ps. Ret (object_text '':'' ps))"

definition level_str :: "int \<Rightarrow> string" where
  "level_str level = replicate (nat level) HT"

text \<open>One round of the loop of \<open>format\<close>; the test for a line end at the end of the text is the code's.\<close>

definition format_char :: "bool \<Rightarrow> char \<Rightarrow> string \<times> int \<Rightarrow> string \<times> int" where
  "format_char ends_in_newline c st =
     (let (result, level) = st;
          result = (if level > 0 \<and> ends_in_newline then result @ level_str level else result)
      in if c = CHR ''['' \<or> c = CHR ''{'' then (result @ [c, LF] @ level_str (level + 1), level + 1)
         else if c = CHR '','' then (result @ [c, LF] @ level_str level, level)
         else if c = CHR '']'' \<or> c = CHR ''}'' then (result @ [LF] @ level_str (level - 1) @ [c], level - 1)
         else (result @ [c], level))"

definition format_text :: "string \<Rightarrow> string" where
  "format_text s = fst (fold (format_char (s \<noteq> [] \<and> List.last s = LF)) s ([], 0))"

definition format :: "key_order \<Rightarrow> json \<Rightarrow> string outcome" where
  "format order m = bind_out (dump order m) (\<lambda>s. Ret (format_text s))"

end
