(* ===== verification/JsonParse.thy ===== *)
theory JsonParse
  imports Json
begin

text \<open>
  The parser of \<open>src/core/include/json/json.h\<close>. \<open>context\<close> is the rest of the text with the NUL that ends
  it; reading past that NUL is \<open>Undef\<close>. A parser returns the code, the value its argument holds
  afterwards and the rest. \<open>parse_value\<close> calls itself through arrays and objects, on fuel; out of fuel
  is \<open>Blocked\<close>, and \<open>load\<close> gives enough of it for every text.
\<close>

unbundle bit_operations_syntax

type_synonym ctx = string

type_synonym parse_result = "(json_ret \<times> json_val \<times> ctx) outcome"

section \<open>Reading characters\<close>

definition is_ws :: "char \<Rightarrow> bool" where
  "is_ws c \<longleftrightarrow> c = CR \<or> c = LF \<or> c = CHR '' '' \<or> c = HT"

text \<open>\<open>*context\<close>, and \<open>*context != x || *(context + 1) != y || ...\<close> as far as it is evaluated.\<close>

definition peek :: "ctx \<Rightarrow> char outcome" where
  "peek c = (case c of [] \<Rightarrow> Undef | x # r \<Rightarrow> Ret x)"

fun matches :: "string \<Rightarrow> ctx \<Rightarrow> bool outcome" where
  "matches [] c = Ret True"
| "matches (x # xs) [] = Undef"
| "matches (x # xs) (y # ys) = (if x = y then matches xs ys else Ret False)"

fun skip_ws :: "ctx \<Rightarrow> ctx outcome" where
  "skip_ws [] = Undef"
| "skip_ws (c # r) = (if is_ws c then skip_ws r else Ret (c # r))"

definition finish :: "json_ret \<Rightarrow> json_val \<Rightarrow> ctx \<Rightarrow> parse_result" where
  "finish ret v c = bind_out (skip_ws c) (\<lambda>c1. Ret (ret, v, c1))"

section \<open>Null, booleans and numbers\<close>

definition parse_null :: "ctx \<Rightarrow> parse_result" where
  "parse_null c =
     bind_out (matches ''null'' c) (\<lambda>ok.
     if ok then finish JSON_OK V_null (drop 4 c) else Ret (JSON_INVALID_VALUE, V_null, c))"

text \<open>The test for \<open>f\<close> is made again after \<open>true\<close> has been read.\<close>

definition parse_false :: "json_val \<Rightarrow> ctx \<Rightarrow> parse_result" where
  "parse_false v c =
     bind_out (peek c) (\<lambda>x.
     if x = CHR ''f'' then
       bind_out (matches ''false'' c) (\<lambda>ok.
       if ok then finish JSON_OK (V_bool False) (drop 5 c) else Ret (JSON_INVALID_VALUE, v, c))
     else finish JSON_OK v c)"

definition parse_bool :: "ctx \<Rightarrow> parse_result" where
  "parse_bool c =
     bind_out (peek c) (\<lambda>x.
     if x \<noteq> CHR ''t'' \<and> x \<noteq> CHR ''f'' then Ret (JSON_INVALID_VALUE, V_null, c)
     else if x = CHR ''t'' then
       bind_out (matches ''true'' c) (\<lambda>ok.
       if ok then parse_false (V_bool True) (drop 4 c) else Ret (JSON_INVALID_VALUE, V_null, c))
     else parse_false V_null c)"

text \<open>\<open>if (int(tmp) == tmp)\<close>: the cast is evaluated for every number.\<close>

definition number_val :: "double \<Rightarrow> json_val outcome" where
  "number_val tmp =
     bind_out (double_cast 32 tmp) (\<lambda>i.
     Ret (if Fin (of_int i) = tmp then V_int (word_of_int i) else V_double tmp))"

definition parse_number :: "ctx \<Rightarrow> parse_result" where
  "parse_number c =
     bind_out (peek c) (\<lambda>x.
     if \<not> is_digit x \<and> x \<noteq> CHR ''-'' then Ret (JSON_INVALID_VALUE, V_null, c)
     else
       let (tmp, n) = strtod (cstr c) in
       if n = 0 then Ret (JSON_INVALID_VALUE, V_null, c)
       else bind_out (number_val tmp) (\<lambda>v. finish JSON_OK v (drop n c)))"

section \<open>Strings\<close>

text \<open>\<open>parse_hex4\<close>: the digits so far, and the rest after the last character read.\<close>

definition hex_digit :: "char \<Rightarrow> u32 option" where
  "hex_digit ch = (if is_hex ch then Some (of_nat (hex_value ch)) else None)"

fun hex_loop :: "nat \<Rightarrow> u32 \<Rightarrow> ctx \<Rightarrow> (u32 option \<times> ctx) outcome" where
  "hex_loop 0 u c = Ret (Some u, c)"
| "hex_loop (Suc i) u c =
     (case c of
        [] \<Rightarrow> Undef
      | ch # r \<Rightarrow>
          (case hex_digit ch of None \<Rightarrow> Ret (None, r) | Some d \<Rightarrow> hex_loop i (push_bit 4 u OR d) r))"

definition parse_hex4 :: "ctx \<Rightarrow> (u32 option \<times> ctx) outcome" where
  "parse_hex4 c = hex_loop 4 0 c"

text \<open>\<open>cur.push_back\<close> of an \<open>unsigned\<close> keeps its low byte.\<close>

definition byte_of :: "u32 \<Rightarrow> char" where
  "byte_of u = char_of (unat u)"

definition utf8_bytes :: "u32 \<Rightarrow> string" where
  "utf8_bytes u =
     (if u < 0x7F then [byte_of (u AND 0xFF)]
      else if u \<le> 0xFF then
        [byte_of (0xC0 OR (drop_bit 6 u AND 0xFF)), byte_of (0x80 OR (u AND 0x3F))]
      else if u \<le> 0xFFFF then
        [byte_of (0xE0 OR (drop_bit 12 u AND 0xFF)), byte_of (0x80 OR (drop_bit 6 u AND 0x3F)),
         byte_of (0x80 OR (u AND 0x3F))]
      else
        [byte_of (0xF0 OR (drop_bit 18 u AND 0xFF)), byte_of (0x80 OR (drop_bit 12 u AND 0x3F)),
         byte_of (0x80 OR (drop_bit 6 u AND 0x3F)), byte_of (0x80 OR (u AND 0x3F))])"

definition join_surrogates :: "u32 \<Rightarrow> u32 \<Rightarrow> u32" where
  "join_surrogates u u2 = (push_bit 10 (u - 0xD800) OR (u2 - 0xDC00)) + 0x10000"

text \<open>What \<open>assert(u <= 0x10FFFF)\<close> tests before four bytes are pushed.\<close>

definition push_unicode :: "u32 \<Rightarrow> ctx \<Rightarrow> (json_ret \<times> string \<times> ctx) outcome" where
  "push_unicode u c =
     (if 0xFFFF < u then bind_out (assert_out (u \<le> 0x10FFFF)) (\<lambda>_. Ret (JSON_OK, utf8_bytes u, c))
      else Ret (JSON_OK, utf8_bytes u, c))"

definition low_surrogate :: "u32 \<Rightarrow> ctx \<Rightarrow> (json_ret \<times> string \<times> ctx) outcome" where
  "low_surrogate u c =
     bind_out (peek c) (\<lambda>x.
     if x \<noteq> CHR 0x5C then Ret (JSON_PARSE_INVALID_UNICODE_SURROGATE, [], tl c)
     else
       bind_out (peek (tl c)) (\<lambda>y.
       if y \<noteq> CHR ''u'' then Ret (JSON_PARSE_INVALID_UNICODE_SURROGATE, [], drop 2 c)
       else
         bind_out (parse_hex4 (drop 2 c)) (\<lambda>(u2, c2).
         case u2 of
           None \<Rightarrow> Ret (JSON_PARSE_INVALID_UNICODE_HEX, [], c2)
         | Some u2 \<Rightarrow>
             if u2 < 0xDC00 \<or> 0xDFFF < u2 then Ret (JSON_PARSE_INVALID_UNICODE_SURROGATE, [], c2)
             else push_unicode (join_surrogates u u2) c2)))"

definition parse_unicode :: "ctx \<Rightarrow> (json_ret \<times> string \<times> ctx) outcome" where
  "parse_unicode c =
     bind_out (parse_hex4 c) (\<lambda>(u, c1).
     case u of
       None \<Rightarrow> Ret (JSON_PARSE_INVALID_UNICODE_SURROGATE, [], c1)
     | Some u \<Rightarrow>
         if 0xD800 \<le> u \<and> u \<le> 0xDBFF then low_surrogate u c1 else push_unicode u c1)"

definition simple_escape :: "char \<Rightarrow> char option" where
  "simple_escape c =
     map_of [(DQ, DQ), (CHR 0x5C, CHR 0x5C), (CHR ''/'', CHR ''/''), (CHR ''b'', CHR 0x08),
             (CHR ''f'', CHR 0x0C), (CHR ''n'', LF), (CHR ''r'', CR), (CHR ''t'', HT)] c"

text \<open>The switch on the character after a backslash.\<close>

definition parse_escape :: "ctx \<Rightarrow> (json_ret \<times> string \<times> ctx) outcome" where
  "parse_escape c =
     bind_out (peek c) (\<lambda>x.
     case simple_escape x of
       Some y \<Rightarrow> Ret (JSON_OK, [y], tl c)
     | None \<Rightarrow>
         if x = CHR ''u'' then parse_unicode (tl c)
         else Ret (JSON_PARSE_INVALID_UNICODE_SURROGATE, [], tl c))"

lemma hex_loop_length: "hex_loop i u c = Ret (r, c1) \<Longrightarrow> length c1 \<le> length c"
proof (induction i arbitrary: u c)
  case (Suc i)
  then show ?case by (fastforce split: list.splits option.splits)
qed simp

lemma push_unicode_ctx: "push_unicode u c = Ret (r, b, c1) \<Longrightarrow> c1 = c"
  by (auto simp: push_unicode_def assert_out_def split: if_splits)

lemma low_surrogate_length: "low_surrogate u c = Ret (r, b, c1) \<Longrightarrow> length c1 \<le> length c"
  by (auto simp: low_surrogate_def bind_out_Ret_iff parse_hex4_def split: if_splits option.splits
      dest!: hex_loop_length push_unicode_ctx)

lemma parse_unicode_length: "parse_unicode c = Ret (r, b, c1) \<Longrightarrow> length c1 \<le> length c"
  by (force simp: parse_unicode_def bind_out_Ret_iff parse_hex4_def split: if_splits option.splits
      dest!: hex_loop_length push_unicode_ctx low_surrogate_length)

lemma parse_escape_length: "parse_escape c = Ret (r, b, c1) \<Longrightarrow> length c1 \<le> length c"
  by (auto simp: parse_escape_def bind_out_Ret_iff split: if_splits option.splits
      dest!: parse_unicode_length)

function string_loop :: "ctx \<Rightarrow> string \<Rightarrow> (json_ret \<times> string \<times> ctx) outcome" where
  "string_loop c cur =
     (case c of
        [] \<Rightarrow> Undef
      | x # r \<Rightarrow>
          if x = DQ then Ret (JSON_OK, cur, r)
          else if x = CHR 0x5C then
            bind_out (parse_escape r) (\<lambda>(ret, b, r1).
            if ret \<noteq> JSON_OK then Ret (ret, cur, r1) else string_loop r1 (cur @ b))
          else if x = NUL then Ret (JSON_PARSE_STRING_0, cur, r)
          else string_loop r (cur @ [x]))"
  by pat_completeness auto

termination
  by (relation "measure (\<lambda>(c, cur). length c)") (auto dest: parse_escape_length)

declare string_loop.simps [simp del]

definition parse_string :: "ctx \<Rightarrow> parse_result" where
  "parse_string c =
     bind_out (peek c) (\<lambda>x.
     if x \<noteq> DQ then Ret (JSON_INVALID_VALUE, V_null, c)
     else
       bind_out (string_loop (tl c) []) (\<lambda>(ret, cur, c1).
       if ret = JSON_OK then finish JSON_OK (assign_string cur) c1 else Ret (ret, V_null, c1)))"

text \<open>Keys: \<open>parse_string_raw\<close> knows no escapes.\<close>

fun raw_loop :: "ctx \<Rightarrow> string \<Rightarrow> (json_ret \<times> string \<times> ctx) outcome" where
  "raw_loop [] str = Undef"
| "raw_loop (x # r) str =
     (if x = DQ then bind_out (skip_ws r) (\<lambda>r1. Ret (JSON_OK, str, r1))
      else if x = NUL then Ret (JSON_PARSE_STRING_0, str, r)
      else raw_loop r (str @ [x]))"

definition parse_string_raw :: "ctx \<Rightarrow> (json_ret \<times> string \<times> ctx) outcome" where
  "parse_string_raw c =
     bind_out (peek c) (\<lambda>x.
     if x \<noteq> DQ then Ret (JSON_INVALID_VALUE, [], c) else raw_loop (tl c) [])"

section \<open>Arrays, objects and values\<close>

text \<open>What an array argument holds after the given elements were pushed.\<close>

definition array_so_far :: "json_val list \<Rightarrow> json_val" where
  "array_so_far vs = (if vs = [] then V_null else V_array vs)"

text \<open>A key, the colon, and the rest up to the value.\<close>

definition parse_key :: "ctx \<Rightarrow> (json_ret \<times> string \<times> ctx) outcome" where
  "parse_key c =
     bind_out (peek c) (\<lambda>x.
     if x \<noteq> DQ then Ret (JSON_MISS_KEY, [], c)
     else
       bind_out (parse_string_raw c) (\<lambda>(ret, cur, c1).
       if ret \<noteq> JSON_OK then Ret (ret, cur, c1)
       else
         bind_out (skip_ws c1) (\<lambda>c2.
         bind_out (peek c2) (\<lambda>y.
         if y \<noteq> CHR '':'' then Ret (JSON_MISS_COLON, cur, c2)
         else bind_out (skip_ws (tl c2)) (\<lambda>c3. Ret (JSON_OK, cur, c3))))))"

text \<open>
  The loops of \<open>parse_array\<close> and \<open>parse_json\<close>, at most \<open>k\<close> rounds; \<open>pv\<close> is the recursive call of
  \<open>parse_value\<close>.
\<close>

type_synonym value_parser = "ctx \<Rightarrow> parse_result"

primrec array_items :: "value_parser \<Rightarrow> nat \<Rightarrow> json_val list \<Rightarrow> ctx \<Rightarrow> parse_result" where
  "array_items pv 0 vs c = Blocked"
| "array_items pv (Suc k) vs c =
     bind_out (skip_ws c) (\<lambda>c0.
     bind_out (pv c0) (\<lambda>(ret, v, c1).
     if ret \<noteq> JSON_OK then Ret (ret, array_so_far vs, c1)
     else
       bind_out (skip_ws c1) (\<lambda>c2.
       bind_out (peek c2) (\<lambda>x.
       if x = CHR '','' then bind_out (skip_ws (tl c2)) (\<lambda>c3. array_items pv k (vs @ [v]) c3)
       else if x = CHR '']'' then finish JSON_OK (V_array (vs @ [v])) (tl c2)
       else finish JSON_MISS_SQUARE (V_array (vs @ [v])) c2))))"

definition parse_array :: "value_parser \<Rightarrow> nat \<Rightarrow> ctx \<Rightarrow> parse_result" where
  "parse_array pv k c =
     bind_out (peek c) (\<lambda>x.
     if x \<noteq> CHR ''['' then Ret (JSON_INVALID_VALUE, V_null, c)
     else
       bind_out (skip_ws (tl c)) (\<lambda>c1.
       bind_out (peek c1) (\<lambda>y.
       if y = CHR '']'' then finish JSON_OK (V_array []) (tl c1) else array_items pv k [] c1)))"

primrec object_items :: "value_parser \<Rightarrow> nat \<Rightarrow> json \<Rightarrow> ctx \<Rightarrow> parse_result" where
  "object_items pv 0 m c = Blocked"
| "object_items pv (Suc k) m c =
     bind_out (parse_key c) (\<lambda>(ret, cur, c1).
     if ret \<noteq> JSON_OK then Ret (ret, V_null, c1)
     else
       bind_out (pv c1) (\<lambda>(ret, tmp, c2).
       if ret \<noteq> JSON_OK then Ret (ret, V_null, c2)
       else
         let m1 = json_emplace (cur, tmp) m in
         bind_out (skip_ws c2) (\<lambda>c3.
         bind_out (peek c3) (\<lambda>x.
         if x = CHR '','' then bind_out (skip_ws (tl c3)) (\<lambda>c4. object_items pv k m1 c4)
         else if x = CHR ''}'' then finish JSON_OK (V_json m1) (tl c3)
         else finish JSON_MISS_CURLY V_null c3))))"

definition parse_json :: "value_parser \<Rightarrow> nat \<Rightarrow> ctx \<Rightarrow> parse_result" where
  "parse_json pv k c =
     bind_out (peek c) (\<lambda>x.
     if x \<noteq> CHR ''{'' then Ret (JSON_INVALID_VALUE, V_null, c)
     else
       bind_out (skip_ws (tl c)) (\<lambda>c1.
       bind_out (peek c1) (\<lambda>y.
       if y = CHR ''}'' then Ret (JSON_OK, V_json fmempty, tl c1) else object_items pv k fmempty c1)))"

text \<open>\<open>case '\n': ... { parse_white_space(); }\<close> falls through to the booleans.\<close>

primrec parse_value :: "nat \<Rightarrow> ctx \<Rightarrow> parse_result" where
  "parse_value 0 c = Blocked"
| "parse_value (Suc k) c =
     bind_out (peek c) (\<lambda>x.
     if x = LF \<or> x = HT \<or> x = CR then bind_out (skip_ws c) parse_bool
     else if x = CHR ''t'' \<or> x = CHR ''f'' then parse_bool c
     else if x = CHR ''n'' then parse_null c
     else if x = DQ then parse_string c
     else if x = CHR ''['' then parse_array (parse_value k) k c
     else if x = CHR ''{'' then parse_json (parse_value k) k c
     else if x = NUL then Ret (JSON_PARSE_EXPECT_VALUE, V_null, c)
     else parse_number c)"

section \<open>Loading\<close>

text \<open>
  Nesting and the number of elements are bounded by the length of the text. The result code of \<open>parse_value\<close> is not looked at, only the type of the value.
\<close>

definition fuel_for :: "string \<Rightarrow> nat" where
  "fuel_for str = length str + 2"

definition load :: "string \<Rightarrow> json \<Rightarrow> (bool \<times> json) outcome" where
  "load str self =
     bind_out (parse_value (fuel_for str) (str @ [NUL])) (\<lambda>(ret, val, c).
     case val of V_json m \<Rightarrow> Ret (True, json_move_assign m (json_clear self)) | _ \<Rightarrow> Ret (False, json_clear self))"

text \<open>\<open>load_by_file_name\<close>; the file system is a map from names to contents.\<close>

definition load_by_file_name :: "(string \<Rightarrow> string option) \<Rightarrow> string \<Rightarrow> json \<Rightarrow> (bool \<times> json) outcome" where
  "load_by_file_name files name self =
     (case files name of None \<Rightarrow> Ret (False, self) | Some str \<Rightarrow> load str self)"

end
