(* ===== verification/JsonGrammar.thy ===== *)
theory JsonGrammar
  imports JsonParse
begin

text \<open>
  What texts the parser of \<open>JsonParse\<close> understands: the relation \<open>renders\<close> between a value and its
  texts, with white space between tokens, escapes in strings, numbers in every notation \<open>strtod\<close>
  reads, and repeated keys. Every text of a value is parsed to that value.
\<close>

section \<open>White space and ends\<close>

definition ws :: "string \<Rightarrow> bool" where
  "ws w \<longleftrightarrow> list_all is_ws w"

definition trim :: "ctx \<Rightarrow> ctx" where
  "trim c = dropWhile is_ws c"

text \<open>What may stand behind a value.\<close>

definition delim :: "ctx \<Rightarrow> bool" where
  "delim r \<longleftrightarrow> NUL \<in> set r \<and> (hd r \<in> {CHR '','', CHR '']'', CHR ''}'', NUL} \<or> is_ws (hd r))"

lemma is_ws_chars [simp]:
  "\<not> is_ws NUL" "\<not> is_ws DQ" "\<not> is_ws (CHR '','')" "\<not> is_ws (CHR '']'')" "\<not> is_ws (CHR ''}'')"
  "\<not> is_ws (CHR '':'')" "\<not> is_ws (CHR ''['')" "\<not> is_ws (CHR ''{'')" "is_ws (CHR '' '')"
  by (simp_all add: is_ws_def)

lemma skip_ws_trim: "NUL \<in> set c \<Longrightarrow> skip_ws c = Ret (trim c)"
  by (induction c) (auto simp: trim_def)

lemma trim_simps [simp]:
  "ws w \<Longrightarrow> trim (w @ c) = trim c" "\<not> is_ws x \<Longrightarrow> trim (x # c) = x # c"
  "trim (trim c) = trim c"
  by (induction w) (simp_all add: ws_def trim_def)

lemma trim_NUL: "NUL \<in> set c \<Longrightarrow> NUL \<in> set (trim c)"
  by (induction c) (auto simp: trim_def)

lemma finish_trim: "NUL \<in> set c \<Longrightarrow> finish ret v c = Ret (ret, v, trim c)"
  by (simp add: finish_def skip_ws_trim)

lemma peek_Cons [simp]: "peek (x # c) = Ret x"
  by (simp add: peek_def)

lemma peek_hd: "c \<noteq> [] \<Longrightarrow> peek c = Ret (hd c)"
  by (cases c) simp_all

lemma delim_NUL: "delim r \<Longrightarrow> NUL \<in> set r"
  by (simp add: delim_def)

lemma delim_ws: "ws w \<Longrightarrow> NUL \<in> set r \<Longrightarrow> delim r \<Longrightarrow> delim (w @ r)"
  by (cases w) (auto simp: delim_def ws_def)

lemma delim_Cons: "x \<in> {CHR '','', CHR '']'', CHR ''}''} \<Longrightarrow> NUL \<in> set r \<Longrightarrow> delim (x # r)"
  by (auto simp: delim_def)

lemma cstr_append: "NUL \<notin> set t \<Longrightarrow> cstr (t @ r) = t @ cstr r"
  by (induction t) (auto simp: cstr_def)

lemma delim_number_end: "delim r \<Longrightarrow> number_end (cstr r)"
  by (cases r) (auto simp: delim_def number_end_def cstr_def is_ws_def)

section \<open>The texts of a value\<close>

definition number_text :: "json_val \<Rightarrow> string \<Rightarrow> bool" where
  "number_text v t \<longleftrightarrow>
     number_start t \<and> NUL \<notin> set t \<and> (case strtod t of (d, n) \<Rightarrow> n = length t \<and> number_val d = Ret v)"

definition hexes_word :: "string \<Rightarrow> u32" where
  "hexes_word h = foldl (\<lambda>u c. push_bit 4 u OR of_nat (hex_value c)) 0 h"

definition hex4 :: "string \<Rightarrow> bool" where
  "hex4 h \<longleftrightarrow> length h = 4 \<and> list_all is_hex h"

inductive str_text :: "string \<Rightarrow> string \<Rightarrow> bool" where
  str_end: "str_text [] []"
| str_plain: "c \<noteq> DQ \<Longrightarrow> c \<noteq> CHR 0x5C \<Longrightarrow> c \<noteq> NUL \<Longrightarrow> str_text s t \<Longrightarrow> str_text (c # s) (c # t)"
| str_escape: "simple_escape x = Some y \<Longrightarrow> str_text s t \<Longrightarrow> str_text (y # s) (CHR 0x5C # x # t)"
| str_unicode: "hex4 h \<Longrightarrow> \<not> (0xD800 \<le> hexes_word h \<and> hexes_word h \<le> 0xDBFF) \<Longrightarrow> str_text s t \<Longrightarrow>
    str_text (utf8_bytes (hexes_word h) @ s) (CHR 0x5C # CHR ''u'' # h @ t)"
| str_surrogates: "hex4 h \<Longrightarrow> hex4 h2 \<Longrightarrow> 0xD800 \<le> hexes_word h \<Longrightarrow> hexes_word h \<le> 0xDBFF \<Longrightarrow>
    0xDC00 \<le> hexes_word h2 \<Longrightarrow> hexes_word h2 \<le> 0xDFFF \<Longrightarrow> str_text s t \<Longrightarrow>
    str_text (utf8_bytes (join_surrogates (hexes_word h) (hexes_word h2)) @ s)
      (CHR 0x5C # CHR ''u'' # h @ CHR 0x5C # CHR ''u'' # h2 @ t)"

definition key_ok :: "string \<Rightarrow> bool" where
  "key_ok k \<longleftrightarrow> DQ \<notin> set k \<and> NUL \<notin> set k"

definition padded :: "(string \<Rightarrow> bool) \<Rightarrow> string \<Rightarrow> bool" where
  "padded P t \<longleftrightarrow> (\<exists>w1 u w2. ws w1 \<and> ws w2 \<and> t = w1 @ u @ w2 \<and> P u)"

definition entry :: "string \<Rightarrow> (string \<Rightarrow> bool) \<Rightarrow> string \<Rightarrow> bool" where
  "entry k P t \<longleftrightarrow>
     (\<exists>w1 w2 u. ws w1 \<and> ws w2 \<and> key_ok k \<and> t = w1 @ DQ # k @ DQ # w2 @ CHR '':'' # u \<and> padded P u)"

lemma padded_mono [mono]: "(\<And>u. P u \<longrightarrow> Q u) \<Longrightarrow> padded P t \<longrightarrow> padded Q t"
  by (auto simp: padded_def)

lemma entry_mono [mono]: "(\<And>u. P u \<longrightarrow> Q u) \<Longrightarrow> entry k P t \<longrightarrow> entry k Q t"
  using padded_mono [of P Q] by (fastforce simp: entry_def)

inductive renders :: "json_val \<Rightarrow> string \<Rightarrow> bool" where
  r_null: "renders V_null ''null''"
| r_bool: "renders (V_bool b) (bool_text b)"
| r_number: "number_text v t \<Longrightarrow> renders v t"
| r_string: "str_text s t \<Longrightarrow> renders (assign_string s) (DQ # t @ [DQ])"
| r_empty_array: "ws w \<Longrightarrow> renders (V_array []) (CHR ''['' # w @ '']'')"
| r_array: "vs \<noteq> [] \<Longrightarrow> list_all2 (\<lambda>v t. padded (\<lambda>u. renders v u) t) vs ts \<Longrightarrow>
    renders (V_array vs) (array_text ts)"
| r_empty_object: "ws w \<Longrightarrow> renders (V_json fmempty) (CHR ''{'' # w @ ''}'')"
| r_object: "kvs \<noteq> [] \<Longrightarrow> list_all2 (\<lambda>p t. entry (fst p) (\<lambda>u. renders (snd p) u) t) kvs ts \<Longrightarrow>
    renders (V_json (json_of_list kvs)) (CHR ''{'' # comma_join ts @ ''}'')"

section \<open>Reading tokens\<close>

lemma matches_append: "matches p (p @ r) = Ret True"
  by (induction p) auto

lemma parse_null_text: "delim r \<Longrightarrow> parse_null (''null'' @ r) = Ret (JSON_OK, V_null, trim r)"
  unfolding parse_null_def matches_append by (simp add: finish_trim delim_NUL)

lemma delim_peek:
  assumes "delim r"
  shows "\<exists>x. peek r = Ret x \<and> x \<noteq> CHR ''f''"
  using assms by (cases r) (auto simp: delim_def is_ws_def)

lemma parse_false_skip: "delim r \<Longrightarrow> parse_false v r = Ret (JSON_OK, v, trim r)"
  using delim_peek [of r] by (auto simp: parse_false_def finish_trim delim_NUL)

lemma parse_bool_text:
  assumes "delim r"
  shows "parse_bool (bool_text b @ r) = Ret (JSON_OK, V_bool b, trim r)"
proof (cases b)
  case True
  then show ?thesis
    using matches_append [of "''true''" r] parse_false_skip [OF assms] by (simp add: parse_bool_def bool_text_def)
next
  case False
  then show ?thesis
    using matches_append [of "''false''" r] assms
    by (simp add: parse_bool_def bool_text_def parse_false_def finish_trim delim_NUL)
qed

lemma number_val_Fin: "number_val d = Ret v \<Longrightarrow> \<exists>q. d = Fin q"
  by (cases d) (auto simp: number_val_def double_cast_def)

lemma parse_number_text:
  assumes "number_text v t" "delim r"
  shows "parse_number (t @ r) = Ret (JSON_OK, v, trim r)"
proof -
  from assms(1) obtain d where t: "number_start t" "NUL \<notin> set t" "strtod t = (d, length t)" "number_val d = Ret v"
    by (auto simp: number_text_def split: prod.splits)
  from number_val_Fin [OF t(4)] obtain q where q: "d = Fin q" by blast
  have "strtod (cstr (t @ r)) = (d, length t)"
    unfolding cstr_append [OF t(2)] q
    by (rule strtod_end [OF delim_number_end [OF assms(2)] t(1)]) (use t(3) q in simp)
  moreover obtain x u where "t = x # u" "is_digit x \<or> x = CHR ''-''"
    using t(1) by (cases t) (auto simp: number_start_def)
  ultimately show ?thesis
    using t(4) assms(2) by (auto simp: parse_number_def finish_trim delim_NUL)
qed

lemma hex_loop_digits:
  "list_all is_hex h \<Longrightarrow> hex_loop (length h) u (h @ r) =
     Ret (Some (foldl (\<lambda>u c. push_bit 4 u OR of_nat (hex_value c)) u h), r)"
  by (induction h arbitrary: u) (auto simp: hex_digit_def)

lemma parse_hex4_digits: "hex4 h \<Longrightarrow> parse_hex4 (h @ r) = Ret (Some (hexes_word h), r)"
  using hex_loop_digits [of h 0 r] by (simp add: hex4_def parse_hex4_def hexes_word_def)

lemma hex_value_bits:
  assumes "is_hex c"
  shows "take_bit (n + 4) (of_nat (hex_value c)) = (of_nat (hex_value c) :: u32)"
proof -
  have "hex_value c \<le> 15"
    using assms by (auto simp: is_hex_def hex_value_def is_digit_def digit_value_def)
  also have "15 < (2::nat) ^ 4" by simp
  also have "\<dots> \<le> 2 ^ (n + 4)" by (rule power_increasing) simp_all
  finally show ?thesis by (simp add: take_bit_of_nat take_bit_nat_eq_self)
qed

lemma hexes_bits:
  fixes u :: u32
  assumes "list_all is_hex h" "take_bit n u = u"
  shows "take_bit (n + 4 * length h) (foldl (\<lambda>u c. push_bit 4 u OR of_nat (hex_value c)) u h) =
    foldl (\<lambda>u c. push_bit 4 u OR of_nat (hex_value c)) u h"
  using assms
proof (induction h arbitrary: n u)
  case (Cons c h)
  let ?u = "push_bit 4 u OR of_nat (hex_value c) :: u32"
  have "take_bit (n + 4) ?u = ?u"
    using Cons.prems hex_value_bits [of c n] by (simp add: take_bit_push_bit)
  with Cons.IH [of "n + 4" ?u] Cons.prems(1) show ?case by (simp add: add.assoc)
qed simp

lemma hex4_bound:
  assumes "hex4 h"
  shows "hexes_word h \<le> 0xFFFF"
proof -
  have "take_bit 16 (hexes_word h) = hexes_word h"
    using hexes_bits [of h 0 0] assms by (simp add: hex4_def hexes_word_def)
  moreover have "(0xFFFF :: u32) = mask 16" by (simp add: mask_eq_exp_minus_1)
  ultimately show ?thesis by (metis take_bit_eq_mask word_and_le1)
qed

lemma push_unicode_ok: "u \<le> 0x10FFFF \<Longrightarrow> push_unicode u c = Ret (JSON_OK, utf8_bytes u, c)"
  by (simp add: push_unicode_def assert_out_def)

lemma join_surrogates_bound:
  assumes "0xD800 \<le> u" "u \<le> 0xDBFF" "0xDC00 \<le> u2" "u2 \<le> 0xDFFF"
  shows "join_surrogates u u2 \<le> 0x10FFFF"
proof -
  have m: "x \<le> 0x3FF \<Longrightarrow> take_bit 10 x = x" "x \<le> 0x3FF \<Longrightarrow> take_bit 20 x = x" for x :: u32
    by (simp_all add: word_le_nat_alt word_unat_eq_iff unsigned_take_bit_eq take_bit_nat_eq_self)
  have "u - 0xD800 \<le> 0x3FF" "u2 - 0xDC00 \<le> 0x3FF"
    using assms by (simp_all add: word_le_nat_alt unat_sub)
  note bits = m(1) [OF this(1)] m(2) [OF this(2)]
  let ?x = "push_bit 10 (u - 0xD800) OR (u2 - 0xDC00)"
  have "take_bit 20 ?x = ?x" using bits by (simp add: take_bit_push_bit)
  moreover have "(0xFFFFF :: u32) = mask 20" by (simp add: mask_eq_exp_minus_1)
  ultimately have "?x \<le> 0xFFFFF" by (metis take_bit_eq_mask word_and_le1)
  then show ?thesis by (simp add: join_surrogates_def word_le_nat_alt unat_word_ariths)
qed

lemma parse_unicode_digits:
  assumes "hex4 h" "\<not> (0xD800 \<le> hexes_word h \<and> hexes_word h \<le> 0xDBFF)"
  shows "parse_unicode (h @ r) = Ret (JSON_OK, utf8_bytes (hexes_word h), r)"
proof -
  have "hexes_word h \<le> 0x10FFFF" using hex4_bound [OF assms(1)] by (rule order_trans) simp
  then show ?thesis
    using parse_hex4_digits [OF assms(1)] assms(2) by (auto simp: parse_unicode_def push_unicode_ok)
qed

lemma parse_unicode_pair:
  assumes "hex4 h" "hex4 h2" "0xD800 \<le> hexes_word h" "hexes_word h \<le> 0xDBFF"
    "0xDC00 \<le> hexes_word h2" "hexes_word h2 \<le> 0xDFFF"
  shows "parse_unicode (h @ CHR 0x5C # CHR ''u'' # h2 @ r) =
    Ret (JSON_OK, utf8_bytes (join_surrogates (hexes_word h) (hexes_word h2)), r)"
  using assms push_unicode_ok [OF join_surrogates_bound [OF assms(3-6)]]
  by (auto simp: parse_unicode_def low_surrogate_def parse_hex4_digits)

lemma simple_escape_u: "simple_escape (CHR ''u'') = None"
  by (simp add: simple_escape_def)

lemma string_loop_text:
  "str_text s t \<Longrightarrow> string_loop (t @ DQ # r) cur = Ret (JSON_OK, cur @ s, r)"
proof (induction arbitrary: cur rule: str_text.induct)
  case (str_escape x y s t)
  then show ?case
    by (subst string_loop.simps) (simp add: parse_escape_def)
next
  case (str_unicode h s t)
  then show ?case
    by (subst string_loop.simps) (simp add: parse_escape_def simple_escape_u parse_unicode_digits)
next
  case (str_surrogates h h2 s t)
  then show ?case
    by (subst string_loop.simps) (simp add: parse_escape_def simple_escape_u parse_unicode_pair)
qed (subst string_loop.simps; simp)+

lemma parse_string_text:
  "str_text s t \<Longrightarrow> NUL \<in> set r \<Longrightarrow>
   parse_string (DQ # t @ DQ # r) = Ret (JSON_OK, assign_string s, trim r)"
  by (simp add: parse_string_def string_loop_text finish_trim)

lemma raw_loop_key:
  "key_ok k \<Longrightarrow> NUL \<in> set r \<Longrightarrow> raw_loop (k @ DQ # r) str = Ret (JSON_OK, str @ k, trim r)"
  by (induction k arbitrary: str) (auto simp: key_ok_def skip_ws_trim)

lemma parse_key_text:
  assumes "key_ok k" "ws w" "NUL \<in> set r"
  shows "parse_key (DQ # k @ DQ # w @ CHR '':'' # r) = Ret (JSON_OK, k, trim r)"
  using assms raw_loop_key [OF assms(1), of "w @ CHR '':'' # r" "[]"]
  by (simp add: parse_key_def parse_string_raw_def skip_ws_trim)

section \<open>Reading values\<close>

definition reads :: "json_val \<Rightarrow> string \<Rightarrow> bool" where
  "reads v t \<longleftrightarrow>
     (\<forall>k r. length t < k \<longrightarrow> delim r \<longrightarrow>
        (\<exists>c. parse_value k (t @ r) = Ret (JSON_OK, v, c) \<and> trim c = trim r \<and> NUL \<in> set c))"

lemma readsD:
  assumes "reads v t" "length t < k" "delim r"
  obtains c where "parse_value k (t @ r) = Ret (JSON_OK, v, c)" "trim c = trim r" "NUL \<in> set c"
  using assms unfolding reads_def by blast

lemma readsI:
  assumes "\<And>k r. delim r \<Longrightarrow> length t < Suc k \<Longrightarrow> parse_value (Suc k) (t @ r) = Ret (JSON_OK, v, trim r)"
  shows "reads v t"
  unfolding reads_def
proof (intro allI impI)
  fix k r assume "length t < k" "delim r"
  with assms [of r "k - 1"] show "\<exists>c. parse_value k (t @ r) = Ret (JSON_OK, v, c) \<and> trim c = trim r \<and> NUL \<in> set c"
    by (cases k) (auto simp: delim_NUL trim_NUL)
qed

definition value_start :: "string \<Rightarrow> bool" where
  "value_start t \<longleftrightarrow> t \<noteq> [] \<and> \<not> is_ws (hd t) \<and> hd t \<noteq> CHR '']''"

lemma renders_start: "renders v t \<Longrightarrow> value_start t"
  by (erule renders.cases)
     (auto simp: value_start_def bool_text_def number_text_def number_start_def is_digit_def is_ws_def array_text_def)

lemma trim_start: "value_start t \<Longrightarrow> trim (t @ c) = t @ c"
  by (cases t) (auto simp: value_start_def)

lemma comma_join_Cons: "comma_join (t # ts) = t @ (if ts = [] then [] else CHR '','' # comma_join ts)"
  by (cases ts) (simp_all add: comma_join_def)

lemma array_items_trim:
  "NUL \<in> set c \<Longrightarrow> array_items pv j vs (trim c) = array_items pv j vs c"
  by (cases j) (simp_all add: skip_ws_trim trim_NUL)

text \<open>A value in white space, with its end \<open>x\<close> and what follows.\<close>

lemma padded_value:
  assumes "padded (\<lambda>u. renders v u \<and> reads v u) t" "length t < k" "x \<in> {CHR '','', CHR '']'', CHR ''}''}" "NUL \<in> set r"
  shows "\<exists>u y c. trim (t @ x # r) = u # y \<and> u \<noteq> CHR '']'' \<and>
    parse_value k (u # y) = Ret (JSON_OK, v, c) \<and> trim c = x # r \<and> NUL \<in> set c"
proof -
  from assms(1) obtain w1 u w2 where t: "ws w1" "ws w2" "t = w1 @ u @ w2" "renders v u" "reads v u"
    by (auto simp: padded_def)
  have st: "value_start u" by (rule renders_start [OF t(4)])
  have d: "delim (w2 @ x # r)"
    by (intro delim_ws t(2) delim_Cons) (use assms(3,4) in auto)
  from readsD [OF t(5) _ d, of k] obtain c where
    c: "parse_value k (u @ w2 @ x # r) = Ret (JSON_OK, v, c)" "trim c = trim (w2 @ x # r)" "NUL \<in> set c"
    using assms(2) t(3) by auto
  have "trim c = x # r" using c(2) t(2) assms(3) by auto
  moreover have "trim (t @ x # r) = u @ w2 @ x # r" using t(1,3) trim_start [OF st] by simp
  ultimately show ?thesis
    using c st by (cases u) (auto simp: value_start_def)
qed

lemma array_items_texts:
  assumes "list_all2 (\<lambda>v t. padded (\<lambda>u. renders v u \<and> reads v u) t) vs ts" "vs \<noteq> []"
    and "length vs \<le> j" "length (comma_join ts) < k" "NUL \<in> set r"
  shows "array_items (parse_value k) j acc (comma_join ts @ CHR '']'' # r) = Ret (JSON_OK, V_array (acc @ vs), trim r)"
  using assms
proof (induction arbitrary: acc j rule: list_all2_induct)
  case (Cons v vs t ts)
  obtain i where j: "j = Suc i" using Cons.prems(2) by (cases j) auto
  show ?case
  proof (cases "ts = []")
    case True
    with Cons.hyps have vs: "vs = []" by simp
    have "length t < k" using Cons.prems(3) True by (simp add: comma_join_Cons)
    from padded_value [OF Cons.hyps(1) this, of "CHR '']''" r] Cons.prems(4)
    obtain u y c where "trim (t @ CHR '']'' # r) = u # y" "parse_value k (u # y) = Ret (JSON_OK, v, c)"
      "trim c = CHR '']'' # r" "NUL \<in> set c" by auto
    with True j vs Cons.prems(4) show ?thesis
      by (simp add: comma_join_Cons skip_ws_trim finish_trim)
  next
    case False
    let ?r = "comma_join ts @ CHR '']'' # r"
    have "length t < k" "length (comma_join ts) < k" using Cons.prems(3) False by (auto simp: comma_join_Cons)
    from padded_value [OF Cons.hyps(1) this(1), of "CHR '',''" ?r] Cons.prems(4)
    obtain u y c where c: "trim (t @ CHR '','' # ?r) = u # y" "parse_value k (u # y) = Ret (JSON_OK, v, c)"
      "trim c = CHR '','' # ?r" "NUL \<in> set c" by auto
    have "vs \<noteq> []" using Cons.hyps(2) False by auto
    from Cons.IH [OF this, of i "acc @ [v]"] Cons.prems j \<open>length (comma_join ts) < k\<close>
    have "array_items (parse_value k) i (acc @ [v]) ?r = Ret (JSON_OK, V_array (acc @ v # vs), trim r)" by simp
    with c False j Cons.prems(4) show ?thesis
      by (simp add: comma_join_Cons skip_ws_trim array_items_trim)
  qed
qed simp

lemma object_items_trim:
  assumes "entry k P t"
  shows "\<exists>w1 w2 u. ws w2 \<and> key_ok k \<and> padded P u \<and> t = w1 @ DQ # k @ DQ # w2 @ CHR '':'' # u \<and>
    trim (t @ r) = DQ # k @ DQ # w2 @ CHR '':'' # u @ r"
proof -
  from assms obtain w1 w2 u where e: "ws w1" "ws w2" "key_ok k" "padded P u"
    "t = w1 @ DQ # k @ DQ # w2 @ CHR '':'' # u" by (auto simp: entry_def)
  then have "trim (t @ r) = DQ # k @ DQ # w2 @ CHR '':'' # u @ r" by simp
  with e show ?thesis by blast
qed

lemma object_items_texts:
  assumes "list_all2 (\<lambda>p t. entry (fst p) (\<lambda>u. renders (snd p) u \<and> reads (snd p) u) t) kvs ts" "kvs \<noteq> []"
    and "length kvs \<le> j" "length (comma_join ts) < k" "NUL \<in> set r"
  shows "object_items (parse_value k) j m (trim (comma_join ts @ CHR ''}'' # r)) =
    Ret (JSON_OK, V_json (fold json_emplace kvs m), trim r)"
  using assms
proof (induction arbitrary: m j rule: list_all2_induct)
  case (Cons p kvs t ts)
  obtain i where j: "j = Suc i" using Cons.prems(2) by (cases j) auto
  obtain key v where p: "p = (key, v)" by (cases p)
  define x r' where "x = (if ts = [] then CHR ''}'' else CHR '','')"
    and "r' = (if ts = [] then r else comma_join ts @ CHR ''}'' # r)"
  have all: "comma_join (t # ts) @ CHR ''}'' # r = t @ x # r'"
    by (simp add: comma_join_Cons x_def r'_def)
  have xr: "x \<in> {CHR '','', CHR '']'', CHR ''}''}" "NUL \<in> set r'" using Cons.prems(4) by (auto simp: x_def r'_def)
  from object_items_trim [OF Cons.hyps(1), of "x # r'"] obtain w1 w2 u where
    e: "ws w2" "key_ok key" "padded (\<lambda>u. renders v u \<and> reads v u) u" "t = w1 @ DQ # key @ DQ # w2 @ CHR '':'' # u"
      "trim (t @ x # r') = DQ # key @ DQ # w2 @ CHR '':'' # u @ x # r'" by (auto simp: p)
  have "length t \<le> length (comma_join (t # ts))" by (simp add: comma_join_Cons)
  then have "length u < k" using Cons.prems(3) e(4) by simp
  from padded_value [OF e(3) this xr] obtain a y c where
    c: "trim (u @ x # r') = a # y" "parse_value k (a # y) = Ret (JSON_OK, v, c)" "trim c = x # r'" "NUL \<in> set c" by auto
  have key: "parse_key (trim (t @ x # r')) = Ret (JSON_OK, key, a # y)"
    unfolding e(5) using parse_key_text [OF e(2,1), of "u @ x # r'"] c(1) xr(2) by simp
  show ?case
  proof (cases "ts = []")
    case True
    with Cons.hyps have kvs: "kvs = []" by simp
    show ?thesis unfolding all j using key c True kvs Cons.prems(4)
      by (simp add: skip_ws_trim finish_trim x_def r'_def p)
  next
    case False
    have "kvs \<noteq> []" using Cons.hyps(2) False by auto
    moreover have "length (comma_join ts) < k" using Cons.prems(3) False by (simp add: comma_join_Cons)
    ultimately have "object_items (parse_value k) i (json_emplace p m) (trim r') =
        Ret (JSON_OK, V_json (fold json_emplace (p # kvs) m), trim r)"
      using Cons.IH [of i "json_emplace p m"] Cons.prems(2,4) j False by (simp add: r'_def)
    then show ?thesis unfolding all j using key c False xr(2)
      by (simp add: skip_ws_trim x_def p)
  qed
qed simp

lemma list_all2_comma_join:
  "list_all2 P vs ts \<Longrightarrow> (\<And>v t. P v t \<Longrightarrow> t \<noteq> []) \<Longrightarrow> length vs \<le> length (comma_join ts)"
proof (induction rule: list_all2_induct)
  case (Cons v vs t ts)
  then have "t \<noteq> []" "length vs \<le> length (comma_join ts)" by auto
  then show ?case
    using Cons.hyps(2) by (cases t; cases "ts = []") (auto simp: comma_join_Cons)
qed simp

lemma padded_not_Nil: "padded (\<lambda>u. renders v u \<and> reads v u) t \<Longrightarrow> t \<noteq> []"
  using renders_start by (fastforce simp: padded_def value_start_def)

lemma entry_not_Nil: "entry k P t \<Longrightarrow> t \<noteq> []"
  by (auto simp: entry_def)

lemma reads_array:
  assumes "vs \<noteq> []" "list_all2 (\<lambda>v t. padded (\<lambda>u. renders v u \<and> reads v u) t) vs ts"
  shows "reads (V_array vs) (array_text ts)"
proof (rule readsI)
  fix k r assume r: "delim r" and len: "length (array_text ts) < Suc k"
  obtain v vs' t ts' where c: "vs = v # vs'" "ts = t # ts'" "padded (\<lambda>u. renders v u \<and> reads v u) t"
    using assms by (cases vs) (auto simp: list_all2_Cons1)
  have "length vs \<le> length (comma_join ts)"
    by (rule list_all2_comma_join [OF assms(2)]) (rule padded_not_Nil)
  with array_items_texts [OF assms(2,1), of k k r "[]"] len delim_NUL [OF r]
  have "array_items (parse_value k) k [] (comma_join ts @ CHR '']'' # r) = Ret (JSON_OK, V_array vs, trim r)"
    by (simp add: array_text_def)
  moreover obtain x r' where x: "comma_join ts @ CHR '']'' # r = t @ x # r'" "x \<in> {CHR '','', CHR '']'', CHR ''}''}"
      "NUL \<in> set r'"
    using c(2) delim_NUL [OF r] by (cases "ts' = []") (auto simp: comma_join_Cons)
  moreover have "length t < k" using len c(2) by (simp add: array_text_def comma_join_Cons)
  from padded_value [OF c(3) this x(2,3)] obtain u y where "trim (t @ x # r') = u # y" "u \<noteq> CHR '']''" by blast
  ultimately show "parse_value (Suc k) (array_text ts @ r) = Ret (JSON_OK, V_array vs, trim r)"
    using array_items_trim [of "comma_join ts @ CHR '']'' # r" "parse_value k" k "[]"] delim_NUL [OF r]
    by (simp add: array_text_def parse_array_def skip_ws_trim)
qed

lemma parse_object_text:
  assumes "kvs \<noteq> []" "list_all2 (\<lambda>p t. entry (fst p) (\<lambda>u. renders (snd p) u \<and> reads (snd p) u) t) kvs ts"
    and r: "NUL \<in> set r" and len: "length (CHR ''{'' # comma_join ts @ ''}'') < Suc k"
  shows "parse_value (Suc k) ((CHR ''{'' # comma_join ts @ ''}'') @ r) = Ret (JSON_OK, V_json (json_of_list kvs), trim r)"
proof -
  let ?c = "comma_join ts @ CHR ''}'' # r"
  have "length kvs \<le> length (comma_join ts)"
    by (rule list_all2_comma_join [OF assms(2)]) (rule entry_not_Nil)
  with object_items_texts [OF assms(2,1), of k k r fmempty] len r
  have items: "object_items (parse_value k) k fmempty (trim ?c) = Ret (JSON_OK, V_json (json_of_list kvs), trim r)"
    by (simp add: json_of_list_def)
  obtain p kvs' t ts' where "kvs = p # kvs'" "ts = t # ts'" "entry (fst p) (\<lambda>u. renders (snd p) u \<and> reads (snd p) u) t"
    using assms(1,2) by (cases kvs) (auto simp: list_all2_Cons1)
  moreover from this obtain x where "?c = t @ x" by (simp add: comma_join_Cons)
  ultimately obtain y where "trim ?c = DQ # y" using object_items_trim by metis
  with items r
  show ?thesis by (simp add: parse_json_def skip_ws_trim)
qed

lemma parse_empty_object_text:
  "ws w \<Longrightarrow> NUL \<in> set r \<Longrightarrow>
   parse_value (Suc k) ((CHR ''{'' # w @ ''}'') @ r) = Ret (JSON_OK, V_json fmempty, r)"
  by (simp add: parse_json_def skip_ws_trim)

lemma digit_chars:
  "is_digit x \<or> x = CHR ''-'' \<Longrightarrow> x \<notin> {LF, HT, CR, CHR ''t'', CHR ''f'', CHR ''n'', DQ, CHR ''['', CHR ''{'', NUL}"
  by (auto simp: is_digit_def)

lemma parse_value_number:
  assumes "number_text v t"
  shows "parse_value (Suc k) (t @ r) = parse_number (t @ r)"
proof -
  obtain x u where t: "t = x # u" "is_digit x \<or> x = CHR ''-''"
    using assms by (cases t) (auto simp: number_text_def number_start_def)
  from digit_chars [OF this(2)] t(1) show ?thesis by simp
qed

lemma renders_reads: "renders v t \<Longrightarrow> reads v t"
proof (induction rule: renders.induct)
  case r_null
  show ?case using parse_null_text by (intro readsI) simp
next
  case (r_bool b)
  show ?case
  proof (rule readsI)
    fix k r assume "delim r"
    from parse_bool_text [OF this, of b]
    show "parse_value (Suc k) (bool_text b @ r) = Ret (JSON_OK, V_bool b, trim r)"
      by (cases b) (simp_all add: bool_text_def)
  qed
next
  case (r_number v t)
  then show ?case by (intro readsI) (simp add: parse_value_number parse_number_text del: parse_value.simps)
next
  case (r_string s t)
  then show ?case by (intro readsI) (simp add: parse_string_text delim_NUL)
next
  case (r_empty_array w)
  then show ?case
    by (intro readsI) (simp add: parse_array_def skip_ws_trim finish_trim delim_NUL)
next
  case (r_array vs ts)
  then show ?case by (intro reads_array)
next
  case (r_empty_object w)
  show ?case
    unfolding reads_def
  proof (intro allI impI)
    fix k r assume "length (CHR ''{'' # w @ ''}'') < k" "delim r"
    with parse_empty_object_text [OF r_empty_object, of r "k - 1"]
    show "\<exists>c. parse_value k ((CHR ''{'' # w @ ''}'') @ r) = Ret (JSON_OK, V_json fmempty, c) \<and>
        trim c = trim r \<and> NUL \<in> set c"
      by (cases k) (auto simp: delim_NUL)
  qed
next
  case (r_object kvs ts)
  then show ?case by (intro readsI parse_object_text) (auto simp: delim_NUL)
qed

lemma number_val_no_object: "\<not> number_text (V_json m) t"
  by (auto simp: number_text_def number_val_def bind_out_Ret_iff split: prod.splits if_splits)

lemma renders_and_reads:
  "list_all2 (\<lambda>p t. entry (fst p) (\<lambda>u. renders (snd p) u) t) kvs ts \<Longrightarrow>
   list_all2 (\<lambda>p t. entry (fst p) (\<lambda>u. renders (snd p) u \<and> reads (snd p) u) t) kvs ts"
proof (erule list_all2_mono)
  fix p t assume "entry (fst p) (\<lambda>u. renders (snd p) u) t"
  then show "entry (fst p) (\<lambda>u. renders (snd p) u \<and> reads (snd p) u) t"
    using entry_mono [of "renders (snd p)" "\<lambda>u. renders (snd p) u \<and> reads (snd p) u" "fst p" t]
      renders_reads by auto
qed

text \<open>\<open>load\<close> reads every text of an object, and does not look at what follows it.\<close>

lemma parse_object:
  assumes "renders (V_json m) t" "length t < Suc k" "NUL \<in> set r"
  shows "\<exists>c. parse_value (Suc k) (t @ r) = Ret (JSON_OK, V_json m, c)"
  using assms(1)
proof cases
  case r_number
  then show ?thesis by (simp add: number_val_no_object)
next
  case (r_empty_object w)
  with parse_empty_object_text [OF r_empty_object(3) assms(3), of k] show ?thesis by blast
next
  case (r_object kvs ts)
  with parse_object_text [OF r_object(3) renders_and_reads [OF r_object(4)] assms(3), of k] assms(2)
  show ?thesis by blast
qed (simp_all add: assign_string_def)

lemma load_renders:
  assumes "renders (V_json m) t"
  shows "load (t @ rest) self = Ret (True, m)"
proof -
  from parse_object [OF assms, of "Suc (length (t @ rest))" "rest @ [NUL]"] obtain c where
    "parse_value (fuel_for (t @ rest)) ((t @ rest) @ [NUL]) = Ret (JSON_OK, V_json m, c)"
    by (auto simp: fuel_for_def simp del: parse_value.simps)
  then show ?thesis by (simp add: load_def json_move_assign_def del: parse_value.simps)
qed

end
