(* ===== verification/JsonPrint.thy ===== *)
theory JsonPrint
  imports JsonGrammar
begin

text \<open>
  Printing and loading: every way the code prints an object (\<open>to_string\<close>, \<open><<\<close>, \<open>dump\<close>,
  \<open>format\<close>) gives a text that \<open>load\<close> reads back, for values whose strings need no escape; and the
  values for which it does not.
\<close>

section \<open>Walking a map\<close>

lemma fmlookup_emplace:
  "fmlookup (json_emplace p m) k =
     (case fmlookup m k of Some v \<Rightarrow> Some v | None \<Rightarrow> if k = fst p then Some (snd p) else None)"
  by (auto simp: json_emplace_def split: option.splits)

lemma fmlookup_emplace_all:
  "fmlookup (fold json_emplace kvs m) k =
     (case fmlookup m k of Some v \<Rightarrow> Some v | None \<Rightarrow> map_of kvs k)"
  by (induction kvs arbitrary: m) (auto simp: fmlookup_emplace split: option.splits)

lemma key_order_set: "key_order_ok order \<Longrightarrow> set (order ks) = fset ks"
  by (metis fset_of_list.rep_eq key_order_ok_def)

lemma iterate_keys: "map fst (iterate order m) = order (fmdom m)"
  by (simp add: iterate_def comp_def)

lemma map_of_iterate:
  assumes "key_order_ok order"
  shows "map_of (iterate order m) k = fmlookup m k"
proof -
  have "map_of (map (\<lambda>k. (k, the (fmlookup m k))) ks) k =
      (if k \<in> set ks then Some (the (fmlookup m k)) else None)" for ks
    by (induction ks) auto
  then show ?thesis
    using key_order_set [OF assms, of "fmdom m"] by (auto simp: iterate_def fmlookup_dom_iff)
qed

lemma json_of_list_iterate: "key_order_ok order \<Longrightarrow> json_of_list (iterate order m) = m"
  by (rule fmap_ext) (simp add: json_of_list_def fmlookup_emplace_all map_of_iterate)

lemma iterate_fmmap:
  assumes "key_order_ok order"
  shows "iterate order (fmmap f m) = map (\<lambda>(k, v). (k, f v)) (iterate order m)"
  using key_order_set [OF assms, of "fmdom m"]
  by (auto simp: iterate_def fmlookup_dom_iff)

lemma iterate_lookup: "key_order_ok order \<Longrightarrow> (k, v) \<in> set (iterate order m) \<Longrightarrow> fmlookup m k = Some v"
  using key_order_set [of order "fmdom m"] by (auto simp: iterate_def fmlookup_dom_iff)

lemma iterate_Nil: "key_order_ok order \<Longrightarrow> iterate order m = [] \<longleftrightarrow> m = fmempty"
proof -
  assume o: "key_order_ok order"
  have "iterate order m = [] \<longleftrightarrow> set (order (fmdom m)) = {}" by (simp add: iterate_def)
  also have "\<dots> \<longleftrightarrow> m = fmempty"
    by (metis key_order_set [OF o] bot_fset.rep_eq fmdom_empty fmrestrict_fset_dom fmrestrict_fset_null fset_inject)
  finally show ?thesis .
qed

section \<open>Printed values are texts of the grammar\<close>

definition plain_string :: "string \<Rightarrow> bool" where
  "plain_string s \<longleftrightarrow> DQ \<notin> set s \<and> CHR 0x5C \<notin> set s \<and> NUL \<notin> set s"

text \<open>Strings that need no escape, keys without quote, and doubles that six digits determine.\<close>

primrec printable :: "json_val \<Rightarrow> bool" where
  "printable V_null \<longleftrightarrow> True"
| "printable (V_int i) \<longleftrightarrow> True"
| "printable (V_double d) \<longleftrightarrow> number_text (V_double d) (show_double d)"
| "printable (V_bool b) \<longleftrightarrow> True"
| "printable (V_string s n) \<longleftrightarrow> plain_string s \<and> n = length s"
| "printable (V_array vs) \<longleftrightarrow> list_all id (map printable vs)"
| "printable (V_json m) \<longleftrightarrow> fmpred (\<lambda>k b. key_ok k \<and> b) (fmmap printable m)"

lemma str_text_plain: "plain_string s \<Longrightarrow> str_text s s"
  by (induction s) (auto simp: plain_string_def intro: str_text.intros)

lemma renders_string: "plain_string s \<Longrightarrow> renders (V_string s (length s)) (DQ # s @ [DQ])"
  using r_string [OF str_text_plain, of s] by (simp add: assign_string_def plain_string_def cstr_id)

lemma sint_bound: "\<bar>sint (i :: 32 word)\<bar> < 2 ^ 53"
  using sint_ge [of i] sint_lt [of i] by (simp add: abs_if)

lemma number_val_int:
  "- (2 ^ 31) \<le> z \<Longrightarrow> z < 2 ^ 31 \<Longrightarrow> number_val (Fin (of_int z)) = Ret (V_int (word_of_int z))"
  by (simp add: number_val_def double_cast_def)

lemma number_text_int: "number_text (V_int i) (show_int (sint i))"
proof -
  have "NUL \<notin> set (show_nat n)" for n using show_nat_digits [of n] by (auto simp: list_all_iff is_digit_def)
  then have "NUL \<notin> set (show_int (sint i))" by (auto simp: show_int_def)
  moreover have id: "word_of_int (sint i) = i" by simp
  have "number_val (Fin (of_int (sint i))) = Ret (V_int i)"
    using number_val_int [of "sint i"] sint_ge [of i] sint_lt [of i] id by (simp del: of_int_sint)
  ultimately show ?thesis
    using strtod_show_int [OF sint_bound [of i]] number_start_show_int
    by (simp add: number_text_def del: of_int_sint)
qed

lemma padded_id: "P t \<Longrightarrow> padded P t"
  unfolding padded_def by (intro exI [of _ "[]"] exI [of _ t]) (simp add: ws_def)

lemma entry_sep:
  assumes "key_ok k" "sep = '':'' \<or> sep = '' : ''" "P t"
  shows "entry k P (entry_text sep (k, t))"
proof -
  have "padded P ('' '' @ t)"
    unfolding padded_def using assms(3)
    by (intro exI [of _ "'' ''"] exI [of _ t] exI [of _ "[]"]) (simp add: ws_def)
  with assms padded_id [of P t] show ?thesis
    unfolding entry_def entry_text_def
    by (intro exI [of _ "[]"] exI [of _ "if sep = '':'' then [] else '' ''"]
        exI [of _ "if sep = '':'' then t else '' '' @ t"]) (auto simp: ws_def)
qed

lemma renders_object_text:
  assumes "key_order_ok order" "sep = '':'' \<or> sep = '' : ''"
    and "\<And>k v. fmlookup m k = Some v \<Longrightarrow> key_ok k \<and> renders v (f k v)"
  shows "renders (V_json m) (object_text sep (map (\<lambda>(k, v). (k, f k v)) (iterate order m)))"
proof (cases "m = fmempty")
  case True
  then show ?thesis
    using r_empty_object [of "[]"] iterate_Nil [OF assms(1), of m] by (simp add: object_text_def comma_join_def ws_def)
next
  case False
  let ?ts = "map (entry_text sep) (map (\<lambda>(k, v). (k, f k v)) (iterate order m))"
  have kv: "key_ok k \<and> renders v (f k v)" if "(k, v) \<in> set (iterate order m)" for k v
    using assms(3) iterate_lookup [OF assms(1) that] by blast
  have "list_all2 (\<lambda>p t. entry (fst p) (\<lambda>u. renders (snd p) u) t) (iterate order m) ?ts"
    using assms(2) by (auto simp: list_all2_map2 list_all2_same dest: kv intro!: entry_sep)
  from r_object [OF _ this] False iterate_Nil [OF assms(1), of m] json_of_list_iterate [OF assms(1), of m]
  show ?thesis by (simp add: object_text_def)
qed

lemma renders_array_text:
  assumes "\<And>v. v \<in> set vs \<Longrightarrow> renders v (f v)"
  shows "renders (V_array vs) (array_text (map f vs))"
proof (cases "vs = []")
  case True
  then show ?thesis using r_empty_array [of "[]"] by (simp add: array_text_def comma_join_def ws_def)
next
  case False
  moreover have "list_all2 (\<lambda>v t. padded (\<lambda>u. renders v u) t) vs (map f vs)"
    using assms by (auto simp: list_all2_map2 list_all2_same intro!: padded_id)
  ultimately show ?thesis by (rule r_array)
qed

lemma print_val_renders:
  assumes "key_order_ok order" "sep = '':'' \<or> sep = '' : ''"
  shows "printable v \<Longrightarrow> renders v (print_val order sep v)"
proof (induction v)
  case (V_json m)
  have "key_ok k \<and> renders v (print_val order sep v)" if "fmlookup m k = Some v" for k v
    using that V_json fmran'I [OF that] by (auto dest: fmpredD [where x = k and y = "printable v"])
  from renders_object_text [OF assms, of m "\<lambda>_ v. print_val order sep v", OF this]
  show ?case by (simp add: iterate_fmmap [OF assms(1)])
qed (auto simp: list_all_iff intro: renders.intros number_text_int renders_string renders_array_text)

section \<open>Dumping\<close>

definition no_empty_array :: "json \<Rightarrow> bool" where
  "no_empty_array m \<longleftrightarrow> fmpred (\<lambda>k v. v \<noteq> V_array []) m"

definition dump_text :: "key_order \<Rightarrow> json_val \<Rightarrow> string" where
  "dump_text order v =
     (case v of
        V_json m \<Rightarrow> object_text '' : '' (iterate order (fmmap (to_string order) m))
      | _ \<Rightarrow> to_string order v)"

lemma dump_value_text: "v \<noteq> V_array [] \<Longrightarrow> dump_value order v = Ret (dump_text order v)"
  by (cases v) (simp_all add: dump_value_def dump_text_def to_string_def [abs_def])

lemma printable_key: "printable (V_json m) \<Longrightarrow> fmlookup m k = Some v \<Longrightarrow> key_ok k \<and> printable v"
  by (auto dest: fmpredD [where x = k and y = "printable v"])

lemma dump_text_renders:
  assumes "key_order_ok order" "printable v"
  shows "renders v (dump_text order v)"
proof (cases "\<exists>m. v = V_json m")
  case True
  then obtain m where v: "v = V_json m" by blast
  have "key_ok k \<and> renders u (to_string order u)" if "fmlookup m k = Some u" for k u
    using printable_key [of m k u] that assms print_val_renders [OF assms(1), of "'':''"]
    by (simp add: v to_string_def)
  from renders_object_text [OF assms(1), of "'' : ''" m "\<lambda>_. to_string order", OF _ this]
  show ?thesis by (simp add: v dump_text_def iterate_fmmap [OF assms(1)])
next
  case False
  then have "dump_text order v = print_val order '':'' v"
    by (cases v) (simp_all add: dump_text_def to_string_def)
  with print_val_renders [OF assms(1), of "'':''" v] assms(2) show ?thesis by simp
qed

lemma dump_Ret:
  assumes "key_order_ok order" "no_empty_array m"
  shows "dump order m = Ret (object_text '':'' (map (\<lambda>(k, v). (k, dump_text order v)) (iterate order m)))"
proof -
  have "bind_out (dump_value order v) (\<lambda>t. Ret (k, t)) = Ret (k, dump_text order v)"
    if "(k, v) \<in> set (iterate order m)" for k v
    using iterate_lookup [OF assms(1) that] assms(2) dump_value_text
    by (auto simp: no_empty_array_def dest!: fmpredD)
  then have "map (\<lambda>(k, v). bind_out (dump_value order v) (\<lambda>t. Ret (k, t))) (iterate order m) =
      map (\<lambda>p. Ret ((\<lambda>(k, v). (k, dump_text order v)) p)) (iterate order m)"
    by (intro map_cong) (auto split: prod.splits)
  then show ?thesis by (simp only: dump_def seq_out_Ret bind_out.simps)
qed

lemma dump_renders:
  assumes "key_order_ok order" "printable (V_json m)" "no_empty_array m"
  shows "\<exists>t. dump order m = Ret t \<and> renders (V_json m) t"
  using dump_Ret [OF assms(1,3)]
    renders_object_text [OF assms(1), of "'':''" m "\<lambda>_. dump_text order"]
    printable_key [OF assms(2)] dump_text_renders [OF assms(1)] by auto

lemma seq_out_Undef:
  "m \<in> set ms \<Longrightarrow> m = Undef \<Longrightarrow> (\<And>x. x \<in> set ms \<Longrightarrow> (\<exists>y. x = Ret y) \<or> x = Undef) \<Longrightarrow> seq_out ms = Undef"
proof (induction ms)
  case (Cons x ms)
  show ?case
  proof (cases "x = Undef")
    case False
    with Cons.prems obtain y where "x = Ret y" "m \<in> set ms" by auto
    with Cons.IH Cons.prems show ?thesis by simp
  qed simp
qed simp

section \<open>Formatting\<close>

definition format_from :: "int \<Rightarrow> string \<Rightarrow> string \<times> int" where
  "format_from level s = fold (format_char False) s ([], level)"

lemma format_char_append:
  "format_char False c (a @ b, level) = (let (r, l) = format_char False c (b, level) in (a @ r, l))"
  by (auto simp: format_char_def Let_def)

lemma format_fold_append:
  "fold (format_char False) s (a @ b, level) = (let (r, l) = fold (format_char False) s (b, level) in (a @ r, l))"
proof (induction s arbitrary: b level)
  case (Cons c s)
  obtain r l where "format_char False c (b, level) = (r, l)" by fastforce
  with Cons show ?case by (simp add: format_char_append)
qed simp

lemma format_from_append:
  "format_from level (s @ t) =
     (let (a, l) = format_from level s; (b, l') = format_from l t in (a @ b, l'))"
proof -
  obtain a l where "fold (format_char False) s ([], level) = (a, l)" by fastforce
  with format_fold_append [of t a "[]" l] show ?thesis by (simp add: format_from_def)
qed

lemma format_from_Cons:
  "format_from level (c # t) =
     (let (a, l) = format_char False c ([], level); (b, l') = format_from l t in (a @ b, l'))"
  using format_from_append [of level "[c]" t] by (simp add: format_from_def)

lemma format_from_Nil [simp]: "format_from level [] = ([], level)"
  by (simp add: format_from_def)

definition unstructured :: "string \<Rightarrow> bool" where
  "unstructured s \<longleftrightarrow> list_all (\<lambda>c. c \<notin> set ''[]{},'') s"

lemma format_char_cases:
  "c \<notin> set ''[]{},'' \<Longrightarrow> format_char False c (a, l) = (a @ [c], l)"
  "format_char False (CHR '','') (a, l) = (a @ [CHR '','', LF] @ level_str l, l)"
  "c = CHR ''['' \<or> c = CHR ''{'' \<Longrightarrow> format_char False c (a, l) = (a @ [c, LF] @ level_str (l + 1), l + 1)"
  "c = CHR '']'' \<or> c = CHR ''}'' \<Longrightarrow> format_char False c (a, l) = (a @ [LF] @ level_str (l - 1) @ [c], l - 1)"
  by (auto simp: format_char_def)

lemma format_unstructured: "unstructured s \<Longrightarrow> format_from level s = (s, level)"
proof (induction s)
  case (Cons c s)
  then have "c \<notin> set ''[]{},''" "unstructured s" by (auto simp: unstructured_def)
  with Cons.IH show ?case by (simp add: format_from_Cons format_char_cases(1))
qed simp

text \<open>Formatting a text keeps the level and gives another text of the same kind.\<close>

definition formats_to :: "(string \<Rightarrow> bool) \<Rightarrow> string \<Rightarrow> bool" where
  "formats_to P t \<longleftrightarrow> (\<forall>level. \<exists>u. format_from level t = (u, level) \<and> P u)"

definition keeps_ws :: "(string \<Rightarrow> bool) \<Rightarrow> bool" where
  "keeps_ws P \<longleftrightarrow> (\<forall>u w. P u \<longrightarrow> ws w \<longrightarrow> P (w @ u) \<and> P (u @ w))"

lemma padded_keeps_ws: "keeps_ws (padded P)"
proof -
  have "ws (w @ w1)" if "ws w" "ws w1" for w w1 using that by (simp add: ws_def)
  then show ?thesis unfolding keeps_ws_def padded_def by (metis append.assoc)
qed

lemma entry_keeps_ws: "keeps_ws (entry k P)"
proof -
  have w: "ws (w @ w1)" if "ws w" "ws w1" for w w1 using that by (simp add: ws_def)
  have "entry k P (w @ u) \<and> entry k P (u @ w)" if "entry k P u" "ws w" for u w
  proof -
    from that(1) obtain w1 w2 t where e: "ws w1" "ws w2" "key_ok k" "padded P t"
      "u = w1 @ DQ # k @ DQ # w2 @ CHR '':'' # t" by (auto simp: entry_def)
    have "padded P (t @ w)" using padded_keeps_ws [of P] e(4) that(2) by (simp add: keeps_ws_def)
    then have "entry k P (u @ w)" unfolding entry_def using e by (intro exI [of _ w1] exI [of _ w2] exI [of _ "t @ w"]) simp
    moreover have "entry k P (w @ u)"
      unfolding entry_def using e w [OF that(2) e(1)]
      by (intro exI [of _ "w @ w1"] exI [of _ w2] exI [of _ t]) simp
    ultimately show ?thesis by simp
  qed
  then show ?thesis by (simp add: keeps_ws_def)
qed

lemma items_prefix:
  assumes "list_all2 R xs us" "xs \<noteq> []" "\<And>x. keeps_ws (R x)" "ws w"
  shows "\<exists>us'. w @ comma_join us = comma_join us' \<and> list_all2 R xs us'"
proof -
  obtain x xs' u us' where c: "xs = x # xs'" "us = u # us'" "R x u" "list_all2 R xs' us'"
    using assms(1,2) by (cases xs) (auto simp: list_all2_Cons1)
  have "R x (w @ u)" using assms(3,4) c(3) by (simp add: keeps_ws_def)
  with c show ?thesis by (intro exI [of _ "(w @ u) # us'"]) (simp add: comma_join_Cons)
qed

lemma items_suffix:
  assumes "list_all2 R xs us" "xs \<noteq> []" "\<And>x. keeps_ws (R x)" "ws w"
  shows "\<exists>us'. comma_join us @ w = comma_join us' \<and> list_all2 R xs us'"
  using assms(1,2)
proof (induction rule: list_all2_induct)
  case (Cons x xs u us)
  show ?case
  proof (cases "xs = []")
    case True
    then have "us = []" using Cons.hyps(2) by simp
    moreover have "R x (u @ w)" using assms(3,4) Cons.hyps(1) by (simp add: keeps_ws_def)
    ultimately show ?thesis
      using True by (intro exI [of _ "[u @ w]"]) (simp add: comma_join_Cons)
  next
    case False
    with Cons.IH obtain us' where u: "comma_join us @ w = comma_join us'" "list_all2 R xs us'" by blast
    moreover have "us \<noteq> []" "us' \<noteq> []" using False Cons.hyps(2) u(2) by auto
    ultimately show ?thesis
      using Cons.hyps(1) by (intro exI [of _ "u # us'"]) (simp add: comma_join_Cons)
  qed
qed simp

lemma ws_newline: "ws (LF # level_str level)"
  by (simp add: ws_def level_str_def is_ws_def list_all_iff)

lemma format_items:
  assumes "list_all2 (\<lambda>x t. formats_to (R x) t) xs ts" "\<And>x. keeps_ws (R x)"
  shows "\<exists>us. format_from level (comma_join ts) = (comma_join us, level) \<and> list_all2 R xs us"
  using assms(1)
proof (induction rule: list_all2_induct)
  case Nil
  show ?case by (simp add: comma_join_def)
next
  case (Cons x xs t ts)
  from Cons.IH obtain us where us: "format_from level (comma_join ts) = (comma_join us, level)" "list_all2 R xs us"
    by blast
  from Cons.hyps(1) obtain u where u: "format_from level t = (u, level)" "R x u" by (auto simp: formats_to_def)
  show ?case
  proof (cases "xs = []")
    case True
    then have "ts = []" using Cons.hyps(2) by simp
    with True u show ?thesis by (intro exI [of _ "[u]"]) (simp add: comma_join_Cons)
  next
    case False
    from items_prefix [OF us(2) False assms(2) ws_newline [of level]] obtain us' where
      us': "(LF # level_str level) @ comma_join us = comma_join us'" "list_all2 R xs us'" by blast
    have "ts \<noteq> []" "us' \<noteq> []" using False Cons.hyps(2) us'(2) by auto
    then have "format_from level (comma_join (t # ts)) = (comma_join (u # us'), level)"
      using us(1) us'(1) u(1) by (simp add: comma_join_Cons format_from_append format_from_Cons format_char_cases)
    with u(2) us'(2) show ?thesis by (intro exI [of _ "u # us'"]) simp
  qed
qed

text \<open>A bracketed list of items, formatted.\<close>

lemma format_brackets:
  assumes "(a, b) = (CHR ''['', CHR '']'') \<or> (a, b) = (CHR ''{'', CHR ''}'')"
    and "list_all2 (\<lambda>x t. formats_to (R x) t) xs ts" "\<And>x. keeps_ws (R x)" "xs \<noteq> []"
  shows "\<exists>us. format_from level (a # comma_join ts @ [b]) = (a # comma_join us @ [b], level) \<and> list_all2 R xs us"
proof -
  from format_items [OF assms(2,3), of "level + 1"] obtain us where
    us: "format_from (level + 1) (comma_join ts) = (comma_join us, level + 1)" "list_all2 R xs us" by blast
  from items_prefix [OF us(2) assms(4,3) ws_newline [of "level + 1"]] obtain us1 where
    us1: "(LF # level_str (level + 1)) @ comma_join us = comma_join us1" "list_all2 R xs us1" by blast
  from items_suffix [OF us1(2) assms(4,3) ws_newline [of level]] obtain us2 where
    us2: "comma_join us1 @ LF # level_str level = comma_join us2" "list_all2 R xs us2" by blast
  have "format_from level (a # comma_join ts @ [b]) =
      (a # ((LF # level_str (level + 1)) @ comma_join us) @ LF # level_str level @ [b], level)"
    using assms(1) us(1) by (auto simp: format_from_Cons format_from_append format_char_cases)
  also have "\<dots> = (a # comma_join us2 @ [b], level)"
    using us1(1) us2(1) by (metis append.assoc append_Cons)
  finally show ?thesis using us2(2) by blast
qed

text \<open>Values whose strings and keys have none of the characters \<open>format\<close> reacts to.\<close>

primrec format_safe :: "json_val \<Rightarrow> bool" where
  "format_safe V_null \<longleftrightarrow> True"
| "format_safe (V_int i) \<longleftrightarrow> True"
| "format_safe (V_double d) \<longleftrightarrow> unstructured (show_double d)"
| "format_safe (V_bool b) \<longleftrightarrow> True"
| "format_safe (V_string s n) \<longleftrightarrow> unstructured s"
| "format_safe (V_array vs) \<longleftrightarrow> list_all id (map format_safe vs)"
| "format_safe (V_json m) \<longleftrightarrow> fmpred (\<lambda>k b. unstructured k \<and> b) (fmmap format_safe m)"

lemma format_safe_key: "format_safe (V_json m) \<Longrightarrow> fmlookup m k = Some v \<Longrightarrow> unstructured k \<and> format_safe v"
  by (auto dest: fmpredD [where x = k and y = "format_safe v"])

lemma unstructured_append [simp]: "unstructured (s @ t) \<longleftrightarrow> unstructured s \<and> unstructured t"
  by (simp add: unstructured_def)

lemma unstructured_Cons [simp]: "unstructured (c # t) \<longleftrightarrow> c \<notin> set ''[]{},'' \<and> unstructured t"
  by (auto simp: unstructured_def)

lemma unstructured_Nil [simp]: "unstructured []"
  by (simp add: unstructured_def)

lemma unstructured_int: "unstructured (show_int i)"
proof -
  have "unstructured (show_nat n)" for n
    using show_nat_digits [of n] by (auto simp: unstructured_def list_all_iff is_digit_def)
  then show ?thesis by (simp add: show_int_def)
qed

lemma unstructured_bool: "unstructured (bool_text b)"
  by (simp add: bool_text_def)

lemma formats_unstructured: "unstructured t \<Longrightarrow> P t \<Longrightarrow> formats_to P t"
  by (simp add: formats_to_def format_unstructured)

lemma formats_mono: "formats_to P t \<Longrightarrow> (\<And>u. P u \<Longrightarrow> Q u) \<Longrightarrow> formats_to Q t"
  unfolding formats_to_def by blast

lemma formats_array:
  assumes "\<And>v. v \<in> set vs \<Longrightarrow> formats_to (renders v) (f v)"
  shows "formats_to (renders (V_array vs)) (array_text (map f vs))"
proof (cases "vs = []")
  case True
  have "renders (V_array []) (CHR ''['' # (LF # level_str (level + 1) @ LF # level_str level) @ '']'')" for level
    using ws_newline [of level] ws_newline [of "level + 1"] by (intro r_empty_array) (simp add: ws_def)
  then show ?thesis
    using True by (simp add: formats_to_def array_text_def comma_join_def format_from_Cons format_char_cases)
next
  case False
  have "list_all2 (\<lambda>v t. formats_to (padded (\<lambda>u. renders v u)) t) vs (map f vs)"
    using assms by (auto simp: list_all2_map2 list_all2_same intro: formats_mono padded_id)
  from format_brackets [OF _ this _ False, of "CHR ''[''" "CHR '']''"] padded_keeps_ws r_array [OF False]
  show ?thesis unfolding formats_to_def array_text_def by fastforce
qed

lemma formats_entry:
  assumes "key_ok k" "unstructured k" "sep = '':'' \<or> sep = '' : ''" "formats_to P t"
  shows "formats_to (entry k P) (entry_text sep (k, t))"
proof -
  have "format_from level (entry_text sep (k, t)) = (entry_text sep (k, u), level)"
    if "format_from level t = (u, level)" for level u
    using format_unstructured [of "DQ # k @ DQ # sep" level] that assms(2,3)
      format_from_append [of level "DQ # k @ DQ # sep" t] by (auto simp: entry_text_def)
  with assms entry_sep [OF assms(1,3)] show ?thesis unfolding formats_to_def by metis
qed

lemma formats_object:
  assumes "key_order_ok order" "sep = '':'' \<or> sep = '' : ''"
    and "\<And>k v. fmlookup m k = Some v \<Longrightarrow> key_ok k \<and> unstructured k \<and> formats_to (renders v) (f k v)"
  shows "formats_to (renders (V_json m)) (object_text sep (map (\<lambda>(k, v). (k, f k v)) (iterate order m)))"
proof (cases "m = fmempty")
  case True
  have "renders (V_json fmempty) (CHR ''{'' # (LF # level_str (level + 1) @ LF # level_str level) @ ''}'')" for level
    using ws_newline [of level] ws_newline [of "level + 1"] by (intro r_empty_object) (simp add: ws_def)
  then show ?thesis
    using True iterate_Nil [OF assms(1), of m]
    by (simp add: formats_to_def object_text_def comma_join_def format_from_Cons format_char_cases)
next
  case False
  let ?ts = "map (entry_text sep) (map (\<lambda>(k, v). (k, f k v)) (iterate order m))"
  have kv: "key_ok k \<and> unstructured k \<and> formats_to (renders v) (f k v)" if "(k, v) \<in> set (iterate order m)" for k v
    using assms(3) iterate_lookup [OF assms(1) that] by blast
  have items: "list_all2 (\<lambda>p t. formats_to (entry (fst p) (\<lambda>u. renders (snd p) u)) t) (iterate order m) ?ts"
    using assms(2) by (auto simp: list_all2_map2 list_all2_same dest: kv intro!: formats_entry)
  have ne: "iterate order m \<noteq> []" using False iterate_Nil [OF assms(1), of m] by simp
  show ?thesis
    unfolding formats_to_def
  proof
    fix level
    from format_brackets [OF _ items _ ne, of "CHR ''{''" "CHR ''}''" level] entry_keeps_ws obtain us where
      "format_from level (CHR ''{'' # comma_join ?ts @ ''}'') = (CHR ''{'' # comma_join us @ ''}'', level)"
      "list_all2 (\<lambda>p t. entry (fst p) (\<lambda>u. renders (snd p) u) t) (iterate order m) us" by blast
    with r_object [OF ne] json_of_list_iterate [OF assms(1), of m]
    show "\<exists>u. format_from level (object_text sep (map (\<lambda>(k, v). (k, f k v)) (iterate order m))) = (u, level) \<and>
        renders (V_json m) u"
      by (auto simp: object_text_def)
  qed
qed

lemma print_val_formats:
  assumes "key_order_ok order" "sep = '':'' \<or> sep = '' : ''"
  shows "printable v \<Longrightarrow> format_safe v \<Longrightarrow> formats_to (renders v) (print_val order sep v)"
proof (induction v)
  case (V_json m)
  have "key_ok k \<and> unstructured k \<and> formats_to (renders v) (print_val order sep v)" if "fmlookup m k = Some v" for k v
    using printable_key [OF V_json(2) that] format_safe_key [OF V_json(3) that] V_json(1) fmran'I [OF that] by blast
  from formats_object [OF assms, of m "\<lambda>_ v. print_val order sep v", OF this]
  show ?case by (simp add: iterate_fmmap [OF assms(1)])
next
  case (V_array vs)
  then show ?case by (auto simp: list_all_iff intro: formats_array)
qed (auto intro!: formats_unstructured unstructured_int unstructured_bool
     intro: renders.intros number_text_int renders_string)

lemma dump_text_formats:
  assumes "key_order_ok order" "printable v" "format_safe v"
  shows "formats_to (renders v) (dump_text order v)"
proof (cases "\<exists>m. v = V_json m")
  case True
  then obtain m where v: "v = V_json m" by blast
  have "key_ok k \<and> unstructured k \<and> formats_to (renders u) (to_string order u)" if "fmlookup m k = Some u" for k u
    using printable_key [of m k u] format_safe_key [of m k u] that assms
      print_val_formats [OF assms(1), of "'':''"] by (simp add: v to_string_def)
  from formats_object [OF assms(1), of "'' : ''" m "\<lambda>_. to_string order", OF _ this]
  show ?thesis by (simp add: v dump_text_def iterate_fmmap [OF assms(1)])
next
  case False
  then have "dump_text order v = print_val order '':'' v"
    by (cases v) (simp_all add: dump_text_def to_string_def)
  with print_val_formats [OF assms(1), of "'':''" v] assms(2,3) show ?thesis by simp
qed

lemma format_renders:
  assumes "key_order_ok order" "printable (V_json m)" "format_safe (V_json m)" "no_empty_array m"
  shows "\<exists>t. format order m = Ret t \<and> renders (V_json m) t"
proof -
  let ?d = "object_text '':'' (map (\<lambda>(k, v). (k, dump_text order v)) (iterate order m))"
  have "key_ok k \<and> unstructured k \<and> formats_to (renders v) (dump_text order v)" if "fmlookup m k = Some v" for k v
    using printable_key [OF assms(2) that] format_safe_key [OF assms(3) that] dump_text_formats [OF assms(1)] by blast
  from formats_object [OF assms(1), of "'':''" m "\<lambda>_. dump_text order", OF _ this] obtain u where
    "format_from 0 ?d = (u, 0)" "renders (V_json m) u" unfolding formats_to_def by auto
  moreover have "List.last ?d = CHR ''}''" by (simp add: object_text_def)
  ultimately show ?thesis
    using dump_Ret [OF assms(1,4)] by (simp add: format_def format_text_def format_from_def)
qed

end
