(* ===== verification/JsonTotal.thy ===== *)
theory JsonTotal
  imports JsonGrammar "HOL-Library.Sublist"
begin

text \<open>
  Every text can be given to \<open>load\<close>: the parser ends, never reads outside the text and its NUL, and
  fails no assertion. The one thing that can go wrong is a number whose cast to \<open>int\<close> is undefined.
\<close>

section \<open>Positions in a text\<close>

definition pos_in :: "string \<Rightarrow> ctx \<Rightarrow> bool" where
  "pos_in s c \<longleftrightarrow> c \<noteq> [] \<and> suffix c (s @ [NUL])"

lemma pos_in_last: "pos_in s c \<Longrightarrow> last c = NUL"
  by (auto simp: pos_in_def suffix_def) (metis last_appendR last_snoc)

lemma pos_in_NUL: "pos_in s c \<Longrightarrow> NUL \<in> set c"
  by (metis pos_in_def pos_in_last last_in_set)

lemma pos_in_append: "pos_in s (p @ r) \<Longrightarrow> r \<noteq> [] \<Longrightarrow> pos_in s r"
  unfolding pos_in_def by (auto simp: suffix_def)

lemma pos_in_after:
  assumes "pos_in s (p @ r)" "NUL \<notin> set p"
  shows "pos_in s r"
  using pos_in_append [OF assms(1)] pos_in_last [OF assms(1)] assms by (cases r) (auto simp: pos_in_def)

lemma pos_in_tl: "pos_in s (x # r) \<Longrightarrow> x \<noteq> NUL \<Longrightarrow> pos_in s r"
  using pos_in_after [of s "[x]" r] by simp

lemma pos_in_trim: "pos_in s c \<Longrightarrow> pos_in s (trim c) \<and> length (trim c) \<le> length c"
proof -
  assume c: "pos_in s c"
  have "c = takeWhile is_ws c @ trim c" by (simp add: trim_def)
  moreover have "NUL \<notin> set (takeWhile is_ws c)" by (metis is_ws_chars(1) set_takeWhileD)
  ultimately show ?thesis using c pos_in_after by (metis length_dropWhile_le trim_def)
qed

text \<open>The numbers in a text that can be read into an \<open>int\<close> before they are compared.\<close>

definition numbers_fit :: "string \<Rightarrow> bool" where
  "numbers_fit s \<longleftrightarrow> list_all (\<lambda>t. number_start t \<longrightarrow> number_val (fst (strtod (cstr t))) \<noteq> Undef) (suffixes s)"

lemma numbers_fitD:
  assumes "numbers_fit s" "pos_in s (x # r)" "is_digit x \<or> x = CHR ''-''"
  shows "\<exists>v. number_val (fst (strtod (cstr (x # r)))) = Ret v"
proof -
  obtain t where t: "x # r = t @ [NUL]" "suffix t s"
    using assms(2,3) by (auto simp: pos_in_def suffix_append suffix_Cons is_digit_def)
  moreover have "cstr (t @ [NUL]) = cstr t" by (induction t) (simp_all add: cstr_def)
  moreover have "number_start t" using t(1) assms(3) by (cases t) (auto simp: number_start_def is_digit_def)
  ultimately have "number_val (fst (strtod (cstr (x # r)))) \<noteq> Undef"
    using assms(1) by (auto simp: numbers_fit_def list_all_iff)
  then show ?thesis
    by (auto simp: number_val_def double_cast_def split: double.splits if_splits)
qed

text \<open>A parser that returns, and consumes something when it succeeds.\<close>

definition safe :: "string \<Rightarrow> nat \<Rightarrow> (json_ret \<times> 'a \<times> ctx) outcome \<Rightarrow> bool" where
  "safe s n r \<longleftrightarrow> (\<exists>ret v c. r = Ret (ret, v, c) \<and> (ret = JSON_OK \<longrightarrow> pos_in s c \<and> length c < n))"

lemma safe_Ret: "safe s n (Ret (ret, v, c)) \<longleftrightarrow> (ret = JSON_OK \<longrightarrow> pos_in s c \<and> length c < n)"
  by (simp add: safe_def)

lemma safe_finish: "pos_in s c \<Longrightarrow> length c < n \<Longrightarrow> safe s n (finish ret v c)"
  using pos_in_trim [of s c] by (auto simp: finish_trim pos_in_NUL safe_Ret)

lemma safe_mono: "safe s n r \<Longrightarrow> n \<le> m \<Longrightarrow> safe s m r"
  by (auto simp: safe_def)

section \<open>Tokens\<close>

lemma matches_cases:
  assumes "pos_in s c" "NUL \<notin> set p"
  shows "matches p c = Ret False \<or> (\<exists>r. matches p c = Ret True \<and> c = p @ r \<and> pos_in s r)"
  using assms
proof (induction p c rule: matches.induct)
  case (3 x xs y ys)
  show ?case
  proof (cases "x = y")
    case True
    then have "pos_in s ys" using pos_in_tl "3.prems" by auto
    with 3 True show ?thesis by simp
  qed simp
qed (auto simp: pos_in_def)

lemma pos_in_Cons: "pos_in s c \<Longrightarrow> \<exists>x r. c = x # r"
  by (cases c) (auto simp: pos_in_def)

lemma parse_null_safe:
  assumes c: "pos_in s c"
  shows "safe s (length c) (parse_null c)"
proof -
  have "NUL \<notin> set ''null''" by simp
  from matches_cases [OF c this] show ?thesis
  proof (elim disjE exE conjE)
    fix r assume "matches ''null'' c = Ret True" "c = ''null'' @ r" "pos_in s r"
    then show ?thesis by (simp add: parse_null_def safe_finish)
  qed (simp add: parse_null_def safe_Ret)
qed

lemma parse_false_safe:
  assumes c: "pos_in s c" "length c < n"
  shows "safe s n (parse_false v c)"
proof -
  have "NUL \<notin> set ''false''" by simp
  from matches_cases [OF c(1) this] show ?thesis
  proof (elim disjE exE conjE)
    fix r assume "matches ''false'' c = Ret True" "c = ''false'' @ r" "pos_in s r"
    then show ?thesis using c(2) by (simp add: parse_false_def safe_finish)
  next
    assume "matches ''false'' c = Ret False"
    then show ?thesis using c pos_in_Cons [OF c(1)] by (auto simp: parse_false_def safe_Ret safe_finish)
  qed
qed

lemma parse_bool_safe:
  assumes c: "pos_in s c"
  shows "safe s (length c) (parse_bool c)"
proof -
  have t: "NUL \<notin> set ''true''" "NUL \<notin> set ''false''" by simp_all
  obtain x y where x: "c = x # y" using pos_in_Cons [OF c] by blast
  show ?thesis
  proof (cases "x = CHR ''t''")
    case True
    from matches_cases [OF c t(1)] show ?thesis
    proof (elim disjE exE conjE)
      fix r assume "matches ''true'' c = Ret True" "c = ''true'' @ r" "pos_in s r"
      then show ?thesis by (simp add: parse_bool_def parse_false_safe)
    next
      assume "matches ''true'' c = Ret False"
      then show ?thesis using x True by (simp add: parse_bool_def safe_Ret)
    qed
  next
    case False
    show ?thesis
    proof (cases "x = CHR ''f''")
      case True
      from matches_cases [OF c t(2)] show ?thesis
      proof (elim disjE exE conjE)
        fix r assume "matches ''false'' c = Ret True" "c = ''false'' @ r" "pos_in s r"
        then show ?thesis by (simp add: parse_bool_def parse_false_def safe_finish)
      next
        assume "matches ''false'' c = Ret False"
        then show ?thesis using x True by (simp add: parse_bool_def parse_false_def safe_Ret)
      qed
    next
      case f: False
      with x False show ?thesis by (simp add: parse_bool_def safe_Ret)
    qed
  qed
qed

lemma parse_number_safe:
  assumes "pos_in s c" "numbers_fit s"
  shows "safe s (length c) (parse_number c)"
proof -
  obtain x r where x: "c = x # r" using assms(1) by (cases c) (auto simp: pos_in_def)
  obtain d n where d: "strtod (cstr c) = (d, n)" by fastforce
  show ?thesis
  proof (cases "(is_digit x \<or> x = CHR ''-'') \<and> n \<noteq> 0")
    case True
    with numbers_fitD [OF assms(2), of x r] assms(1) x d obtain v where v: "number_val d = Ret v" by auto
    have n: "n \<le> length (cstr c)" using strtod_length [of "cstr c"] d by simp
    have "c = cstr c @ dropWhile (\<lambda>c. c \<noteq> NUL) c" by (simp add: cstr_def)
    then have "take n c = take n (cstr c)" using n by (metis append_Nil2 diff_is_0_eq take0 take_append)
    moreover have "NUL \<notin> set (cstr c)" by (auto simp: cstr_def dest: set_takeWhileD)
    ultimately have "NUL \<notin> set (take n c)" by (metis in_set_takeD)
    with pos_in_after [of s "take n c" "drop n c"] assms(1) have p: "pos_in s (drop n c)" by simp
    moreover have "length (drop n c) < length c" using True x by simp
    ultimately show ?thesis
      using True v d x by (auto simp: parse_number_def safe_finish)
  next
    case False
    with x d show ?thesis by (auto simp: parse_number_def safe_Ret)
  qed
qed

lemma hex_loop_result:
  "hex_loop i u c = Ret (Some w, c1) \<Longrightarrow>
   \<exists>h. c = h @ c1 \<and> length h = i \<and> list_all is_hex h \<and>
     w = foldl (\<lambda>u c. push_bit 4 u OR of_nat (hex_value c)) u h"
proof (induction i arbitrary: u c)
  case (Suc i)
  then obtain ch r where c: "c = ch # r" "is_hex ch"
      "hex_loop i (push_bit 4 u OR of_nat (hex_value ch)) r = Ret (Some w, c1)"
    by (auto simp: hex_digit_def split: list.splits if_splits)
  from Suc.IH [OF c(3)] obtain h where "r = h @ c1" "length h = i" "list_all is_hex h"
    "w = foldl (\<lambda>u c. push_bit 4 u OR of_nat (hex_value c)) (push_bit 4 u OR of_nat (hex_value ch)) h" by blast
  with c show ?case by (intro exI [of _ "ch # h"]) simp
qed simp

lemma hex_loop_safe: "pos_in s c \<Longrightarrow> \<exists>w c1. hex_loop i u c = Ret (w, c1) \<and> (w \<noteq> None \<longrightarrow> pos_in s c1)"
proof (induction i arbitrary: u c)
  case (Suc i)
  obtain x r where x: "c = x # r" using pos_in_Cons [OF Suc.prems] by blast
  have "\<not> is_hex NUL" by (simp add: is_hex_def is_digit_def)
  then have "pos_in s r" if "is_hex x" using pos_in_tl [of s x r] Suc.prems x that by auto
  with Suc.IH [of r] x show ?case by (auto simp: hex_digit_def)
qed simp

lemma parse_hex4_safe:
  assumes "pos_in s c"
  shows "\<exists>w c1. parse_hex4 c = Ret (w, c1) \<and>
    (\<forall>u. w = Some u \<longrightarrow> pos_in s c1 \<and> length c1 < length c \<and> u \<le> 0xFFFF)"
proof -
  from hex_loop_safe [OF assms, of 4 0] obtain w c1 where
    w: "parse_hex4 c = Ret (w, c1)" "w \<noteq> None \<longrightarrow> pos_in s c1" by (auto simp: parse_hex4_def)
  have "length c1 < length c \<and> u \<le> 0xFFFF" if "w = Some u" for u
  proof -
    from hex_loop_result [of 4 0 c u c1] w(1) that obtain h where h: "c = h @ c1" "hex4 h" "u = hexes_word h"
      by (auto simp: parse_hex4_def hex4_def hexes_word_def)
    with hex4_bound [OF h(2)] show ?thesis by (simp add: hex4_def)
  qed
  with w show ?thesis by auto
qed

lemma push_unicode_safe:
  "pos_in s c \<Longrightarrow> length c < n \<Longrightarrow> u \<le> 0x10FFFF \<Longrightarrow> safe s n (push_unicode u c)"
  by (simp add: push_unicode_ok safe_Ret)

lemma low_surrogate_safe:
  assumes c: "pos_in s c" and u: "0xD800 \<le> u" "u \<le> 0xDBFF"
  shows "safe s (length c) (low_surrogate u c)"
proof -
  obtain x r where x: "c = x # r" using pos_in_Cons [OF c] by blast
  show ?thesis
  proof (cases "x = CHR 0x5C")
    case True
    then have r: "pos_in s r" using pos_in_tl c x by simp
    obtain y t where y: "r = y # t" using pos_in_Cons [OF r] by blast
    show ?thesis
    proof (cases "y = CHR ''u''")
      case u: True
      then have t: "pos_in s t" using pos_in_tl r y by simp
      from parse_hex4_safe [OF t] obtain w c1 where w: "parse_hex4 t = Ret (w, c1)"
        "\<forall>u. w = Some u \<longrightarrow> pos_in s c1 \<and> length c1 < length t \<and> u \<le> 0xFFFF" by blast
      have "safe s (length c) (push_unicode (join_surrogates u u2) c1)"
        if "w = Some u2" "\<not> (u2 < 0xDC00 \<or> 0xDFFF < u2)" for u2
        using join_surrogates_bound [OF assms(2,3), of u2] that w(2) x y
        by (intro push_unicode_safe) (auto simp: not_less)
      with x True y u w show ?thesis
        by (auto simp: low_surrogate_def safe_Ret split: option.splits)
    qed (use x True y in \<open>simp add: low_surrogate_def safe_Ret\<close>)
  qed (use x in \<open>simp add: low_surrogate_def safe_Ret\<close>)
qed

lemma parse_unicode_safe:
  assumes c: "pos_in s c"
  shows "safe s (length c) (parse_unicode c)"
proof -
  from parse_hex4_safe [OF c] obtain w c1 where w: "parse_hex4 c = Ret (w, c1)"
    "\<forall>u. w = Some u \<longrightarrow> pos_in s c1 \<and> length c1 < length c \<and> u \<le> 0xFFFF" by blast
  show ?thesis
  proof (cases w)
    case (Some u)
    with w(2) have u: "pos_in s c1" "length c1 < length c" "u \<le> 0xFFFF" by auto
    have "u \<le> 0x10FFFF" using u(3) by (rule order_trans) simp
    with Some w(1) u show ?thesis
      by (auto simp: parse_unicode_def intro!: push_unicode_safe safe_mono [OF low_surrogate_safe])
  qed (use w in \<open>simp add: parse_unicode_def safe_Ret\<close>)
qed

lemma parse_escape_safe:
  assumes c: "pos_in s c"
  shows "safe s (length c) (parse_escape c)"
proof -
  obtain x r where x: "c = x # r" using pos_in_Cons [OF c] by blast
  have "simple_escape NUL = None" by (simp add: simple_escape_def)
  then have r: "pos_in s r" if "simple_escape x \<noteq> None \<or> x = CHR ''u''"
    using pos_in_tl [of s x r] c x that by (cases "x = NUL") auto
  show ?thesis
    using x r safe_mono [OF parse_unicode_safe [of s r]]
    by (auto simp: parse_escape_def safe_Ret split: option.splits)
qed

lemma string_loop_safe: "pos_in s c \<Longrightarrow> safe s (length c) (string_loop c cur)"
proof (induction c cur rule: string_loop.induct)
  case (1 c cur)
  obtain x r where x: "c = x # r" using pos_in_Cons [OF "1.prems"] by blast
  show ?case
  proof (cases "x = NUL")
    case True
    then show ?thesis using x by (subst string_loop.simps) (simp add: safe_Ret)
  next
    case False
    then have r: "pos_in s r" using pos_in_tl "1.prems" x by simp
    show ?thesis
    proof (cases "x = CHR 0x5C")
      case True
      from parse_escape_safe [OF r] obtain ret b r1 where e: "parse_escape r = Ret (ret, b, r1)"
        "ret = JSON_OK \<longrightarrow> pos_in s r1 \<and> length r1 < length r" by (auto simp: safe_def)
      have "safe s (length r1) (string_loop r1 (cur @ b))" if "ret = JSON_OK"
        using "1.IH"(1) [OF x _ True e(1)] e(2) that True x by (simp add: e)
      then show ?thesis
        using e x True by (subst string_loop.simps) (auto simp: safe_Ret intro: safe_mono)
    next
      case False
      then show ?thesis
        using "1.IH"(2) [OF x] r x \<open>x \<noteq> NUL\<close> safe_mono
        by (subst string_loop.simps) (auto simp: safe_Ret intro: safe_mono)
    qed
  qed
qed

lemma parse_string_safe:
  assumes c: "pos_in s c"
  shows "safe s (length c) (parse_string c)"
proof -
  obtain x r where x: "c = x # r" using pos_in_Cons [OF c] by blast
  show ?thesis
  proof (cases "x = DQ")
    case True
    then have "pos_in s r" using pos_in_tl c x by simp
    from string_loop_safe [OF this, of "[]"] obtain ret cur c1 where
      "string_loop r [] = Ret (ret, cur, c1)" "ret = JSON_OK \<longrightarrow> pos_in s c1 \<and> length c1 < length r"
      by (auto simp: safe_def)
    with x True show ?thesis by (auto simp: parse_string_def safe_Ret intro!: safe_finish)
  qed (use x in \<open>simp add: parse_string_def safe_Ret\<close>)
qed

lemma raw_loop_safe: "pos_in s c \<Longrightarrow> safe s (length c) (raw_loop c str)"
proof (induction c str rule: raw_loop.induct)
  case (2 x r str)
  show ?case
  proof (cases "x = NUL")
    case False
    then have r: "pos_in s r" using pos_in_tl 2 by simp
    with 2 False show ?thesis
      using pos_in_trim [OF r] by (auto simp: safe_Ret skip_ws_trim pos_in_NUL intro: safe_mono)
  qed (simp add: safe_Ret)
qed (simp add: pos_in_def)

lemma parse_key_safe:
  assumes c: "pos_in s c"
  shows "safe s (length c) (parse_key c)"
proof -
  obtain x r where x: "c = x # r" using pos_in_Cons [OF c] by blast
  show ?thesis
  proof (cases "x = DQ")
    case True
    then have "pos_in s r" using pos_in_tl c x by simp
    from raw_loop_safe [OF this, of "[]"] obtain ret cur c1 where
      k: "raw_loop r [] = Ret (ret, cur, c1)" "ret = JSON_OK \<longrightarrow> pos_in s c1 \<and> length c1 < length r"
      by (auto simp: safe_def)
    show ?thesis
    proof (cases "ret = JSON_OK")
      case ok: True
      with k have c1: "pos_in s c1" "length c1 < length r" by auto
      from pos_in_trim [OF c1(1)] have t: "pos_in s (trim c1)" "length (trim c1) \<le> length c1" by auto
      obtain y z where y: "trim c1 = y # z" using pos_in_Cons [OF t(1)] by blast
      have "pos_in s z \<and> length (trim z) \<le> length z \<and> pos_in s (trim z)" if "y = CHR '':''"
        using pos_in_tl [of s y z] pos_in_trim [of s z] t(1) y that by simp
      with x True k ok c1 t y show ?thesis
        by (auto simp: parse_key_def parse_string_raw_def safe_Ret skip_ws_trim pos_in_NUL)
    qed (use x True k in \<open>simp add: parse_key_def parse_string_raw_def safe_Ret\<close>)
  qed (use x in \<open>simp add: parse_key_def safe_Ret\<close>)
qed

section \<open>Values\<close>

definition safe_parser :: "string \<Rightarrow> nat \<Rightarrow> value_parser \<Rightarrow> bool" where
  "safe_parser s n pv \<longleftrightarrow> (\<forall>c. pos_in s c \<longrightarrow> length c \<le> n \<longrightarrow> safe s (length c) (pv c))"

text \<open>After an element: the text goes on with a comma, with the end, or with an error.\<close>

lemma safe_next:
  assumes c: "pos_in s c" "length c < n" and e: "e \<noteq> NUL"
    and more_items: "\<And>c1. pos_in s c1 \<Longrightarrow> length c1 < length c \<Longrightarrow> safe s n (f c1)"
    and err: "ret \<noteq> JSON_OK"
  shows "safe s n (bind_out (skip_ws c) (\<lambda>c2. bind_out (peek c2) (\<lambda>x.
     if x = CHR '','' then bind_out (skip_ws (tl c2)) (\<lambda>c3. f c3)
     else if x = e then finish JSON_OK v (tl c2) else finish ret w c2)))"
proof -
  from pos_in_trim [OF c(1)] have t: "pos_in s (trim c)" "length (trim c) \<le> length c" by auto
  obtain y z where y: "trim c = y # z" using pos_in_Cons [OF t(1)] by blast
  have z: "pos_in s z \<and> pos_in s (trim z) \<and> length (trim z) < length c \<and> length z < length c" if "y \<noteq> NUL"
    using pos_in_tl [of s y z] pos_in_trim [of s z] t y that by auto
  have "safe s n (f (trim z))" if "y = CHR '',''" using z that more_items by simp
  moreover have "safe s n (finish JSON_OK v z)" if "y = e" using z that e c(2) by (intro safe_finish) auto
  moreover have "finish ret w (trim c) = Ret (ret, w, trim (trim c))" using t(1) by (simp add: finish_trim pos_in_NUL)
  ultimately show ?thesis
    using y z c(1) err by (auto simp: skip_ws_trim pos_in_NUL safe_Ret)
qed

lemma array_items_safe:
  assumes "safe_parser s n pv"
  shows "pos_in s c \<Longrightarrow> length c \<le> n \<Longrightarrow> length c < j \<Longrightarrow> safe s (length c) (array_items pv j vs c)"
proof (induction j arbitrary: vs c)
  case (Suc j)
  from pos_in_trim [OF Suc.prems(1)] have t: "pos_in s (trim c)" "length (trim c) \<le> length c" by auto
  with assms Suc.prems(2) have "safe s (length (trim c)) (pv (trim c))" by (simp add: safe_parser_def)
  then obtain ret v c1 where p: "pv (trim c) = Ret (ret, v, c1)"
    "ret = JSON_OK \<longrightarrow> pos_in s c1 \<and> length c1 < length (trim c)" by (auto simp: safe_def)
  have "safe s (length c) (array_items pv j (vs @ [v]) c2)"
    if "pos_in s c2" "length c2 < length c1" "ret = JSON_OK" for c2
    using safe_mono [OF Suc.IH [OF that(1), of "vs @ [v]"], of "length c"] Suc.prems t p(2) that by simp
  with p t Suc.prems show ?case
    by (auto simp: skip_ws_trim pos_in_NUL safe_Ret intro!: safe_next)
qed simp

lemma object_items_safe:
  assumes "safe_parser s n pv"
  shows "pos_in s c \<Longrightarrow> length c \<le> n \<Longrightarrow> length c < j \<Longrightarrow> safe s (length c) (object_items pv j m c)"
proof (induction j arbitrary: m c)
  case (Suc j)
  from parse_key_safe [OF Suc.prems(1)] obtain r0 cur c0 where k: "parse_key c = Ret (r0, cur, c0)"
    "r0 = JSON_OK \<longrightarrow> pos_in s c0 \<and> length c0 < length c" by (auto simp: safe_def)
  show ?case
  proof (cases "r0 = JSON_OK")
    case True
    with k have c0: "pos_in s c0" "length c0 < length c" by auto
    with assms Suc.prems(2) have "safe s (length c0) (pv c0)" by (simp add: safe_parser_def)
    then obtain ret v c1 where p: "pv c0 = Ret (ret, v, c1)"
      "ret = JSON_OK \<longrightarrow> pos_in s c1 \<and> length c1 < length c0" by (auto simp: safe_def)
    have "safe s (length c) (object_items pv j m1 c2)"
      if "pos_in s c2" "length c2 < length c1" "ret = JSON_OK" for c2 m1
      using safe_mono [OF Suc.IH [OF that(1), of m1], of "length c"] Suc.prems c0 p(2) that by simp
    with p c0 k True show ?thesis
      by (auto simp: safe_Ret Let_def intro!: safe_next)
  qed (use k in \<open>simp add: safe_Ret\<close>)
qed simp

lemma parse_array_safe:
  assumes "safe_parser s n pv" "pos_in s c" "length c \<le> Suc n" "length c \<le> k"
  shows "safe s (length c) (parse_array pv k c)"
proof -
  obtain x r where x: "c = x # r" using pos_in_Cons [OF assms(2)] by blast
  show ?thesis
  proof (cases "x = CHR ''[''")
    case True
    then have r: "pos_in s r" using pos_in_tl assms(2) x by simp
    from pos_in_trim [OF r] have t: "pos_in s (trim r)" "length (trim r) \<le> length r" by auto
    obtain y z where y: "trim r = y # z" using pos_in_Cons [OF t(1)] by blast
    have "safe s (length c) (finish JSON_OK (V_array []) z)" if "y = CHR '']''"
      using pos_in_tl [of s y z] t y that x by (intro safe_finish) auto
    moreover have "safe s (length c) (array_items pv k [] (trim r))"
      using array_items_safe [OF assms(1) t(1), of k "[]"] t(2) x assms(3,4) by (auto intro: safe_mono)
    ultimately show ?thesis using x True r y by (auto simp: parse_array_def skip_ws_trim pos_in_NUL)
  qed (use x in \<open>simp add: parse_array_def safe_Ret\<close>)
qed

lemma parse_json_safe:
  assumes "safe_parser s n pv" "pos_in s c" "length c \<le> Suc n" "length c \<le> k"
  shows "safe s (length c) (parse_json pv k c)"
proof -
  obtain x r where x: "c = x # r" using pos_in_Cons [OF assms(2)] by blast
  show ?thesis
  proof (cases "x = CHR ''{''")
    case True
    then have r: "pos_in s r" using pos_in_tl assms(2) x by simp
    from pos_in_trim [OF r] have t: "pos_in s (trim r)" "length (trim r) \<le> length r" by auto
    obtain y z where y: "trim r = y # z" using pos_in_Cons [OF t(1)] by blast
    have "pos_in s z" if "y = CHR ''}''" using pos_in_tl [of s y z] t y that by simp
    moreover have "safe s (length c) (object_items pv k fmempty (trim r))"
      using object_items_safe [OF assms(1) t(1), of k fmempty] t(2) x assms(3,4) by (auto intro: safe_mono)
    moreover have "length z < length c" using t(2) x y by simp
    ultimately show ?thesis using x True r y by (auto simp: parse_json_def skip_ws_trim pos_in_NUL safe_Ret)
  qed (use x in \<open>simp add: parse_json_def safe_Ret\<close>)
qed

lemma parse_value_safe:
  assumes "numbers_fit s"
  shows "pos_in s c \<Longrightarrow> length c \<le> k \<Longrightarrow> safe s (length c) (parse_value (Suc k) c)"
proof (induction k arbitrary: c)
  case 0
  then show ?case by (simp add: pos_in_def)
next
  case (Suc k)
  have sp: "safe_parser s k (parse_value (Suc k))" using Suc.IH by (simp add: safe_parser_def)
  obtain x r where x: "c = x # r" using pos_in_Cons [OF Suc.prems(1)] by blast
  have "safe s (length c) (bind_out (skip_ws c) parse_bool)"
    using pos_in_trim [OF Suc.prems(1)] parse_bool_safe [of s "trim c"] Suc.prems(1)
    by (auto simp: skip_ws_trim pos_in_NUL intro: safe_mono)
  moreover note parse_bool_safe [OF Suc.prems(1)] parse_null_safe [OF Suc.prems(1)]
    parse_string_safe [OF Suc.prems(1)] parse_number_safe [OF Suc.prems(1) assms]
    parse_array_safe [OF sp Suc.prems(1) Suc.prems(2) Suc.prems(2)]
    parse_json_safe [OF sp Suc.prems(1) Suc.prems(2) Suc.prems(2)]
  ultimately show ?case using x by (auto simp: safe_Ret)
qed

lemma load_safe:
  assumes "numbers_fit str"
  shows "\<exists>ok m. load str self = Ret (ok, m)"
proof -
  have "pos_in str (str @ [NUL])" by (simp add: pos_in_def)
  from parse_value_safe [OF assms this, of "Suc (length str)"] obtain ret v c where
    "parse_value (fuel_for str) (str @ [NUL]) = Ret (ret, v, c)" by (auto simp: safe_def fuel_for_def)
  then show ?thesis by (cases v) (auto simp: load_def)
qed

end
