(* ===== verification/JsonTyping.thy ===== *)
theory JsonTyping
  imports JsonTotal JsonPrint
begin

text \<open>
  The values the parser makes are well formed: a string is a C string not longer than its size, a number is
  a double only if it is not a whole number, and a key has no quote and no NUL.
\<close>

primrec wf_val :: "json_val \<Rightarrow> bool" where
  "wf_val V_null \<longleftrightarrow> True"
| "wf_val (V_int i) \<longleftrightarrow> True"
| "wf_val (V_double d) \<longleftrightarrow> number_val d = Ret (V_double d)"
| "wf_val (V_bool b) \<longleftrightarrow> True"
| "wf_val (V_string s n) \<longleftrightarrow> NUL \<notin> set s \<and> length s \<le> n"
| "wf_val (V_array vs) \<longleftrightarrow> list_all id (map wf_val vs)"
| "wf_val (V_json m) \<longleftrightarrow> fmpred (\<lambda>k b. key_ok k \<and> b) (fmmap wf_val m)"

definition makes_wf :: "parse_result \<Rightarrow> bool" where
  "makes_wf m \<longleftrightarrow> ensures (\<lambda>r. wf_val (fst (snd r))) m"

lemma makes_wf_rules:
  shows wf_Ret: "wf_val v \<Longrightarrow> makes_wf (Ret (ret, v, c))"
    and wf_Blocked: "makes_wf Blocked"
    and wf_finish: "wf_val v \<Longrightarrow> makes_wf (finish ret v c)"
    and wf_bind: "(\<And>x. m = Ret x \<Longrightarrow> makes_wf (f x)) \<Longrightarrow> makes_wf (bind_out m f)"
    and wf_if: "(b \<Longrightarrow> makes_wf r1) \<Longrightarrow> (\<not> b \<Longrightarrow> makes_wf r2) \<Longrightarrow> makes_wf (if b then r1 else r2)"
  by (auto simp: makes_wf_def ensures_def finish_def bind_out_Ret_iff)

lemma wf_after:
  assumes "makes_wf r" "\<And>ret v c. wf_val v \<Longrightarrow> makes_wf (g ret v c)"
  shows "makes_wf (bind_out r (\<lambda>(ret, v, c). g ret v c))"
  unfolding makes_wf_def
  by (rule ensures_after [OF assms(1) [unfolded makes_wf_def]])
    (use assms(2) in \<open>auto simp: makes_wf_def split: prod.split\<close>)

lemma parse_null_wf: "makes_wf (parse_null c)"
  unfolding parse_null_def by (intro wf_bind wf_if wf_finish wf_Ret) simp_all

lemma parse_bool_wf: "makes_wf (parse_bool c)"
  unfolding parse_bool_def parse_false_def by (intro wf_bind wf_if wf_finish wf_Ret) simp_all

lemma number_val_wf: "number_val d = Ret v \<Longrightarrow> wf_val v"
  by (auto simp: number_val_def bind_out_Ret_iff split: if_splits)

lemma parse_number_wf: "makes_wf (parse_number c)"
  unfolding parse_number_def Let_def case_prod_beta
  by (intro wf_bind wf_if wf_finish wf_Ret) (auto intro: number_val_wf)

lemma cstr_wf: "NUL \<notin> set (cstr s)" "length (cstr s) \<le> length s"
  by (auto simp: cstr_def dest: set_takeWhileD intro: length_takeWhile_le)

lemma parse_string_wf: "makes_wf (parse_string c)"
  unfolding parse_string_def case_prod_beta
  by (intro wf_bind wf_if wf_finish wf_Ret) (simp_all add: assign_string_def cstr_wf)

lemma wf_array: "wf_val (V_array vs) \<longleftrightarrow> (\<forall>v\<in>set vs. wf_val v)"
  by (simp add: list_all_iff)

lemma array_items_wf:
  assumes "\<And>c. makes_wf (pv c)"
  shows "(\<forall>v\<in>set vs. wf_val v) \<Longrightarrow> makes_wf (array_items pv k vs c)"
proof (induction k arbitrary: vs c)
  case 0
  then show ?case by (simp add: wf_Blocked)
next
  case (Suc k)
  then show ?case
    by (auto simp: array_so_far_def list_all_iff intro!: wf_bind [of "skip_ws _"] wf_bind [of "peek _"] wf_after assms
        wf_if wf_Ret wf_finish)
qed

lemma raw_loop_key_ok: "raw_loop c str = Ret (ret, cur, c1) \<Longrightarrow> key_ok str \<Longrightarrow> key_ok cur"
  by (induction c str rule: raw_loop.induct) (auto simp: key_ok_def bind_out_Ret_iff split: if_splits)

lemma parse_key_ok: "parse_key c = Ret (ret, cur, c1) \<Longrightarrow> key_ok cur"
proof -
  have raw: "parse_string_raw c = Ret (r, s, c2) \<Longrightarrow> key_ok s" for r s c2
    using raw_loop_key_ok [of "tl c" "[]"]
    by (auto simp: parse_string_raw_def bind_out_Ret_iff key_ok_def split: if_splits)
  show "parse_key c = Ret (ret, cur, c1) \<Longrightarrow> key_ok cur"
    by (auto simp: parse_key_def bind_out_Ret_iff key_ok_def [of "[]"] dest!: raw split: if_splits)
qed

lemma wf_emplace: "wf_val (V_json m) \<Longrightarrow> key_ok k \<Longrightarrow> wf_val v \<Longrightarrow> wf_val (V_json (json_emplace (k, v) m))"
  by (auto simp: json_emplace_def fmmap_fmupd split: option.split intro!: fmpred_upd)

lemma object_items_wf:
  assumes "\<And>c. makes_wf (pv c)"
  shows "wf_val (V_json m) \<Longrightarrow> makes_wf (object_items pv k m c)"
proof (induction k arbitrary: m c)
  case 0
  then show ?case by (simp add: wf_Blocked)
next
  case (Suc k)
  show ?case
    unfolding object_items.simps Let_def
  proof (rule wf_bind, clarsimp split del: if_split)
    fix ret cur c1 assume "parse_key c = Ret (ret, cur, c1)"
    then have k: "key_ok cur" by (rule parse_key_ok)
    show "makes_wf (if ret \<noteq> JSON_OK then Ret (ret, V_null, c1)
        else bind_out (pv c1) (\<lambda>(ret, tmp, c2).
          if ret \<noteq> JSON_OK then Ret (ret, V_null, c2)
          else bind_out (skip_ws c2) (\<lambda>c3. bind_out (peek c3) (\<lambda>x.
            if x = CHR '','' then bind_out (skip_ws (tl c3)) (object_items pv k (json_emplace (cur, tmp) m))
            else if x = CHR ''}'' then finish JSON_OK (V_json (json_emplace (cur, tmp) m)) (tl c3)
            else finish JSON_MISS_CURLY V_null c3))))"
      by (intro wf_if wf_Ret wf_after assms wf_bind [of "skip_ws _"] wf_bind [of "peek _"] wf_finish Suc.IH
          wf_emplace Suc.prems k) simp_all
  qed
qed

lemma parse_value_wf: "makes_wf (parse_value k c)"
proof (induction k arbitrary: c)
  case 0
  show ?case by (simp add: wf_Blocked)
next
  case (Suc k)
  have a: "makes_wf (parse_array (parse_value k) k d)" for d
    unfolding parse_array_def by (intro wf_bind wf_if wf_finish wf_Ret array_items_wf Suc.IH) simp_all
  have o: "makes_wf (parse_json (parse_value k) k d)" for d
    unfolding parse_json_def by (intro wf_bind wf_if wf_finish wf_Ret object_items_wf Suc.IH) simp_all
  show ?case
    unfolding parse_value.simps
    by (intro wf_bind wf_if wf_Ret parse_bool_wf parse_null_wf parse_string_wf parse_number_wf a o) simp_all
qed

lemma load_wf:
  assumes "load str self = Ret (ok, m)"
  shows "wf_val (V_json m)"
proof -
  from assms obtain ret v c where p: "parse_value (fuel_for str) (str @ [NUL]) = Ret (ret, v, c)"
    and m: "(case v of V_json m \<Rightarrow> Ret (True, json_move_assign m (json_clear self)) | _ \<Rightarrow> Ret (False, json_clear self)) = Ret (ok, m)"
    by (auto simp: load_def bind_out_Ret_iff simp del: parse_value.simps)
  have "wf_val v" using parse_value_wf [of "fuel_for str" "str @ [NUL]"] p by (simp add: makes_wf_def ensures_def)
  with m show ?thesis by (cases v) (auto simp: json_clear_def json_move_assign_def)
qed

end
