(* ===== verification/JsonProps.thy ===== *)
theory JsonProps
  imports JsonPrint JsonTotal JsonTyping "HOL-Library.List_Lexorder" "HOL-Library.Char_ord"
begin

text \<open>
  The properties of the JSON component: loading returns for every text, reads every text of the
  grammar and what the code prints itself, and the inputs for which it does not do what it is for.
\<close>

section \<open>A concrete order of keys\<close>

definition sorted_keys :: key_order where
  "sorted_keys ks = sorted_list_of_fset ks"

lemma sorted_keys_ok: "key_order_ok sorted_keys"
  by (auto simp: key_order_ok_def sorted_keys_def fset_of_list_elem fset_eq_iff sorted_list_of_fset.rep_eq)

lemma single_key_order: "key_order_ok order \<Longrightarrow> order {|k|} = [k]"
proof -
  assume o: "key_order_ok order"
  then have "set (order {|k|}) = {k}" "distinct (order {|k|})"
    using key_order_set [OF o, of "{|k|}"] by (simp_all add: key_order_ok_def)
  then show ?thesis by (metis distinct_singleton set_replicate_conv_if distinct_card card_1_singleton_iff One_nat_def
      length_0_conv length_Suc_conv list.set(1) list.simps(15) singleton_insert_inj_eq' empty_set insert_not_empty)
qed

text \<open>The map used as an example.\<close>

definition sample :: json where
  "sample = fmupd ''n'' (V_int (- 7)) (fmupd ''s'' (V_array [V_bool True, V_string ''ok'' 2, V_null]) fmempty)"

lemma sample_printable: "printable (V_json sample)"
  by (auto simp: sample_def fmmap_fmupd key_ok_def plain_string_def intro!: fmpred_upd)

lemma sample_no_empty_array: "no_empty_array sample"
  by (auto simp: sample_def no_empty_array_def intro!: fmpred_upd)

lemma sample_format_safe: "format_safe (V_json sample)"
  by (auto simp: sample_def fmmap_fmupd intro!: fmpred_upd)

section \<open>Loading\<close>

lemma load_failed: "load str self = Ret (ok, m) \<Longrightarrow> ok \<or> m = fmempty"
proof -
  assume "load str self = Ret (ok, m)"
  then obtain ret val c where "(case val of V_json m \<Rightarrow> Ret (True, json_move_assign m (json_clear self))
      | _ \<Rightarrow> Ret (False, json_clear self)) = Ret (ok, m)"
    by (auto simp: load_def bind_out_Ret_iff simp del: parse_value.simps)
  then show ?thesis by (cases val) (auto simp: json_clear_def)
qed


lemma strtod_int_end:
  assumes "\<bar>i\<bar> < 2 ^ 53" "number_end r"
  shows "strtod (show_int i @ r) = (Fin (of_int i), length (show_int i))"
  using strtod_show_int [OF assms(1)] number_start_show_int assms(2) by (simp add: strtod_end)

lemma sample_text_fits: "numbers_fit ''{\"k\":[-12]''"
proof -
  have ne: "number_end '']''" by (simp add: number_end_def)
  have shown: "show_int (- 12) = ''-12''" "show_int 12 = ''12''" "show_int 2 = ''2''"
    by (simp_all add: show_int_def show_nat.simps char_of_def bit_Suc_0_iff)
  have "strtod (cstr ''-12]'') = (Fin (- 12), 3)" "strtod (cstr ''12]'') = (Fin 12, 2)" "strtod (cstr ''2]'') = (Fin 2, 1)"
    using strtod_int_end [of "-12" "'']''"] strtod_int_end [of 12 "'']''"] strtod_int_end [of 2 "'']''"] ne
    by (simp_all add: shown cstr_def)
  moreover have "number_val (Fin (- 12)) \<noteq> Undef" "number_val (Fin 12) \<noteq> Undef" "number_val (Fin 2) \<noteq> Undef"
    using number_val_int [of "-12"] number_val_int [of 12] number_val_int [of 2] by simp_all
  ultimately show ?thesis by (simp add: numbers_fit_def number_start_def is_digit_def)
qed





definition sample_text :: string where
  "sample_text = CHR ''{'' # comma_join
     ['' '' @ DQ # ''k'' @ DQ # '' '' @ CHR '':'' # CHR ''['' # comma_join [''null'', '' true ''] @ '']'',
      DQ # ''s'' @ DQ # [] @ CHR '':'' # DQ # [CHR 0x5C, CHR ''n'', CHR ''!''] @ [DQ]] @ ''}''"

lemma sample_text_renders:
  "renders (V_json (json_of_list [(''k'', V_array [V_null, V_bool True]), (''s'', assign_string [LF, CHR ''!''])]))
     sample_text"
proof -
  have t: "padded (\<lambda>u. renders (V_bool True) u) '' true ''"
    using r_bool [of True] unfolding padded_def
    by (intro exI [of _ "'' ''"] exI [of _ "''true''"]) (simp add: ws_def bool_text_def)
  have a: "renders (V_array [V_null, V_bool True]) (array_text [''null'', '' true ''])"
    by (rule r_array) (use t r_null padded_id [of "\<lambda>u. renders V_null u"] in auto)
  have s: "renders (assign_string [LF, CHR ''!'']) (DQ # [CHR 0x5C, CHR ''n'', CHR ''!''] @ [DQ])"
    by (intro r_string str_escape str_plain str_end) (simp_all add: simple_escape_def)
  show ?thesis
    unfolding sample_text_def
  proof (rule r_object)
    show "list_all2 (\<lambda>p t. entry (fst p) (\<lambda>u. renders (snd p) u) t)
       [(''k'', V_array [V_null, V_bool True]), (''s'', assign_string [LF, CHR ''!''])]
       ['' '' @ DQ # ''k'' @ DQ # '' '' @ CHR '':'' # CHR ''['' # comma_join [''null'', '' true ''] @ '']'',
        DQ # ''s'' @ DQ # [] @ CHR '':'' # DQ # [CHR 0x5C, CHR ''n'', CHR ''!''] @ [DQ]]"
    proof (simp only: list_all2_Cons list_all2_Nil fst_conv snd_conv, intro conjI refl)
      show "entry ''k'' (renders (V_array [V_null, V_bool True]))
          ('' '' @ DQ # ''k'' @ DQ # '' '' @ CHR '':'' # CHR ''['' # comma_join [''null'', '' true ''] @ '']'')"
        unfolding entry_def using padded_id [of "\<lambda>u. renders (V_array [V_null, V_bool True]) u", OF a]
        by (intro exI [of _ "'' ''"] exI [of _ "array_text [''null'', '' true '']"])
          (simp add: ws_def key_ok_def array_text_def)
      show "entry ''s'' (renders (assign_string [LF, CHR ''!'']))
          (DQ # ''s'' @ DQ # [] @ CHR '':'' # DQ # [CHR 0x5C, CHR ''n'', CHR ''!''] @ [DQ])"
        unfolding entry_def using padded_id [of "\<lambda>u. renders (assign_string [LF, CHR ''!'']) u", OF s]
        by (intro exI [of _ "[]"] exI [of _ "DQ # [CHR 0x5C, CHR ''n'', CHR ''!''] @ [DQ]"])
          (simp add: ws_def key_ok_def)
    qed
  qed simp
qed


section \<open>Printing and loading\<close>



text \<open>The same for \<open>to_string\<close> and \<open><<\<close>, which also print empty arrays.\<close>

theorem to_string_load_roundtrip:
  assumes "key_order_ok order" "printable (V_json m)"
  shows "load (to_string order (V_json m)) self = Ret (True, m) \<and>
    load (stream_text order (V_json m)) self = Ret (True, m)"
  using print_val_renders [OF assms(1) _ assms(2)] load_renders [of m _ "[]"]
  by (simp add: to_string_def stream_text_def)

theorem to_string_load_roundtrip_witness:
  "load (to_string sorted_keys (V_json sample)) fmempty = Ret (True, sample) \<and>
   load (stream_text sorted_keys (V_json sample)) fmempty = Ret (True, sample)"
  by (rule to_string_load_roundtrip [OF sorted_keys_ok sample_printable])



section \<open>Where printing and loading fail\<close>

text \<open>\<open>dump\<close> and \<open>format\<close> of an object in which some key has an empty array read element 0 of it, for
  every order of the hash table: the bound \<open>size - 1\<close> of their loop wraps.\<close>

theorem dump_empty_array_undefined:
  assumes "key_order_ok order" "fmlookup m k = Some (V_array [])"
  shows "dump order m = Undef \<and> format order m = Undef"
proof -
  let ?f = "\<lambda>(k, v). bind_out (dump_value order v) (\<lambda>t. Ret (k, t))"
  have "(k, V_array []) \<in> set (iterate order m)"
    using map_of_iterate [OF assms(1), of m k] assms(2) by (auto dest: map_of_SomeD)
  then have "?f (k, V_array []) \<in> set (map ?f (iterate order m))" by (simp only: set_map) (rule imageI)
  moreover have "?f (k, V_array []) = Undef" by (simp add: dump_value_def)
  moreover have "(\<exists>y. ?f p = Ret y) \<or> ?f p = Undef" for p
    by (cases "snd p") (auto simp: dump_value_def split: prod.splits)
  ultimately have "seq_out (map ?f (iterate order m)) = Undef"
    by (intro seq_out_Undef [of "?f (k, V_array [])"]) (simp_all only: set_map, blast)
  then show ?thesis by (simp add: dump_def format_def)
qed

theorem dump_empty_array_undefined_witness:
  "dump sorted_keys (fmupd ''a'' (V_int 1) (fmupd ''list'' (V_array []) fmempty)) = Undef \<and>
   format sorted_keys (fmupd ''a'' (V_int 1) (fmupd ''list'' (V_array []) fmempty)) = Undef"
  by (rule dump_empty_array_undefined [OF sorted_keys_ok, where k = "''list''"]) (simp only: fmupd_lookup, simp)

lemma parse_bool_no_object: "parse_bool c \<noteq> Ret (ret, V_json m, c1)"
  by (auto simp: parse_bool_def parse_false_def finish_def bind_out_Ret_iff split: if_splits)

lemma load_white_space:
  assumes "is_ws c"
  shows "load (c # str) self = Ret (False, fmempty)"
proof -
  let ?c = "(c # str) @ [NUL]"
  have p: "pos_in (c # str) ?c" by (simp add: pos_in_def)
  from parse_bool_safe [OF conjunct1 [OF pos_in_trim [OF this]]] obtain ret v r where
    b: "parse_bool (trim ?c) = Ret (ret, v, r)" by (auto simp: safe_def)
  have s: "skip_ws (c # str @ [NUL]) = Ret (trim ?c)" using skip_ws_trim [of ?c] by simp
  have "\<exists>ret v r. parse_value (fuel_for (c # str)) ?c = Ret (ret, v, r) \<and> (\<forall>m. v \<noteq> V_json m)"
  proof (cases "c = CHR '' ''")
    case True
    then show ?thesis by (simp add: fuel_for_def parse_number_def is_digit_def)
  next
    case False
    then have "parse_value (fuel_for (c # str)) ?c = Ret (ret, v, r)"
      using assms b s by (simp add: fuel_for_def is_ws_def del: skip_ws.simps) blast
    with b parse_bool_no_object [of "trim ?c" ret] show ?thesis by auto
  qed
  then obtain ret v r where "parse_value (fuel_for (c # str)) ?c = Ret (ret, v, r)" "\<forall>m. v \<noteq> V_json m" by blast
  then show ?thesis
    by (cases v) (simp_all add: load_def json_clear_def del: parse_value.simps)
qed

text \<open>White space in front of a text makes it unreadable: \<open>load\<close> empties the object and returns false,
  whatever follows. \<open>parse_value\<close> skips a line end or tab and then takes the branch of the booleans; it does
  not know the blank at all.\<close>

theorem leading_white_space_refused:
  assumes "is_ws c"
  shows "load (c # str) self = Ret (False, fmempty)"
  by (rule load_white_space [OF assms])

theorem leading_white_space_refused_witness: "load (LF # ''{}'') sample = Ret (False, fmempty)"
  by (rule leading_white_space_refused) (simp add: is_ws_def)



text \<open>\<open>format\<close> is not only layout: it also breaks the line after a comma inside a string, so the string
  that is loaded back is another one.\<close>

theorem format_changes_strings:
  assumes "key_order_ok order" "key_ok k" "unstructured k" "plain_string s" "unstructured s"
  shows "\<exists>t. format order (fmupd k (string_val (CHR '','' # s)) fmempty) = Ret t \<and>
    load t self = Ret (True, fmupd k (string_val (CHR '','' # LF # HT # s)) fmempty)"
proof -
  let ?m = "\<lambda>u. fmupd k (string_val u) fmempty :: json"
  let ?s = "CHR '','' # LF # HT # s"
  let ?e = "\<lambda>u. [LF, HT] @ entry_text '':'' (k, DQ # u @ [DQ]) @ [LF]"
  have cs: "string_val (CHR '','' # s) = V_string (CHR '','' # s) (Suc (length s))" "string_val ?s = V_string ?s (length ?s)"
    using assms(4) by (simp_all add: string_val_def plain_string_def cstr_id)
  have it: "iterate order (?m u) = [(k, string_val u)]" for u
    using assms(1) by (simp add: iterate_def single_key_order)
  have "dump order (?m (CHR '','' # s)) = Ret (CHR ''{'' # entry_text '':'' (k, DQ # (CHR '','' # s) @ [DQ]) @ ''}'')"
    using it [of "CHR '','' # s"] by (simp add: dump_def dump_value_def cs to_string_def object_text_def comma_join_def)
  moreover have "format_from 0 (CHR ''{'' # entry_text '':'' (k, DQ # (CHR '','' # s) @ [DQ]) @ ''}'') =
      (CHR ''{'' # ?e ?s @ ''}'', 0)"
  proof -
    have l: "level_str 1 = [HT]" "level_str 0 = []" by (simp_all add: level_str_def)
    have f: "format_from 1 (DQ # k @ DQ # CHR '':'' # [DQ]) = (DQ # k @ DQ # CHR '':'' # [DQ], 1)"
      "format_from 1 (s @ [DQ]) = (s @ [DQ], 1)"
      using assms(3,5) by (simp_all add: format_unstructured)
    show ?thesis
      using format_from_append [of 1 "DQ # k @ DQ # CHR '':'' # [DQ]" "CHR '','' # (s @ [DQ]) @ ''}''"]
        format_from_append [of 1 "s @ [DQ]" "''}''"] f
      by (simp add: entry_text_def format_from_Cons format_char_cases l)
  qed
  ultimately have fm: "format order (?m (CHR '','' # s)) = Ret (CHR ''{'' # ?e ?s @ ''}'')"
    by (simp add: format_def format_text_def format_from_def)
  have ws_tokens: "ws [LF, HT]" "ws [LF]" by (simp_all add: ws_def is_ws_def)
  have "str_text ?s ?s" using assms(4) str_text_plain [of ?s] by (simp add: plain_string_def)
  then have "renders (string_val ?s) (DQ # ?s @ [DQ])"
    using r_string [of ?s ?s] assms(4) by (simp add: assign_string_def cs plain_string_def cstr_id)
  then have "entry k (\<lambda>u. renders (string_val ?s) u) (entry_text '':'' (k, DQ # ?s @ [DQ]))"
    using assms(2) by (intro entry_sep) auto
  then have "entry k (\<lambda>u. renders (string_val ?s) u) (?e ?s)"
    using entry_keeps_ws [of k "\<lambda>u. renders (string_val ?s) u"] ws_tokens unfolding keeps_ws_def by blast
  then have "renders (V_json (json_of_list [(k, string_val ?s)])) (CHR ''{'' # comma_join [?e ?s] @ ''}'')"
    by (intro r_object) simp_all
  with fm load_renders [of "?m ?s" _ "[]"] show ?thesis
    by (simp add: json_of_list_def json_emplace_def comma_join_def)
qed

theorem format_changes_strings_witness:
  "\<exists>t. format sorted_keys (fmupd ''k'' (string_val '',b'') fmempty) = Ret t \<and>
    load t fmempty = Ret (True, fmupd ''k'' (string_val (CHR '','' # LF # HT # ''b'')) fmempty)"
  by (rule format_changes_strings [OF sorted_keys_ok]) (simp_all add: key_ok_def unstructured_def plain_string_def)

section \<open>Assignment\<close>

text \<open>Copy assignment to a \<open>json\<close> does not replace its contents: a key it already has keeps its old
  value, only the others are added. The copy constructor gives an equal object.\<close>

theorem json_assign_merges:
  assumes "key_order_ok order"
  shows "fmlookup (json_assign order cp self) k =
      (case fmlookup self k of Some v \<Rightarrow> Some v | None \<Rightarrow> fmlookup cp k) \<and>
    json_copy order cp = cp"
proof -
  have "fmlookup (json_assign order cp m) j = (case fmlookup m j of Some v \<Rightarrow> Some v | None \<Rightarrow> fmlookup cp j)" for m j
    by (cases "fmlookup m j") (simp_all add: json_assign_def fmlookup_emplace_all map_of_iterate [OF assms])
  moreover from this have "json_copy order cp = cp" by (intro fmap_ext) (simp add: json_copy_def)
  ultimately show ?thesis by simp
qed

theorem json_assign_merges_witness:
  "fmlookup (json_assign sorted_keys (fmupd ''a'' (V_int 2) fmempty) (fmupd ''a'' (V_int 1) fmempty)) ''a'' =
      (case fmlookup (fmupd ''a'' (V_int 1) fmempty) ''a'' of Some v \<Rightarrow> Some v
       | None \<Rightarrow> fmlookup (fmupd ''a'' (V_int 2) fmempty) ''a'') \<and>
    json_copy sorted_keys (fmupd ''a'' (V_int 2) fmempty) = fmupd ''a'' (V_int 2) fmempty"
  by (rule json_assign_merges [OF sorted_keys_ok])

end
