(* ===== verification/JsonUtf8.thy ===== *)
theory JsonUtf8
  imports JsonParse
begin

text \<open>
  The bytes \<open>parse_string\<close> writes for a \<open>\u\<close> escape, compared with UTF-8 (RFC 3629), which is stated
  here on numbers, without bit operations.
\<close>

unbundle bit_operations_syntax

definition utf8_ref :: "nat \<Rightarrow> string" where
  "utf8_ref n =
     (if n < 0x80 then [char_of n]
      else if n < 0x800 then [char_of (0xC0 + n div 64), char_of (0x80 + n mod 64)]
      else if n < 0x10000 then
        [char_of (0xE0 + n div 4096), char_of (0x80 + n div 64 mod 64), char_of (0x80 + n mod 64)]
      else
        [char_of (0xF0 + n div 262144), char_of (0x80 + n div 4096 mod 64), char_of (0x80 + n div 64 mod 64),
         char_of (0x80 + n mod 64)])"

section \<open>Bit operations as arithmetic\<close>

lemma or_disjoint:
  fixes a x :: nat
  assumes "x < 2 ^ n"
  shows "(a * 2 ^ n) OR x = a * 2 ^ n + x"
proof -
  have x: "x = take_bit n x" using assms by (simp add: take_bit_nat_eq_self)
  have "push_bit n a + take_bit n x = push_bit n a OR take_bit n x"
    by (intro disjunctive_add_eq_or) (simp add: bit_eq_iff bit_simps)
  with x show ?thesis by (simp add: push_bit_eq_mult)
qed

lemma unat_low: "unat (u AND 0x3F :: u32) = unat u mod 64" "unat (u AND 0xFF :: u32) = unat u mod 256"
proof -
  have m: "(0x3F :: u32) = mask 6" "(0xFF :: u32) = mask 8" by (simp_all add: mask_eq_exp_minus_1)
  show "unat (u AND 0x3F) = unat u mod 64" "unat (u AND 0xFF) = unat u mod 256"
    unfolding m take_bit_eq_mask [symmetric] by (simp_all add: unsigned_take_bit_eq take_bit_nat_def)
qed

lemma unat_shifted: "unat (drop_bit n (u :: u32)) = unat u div 2 ^ n"
  using unsigned_less [of u, where ?'a = nat] by (simp add: unsigned_drop_bit_eq drop_bit_nat_def take_bit_nat_def)

lemma unat_tagged:
  "unat x < 64 \<Longrightarrow> unat (0x80 OR x :: u32) = 0x80 + unat x"
  "unat x < 64 \<Longrightarrow> unat (0xC0 OR x :: u32) = 0xC0 + unat x"
  "unat x < 32 \<Longrightarrow> unat (0xE0 OR x :: u32) = 0xE0 + unat x"
  "unat x < 16 \<Longrightarrow> unat (0xF0 OR x :: u32) = 0xF0 + unat x"
  using or_disjoint [of "unat x" 6 2] or_disjoint [of "unat x" 6 3] or_disjoint [of "unat x" 5 7]
    or_disjoint [of "unat x" 4 15]
  by (simp_all add: unsigned_or_eq)

lemmas byte_arith = byte_of_def unat_tagged unat_low unat_shifted

section \<open>The bytes of the code\<close>

text \<open>The branches of the code as arithmetic.\<close>

lemma utf8_bytes_arith:
  assumes "u \<le> 0x10FFFF"
  shows "utf8_bytes u =
    (if unat u < 0x7F then [char_of (unat u)]
     else if unat u < 0x100 then [char_of (0xC0 + unat u div 64), char_of (0x80 + unat u mod 64)]
     else if unat u < 0x10000 then
       [char_of (0xE0 + unat u div 4096), char_of (0x80 + unat u div 64 mod 64), char_of (0x80 + unat u mod 64)]
     else
       [char_of (0xF0 + unat u div 262144), char_of (0x80 + unat u div 4096 mod 64),
        char_of (0x80 + unat u div 64 mod 64), char_of (0x80 + unat u mod 64)])"
proof -
  have b: "unat u \<le> 0x10FFFF" using assms by (simp add: word_le_nat_alt)
  have c: "(u < 0x7F) = (unat u < 0x7F)" "(u \<le> 0xFF) = (unat u < 0x100)" "(u \<le> 0xFFFF) = (unat u < 0x10000)"
    by (auto simp: word_less_nat_alt word_le_nat_alt)
  consider "unat u < 0x7F" | "0x7F \<le> unat u" "unat u < 0x100" | "0x100 \<le> unat u" "unat u < 0x10000"
    | "0x10000 \<le> unat u" by linarith
  then show ?thesis
  proof cases
    case 1
    then show ?thesis by (simp add: utf8_bytes_def c byte_arith)
  next
    case 2
    then have "unat u div 64 < 4" by simp
    with 2 show ?thesis by (simp add: utf8_bytes_def c byte_arith)
  next
    case 3
    then have "unat u div 4096 < 16" by simp
    with 3 show ?thesis by (simp add: utf8_bytes_def c byte_arith)
  next
    case 4
    have "unat u div 262144 \<le> 4" using b by simp
    with 4 show ?thesis by (simp add: utf8_bytes_def c byte_arith)
  qed
qed

text \<open>C20: The bytes pushed for a code point are its UTF-8 encoding, except for U+007F, which gets two bytes, and
  U+0100 to U+07FF, which get three: the limits of the one- and two-byte forms are 0x7F and 0xFF where
  they should be 0x80 and 0x7FF.\<close>

theorem utf8_bytes_correct_iff:
  assumes "u \<le> 0x10FFFF"
  shows "utf8_bytes u = utf8_ref (unat u) \<longleftrightarrow> u \<noteq> 0x7F \<and> (u < 0x100 \<or> 0x800 \<le> u)"
proof -
  have c: "u = 0x7F \<longleftrightarrow> unat u = 0x7F" "u < 0x100 \<longleftrightarrow> unat u < 0x100" "0x800 \<le> u \<longleftrightarrow> 0x800 \<le> unat u"
    by (auto simp: word_less_nat_alt word_le_nat_alt word_unat_eq_iff)
  show ?thesis
    unfolding utf8_bytes_arith [OF assms] utf8_ref_def c by auto
qed

theorem utf8_bytes_correct_iff_witness:
  "utf8_bytes 0x20AC = utf8_ref (unat (0x20AC :: u32)) \<longleftrightarrow>
     (0x20AC :: u32) \<noteq> 0x7F \<and> ((0x20AC :: u32) < 0x100 \<or> 0x800 \<le> (0x20AC :: u32))"
  by (rule utf8_bytes_correct_iff) simp

end
