(* ===== verification/JsonArray.thy ===== *)
theory JsonArray
  imports Prelude
begin

text \<open>
  The memory of an array of \<open>src/core/include/json/json.h\<close>: a block of elements, \<open>size\<close> and
  \<open>capacity\<close>, with \<open>JSON_ARRAY_REALLOC\<close>, \<open>push_back\<close>, the copy of \<open>JSON_VAL_COPY\<close> and the move
  assignment, which leaves out \<open>capacity\<close>. An access outside the block is \<open>Undef\<close>. For the values of
  \<open>Json\<close> an array is the list \<open>elems\<close>; \<open>dflt\<close> is what \<open>new json_val[n]\<close> fills the block with.
\<close>

section \<open>The code\<close>

record 'v json_array =
  block :: "'v list option"
  array_size :: nat
  capacity :: nat

definition empty_array :: "'v json_array" where
  "empty_array = \<lparr>block = None, array_size = 0, capacity = 0\<rparr>"

text \<open>\<open>for (t < n) data[t] = last[t]\<close>.\<close>

definition copy_block :: "'v list \<Rightarrow> nat \<Rightarrow> 'v list \<Rightarrow> 'v list outcome" where
  "copy_block old n new =
     (if n \<le> length old \<and> n \<le> length new then Ret (take n old @ drop n new) else Undef)"

definition array_realloc :: "'v \<Rightarrow> 'v json_array \<Rightarrow> 'v json_array outcome" where
  "array_realloc dflt a =
     (let cap = (if capacity a = 0 then 1 else capacity a); a1 = a\<lparr>capacity := cap\<rparr> in
      if array_size a + 1 \<ge> cap then
        (case block a of
           Some old \<Rightarrow>
             bind_out (copy_block old (array_size a) (replicate (cap * 2) dflt)) (\<lambda>new.
             Ret (a1\<lparr>block := Some new, capacity := cap * 2\<rparr>))
         | None \<Rightarrow> Ret (a1\<lparr>block := Some (replicate (cap * 2) dflt)\<rparr>))
      else Ret a1)"

definition array_push_back :: "'v \<Rightarrow> 'v \<Rightarrow> 'v json_array \<Rightarrow> 'v json_array outcome" where
  "array_push_back dflt v a =
     bind_out (array_realloc dflt a) (\<lambda>a1.
     case block a1 of
       None \<Rightarrow> Undef
     | Some b \<Rightarrow>
         if array_size a1 < length b
         then Ret (a1\<lparr>block := Some (b[array_size a1 := v]), array_size := array_size a1 + 1\<rparr>)
         else Undef)"

definition array_copy :: "'v \<Rightarrow> 'v json_array \<Rightarrow> 'v json_array outcome" where
  "array_copy dflt src =
     (let n = array_size src in
      case block src of
        None \<Rightarrow> if n = 0 then Ret \<lparr>block = Some [], array_size = 0, capacity = 0\<rparr> else Undef
      | Some old \<Rightarrow>
          bind_out (copy_block old n (replicate n dflt)) (\<lambda>new.
          Ret \<lparr>block = Some new, array_size = n, capacity = n\<rparr>))"

text \<open>The constructor from an initializer list.\<close>

definition array_of_list :: "'v list \<Rightarrow> 'v json_array" where
  "array_of_list vs = \<lparr>block = Some vs, array_size = length vs, capacity = length vs\<rparr>"

text \<open>\<open>dst = std::move(src)\<close>: the new \<open>dst\<close> and what is left of \<open>src\<close>.\<close>

definition array_move :: "'v json_array \<Rightarrow> 'v json_array \<Rightarrow> 'v json_array \<times> 'v json_array" where
  "array_move src dst =
     (dst\<lparr>block := block src, array_size := array_size src\<rparr>, src\<lparr>block := None\<rparr>)"

section \<open>Arrays as lists\<close>

definition elems :: "'v json_array \<Rightarrow> 'v list" where
  "elems a = (case block a of None \<Rightarrow> [] | Some b \<Rightarrow> take (array_size a) b)"

definition array_ok :: "'v json_array \<Rightarrow> bool" where
  "array_ok a \<longleftrightarrow>
     (case block a of
        None \<Rightarrow> array_size a = 0 \<and> capacity a \<le> 1
      | Some b \<Rightarrow> array_size a \<le> length b \<and> capacity a \<le> length b \<and> array_size a < 2 * max 1 (capacity a))"

lemma array_ok_new: "array_ok empty_array" "array_ok (array_of_list vs)"
  "elems empty_array = []" "elems (array_of_list vs) = vs"
  by (auto simp: array_ok_def empty_array_def array_of_list_def elems_def)

lemma realloc_ok:
  assumes "array_ok a"
  shows "\<exists>a1 b. array_realloc dflt a = Ret a1 \<and> block a1 = Some b \<and> array_size a1 = array_size a \<and>
    array_size a < length b \<and> capacity a1 \<le> length b \<and> array_size a + 1 < 2 * max 1 (capacity a1) \<and>
    take (array_size a) b = elems a"
proof (cases "block a")
  case None
  then show ?thesis using assms
    by (auto simp: array_realloc_def array_ok_def elems_def Let_def)
next
  case (Some b)
  then have ok: "array_size a \<le> length b" "capacity a \<le> length b" "array_size a < 2 * max 1 (capacity a)"
    using assms by (simp_all add: array_ok_def)
  show ?thesis
  proof (cases "array_size a + 1 \<ge> max 1 (capacity a)")
    case True
    let ?c = "max 1 (capacity a)"
    let ?b = "take (array_size a) b @ drop (array_size a) (replicate (?c * 2) dflt)"
    have "array_realloc dflt a = Ret (a\<lparr>capacity := ?c * 2, block := Some ?b\<rparr>)"
      using True Some ok
      by (cases "capacity a = 0") (auto simp: array_realloc_def copy_block_def Let_def max_absorb2)
    then show ?thesis using Some ok by (simp add: elems_def)
  next
    case False
    then have "array_realloc dflt a = Ret (a\<lparr>capacity := max 1 (capacity a)\<rparr>)"
      by (auto simp: array_realloc_def max_def Let_def)
    then show ?thesis using False Some ok by (auto simp: elems_def)
  qed
qed

lemma push_back_ok:
  assumes "array_ok a"
  shows "\<exists>a'. array_push_back dflt v a = Ret a' \<and> array_ok a' \<and> elems a' = elems a @ [v]"
proof -
  from realloc_ok [OF assms, of dflt] obtain a1 b where
    r: "array_realloc dflt a = Ret a1" "block a1 = Some b" "array_size a1 = array_size a" "array_size a < length b"
      "capacity a1 \<le> length b" "array_size a + 1 < 2 * max 1 (capacity a1)" "take (array_size a) b = elems a" by blast
  let ?a = "a1\<lparr>block := Some (b[array_size a := v]), array_size := array_size a + 1\<rparr>"
  have "array_push_back dflt v a = Ret ?a" using r by (simp add: array_push_back_def)
  moreover have "array_ok ?a" using r by (simp add: array_ok_def)
  moreover have "elems ?a = elems a @ [v]" using r by (simp add: elems_def take_Suc_conv_app_nth)
  ultimately show ?thesis by blast
qed

lemma array_copy_ok:
  assumes "array_ok a"
  shows "\<exists>a'. array_copy dflt a = Ret a' \<and> array_ok a' \<and> elems a' = elems a"
proof (cases "block a")
  case (Some b)
  with assms show ?thesis
    by (auto simp: array_copy_def copy_block_def array_ok_def elems_def Let_def)
qed (use assms in \<open>auto simp: array_copy_def array_ok_def elems_def Let_def\<close>)

fun push_all :: "'v \<Rightarrow> 'v list \<Rightarrow> 'v json_array \<Rightarrow> 'v json_array outcome" where
  "push_all dflt [] a = Ret a"
| "push_all dflt (v # vs) a = bind_out (array_push_back dflt v a) (push_all dflt vs)"

lemma push_all_ok:
  "array_ok a \<Longrightarrow> \<exists>a'. push_all dflt vs a = Ret a' \<and> array_ok a' \<and> elems a' = elems a @ vs"
proof (induction vs arbitrary: a)
  case (Cons v vs)
  from push_back_ok [OF Cons.prems, of dflt v] obtain a1 where
    "array_push_back dflt v a = Ret a1" "array_ok a1" "elems a1 = elems a @ [v]" by blast
  with Cons.IH [of a1] show ?case by fastforce
qed simp

section \<open>Properties\<close>



text \<open>The move assignment does not take the capacity over: the next \<open>push_back\<close> on an array of two or
  more elements that was moved into a new value writes outside its block. An array given to
  \<open>push_back\<close> of another array is moved into a new element, so this also holds for an element.\<close>

theorem moved_array_overflows:
  assumes "array_ok a" "2 \<le> array_size a"
  shows "array_push_back dflt v (fst (array_move a empty_array)) = Undef"
proof -
  obtain b where "block a = Some b" using assms by (auto simp: array_ok_def split: option.splits)
  with assms show ?thesis
    by (auto simp: array_push_back_def array_realloc_def array_move_def empty_array_def copy_block_def Let_def)
qed

theorem moved_array_overflows_witness:
  "array_push_back 0 9 (fst (array_move (array_of_list [1, 2 :: int]) empty_array)) = Undef"
  by (rule moved_array_overflows [OF array_ok_new(2)]) (simp add: array_of_list_def)

end
