(* ===== verification/JsonHeap.thy ===== *)
theory JsonHeap
  imports Json
begin

text \<open>
  The memory behind the values of \<open>src/core/include/json/json.h\<close>: a \<open>json_val\<close> owns a buffer of
  characters, a block of values or a \<open>json\<close>. The heap holds these, and the constructors, the destructor,
  \<open>clear\<close>, both assignments and \<open>push_back\<close> work on it through the places where values are kept, so that
  a value can also be assigned to a place it is part of. A place that was deleted is \<open>Undef\<close>. Recursion
  follows the ownership of blocks and runs on fuel: more than the number of blocks a value owns is
  enough. \<open>owns\<close> relates a value in memory to one of \<open>Json\<close>.
\<close>

section \<open>The heap\<close>

text \<open>The union without the third word of its structs; that word, \<open>capacity\<close>, keeps its value when the
  type changes.\<close>

datatype content =
  C_null
| C_int "32 word"
| C_double double
| C_bool bool
| C_string "nat option" nat
| C_array "nat option" nat
| C_json "nat option"

record slot =
  content :: content
  cap_word :: nat

definition null_slot :: slot where
  "null_slot = \<lparr>content = C_null, cap_word = 0\<rparr>"

text \<open>\<open>Chars s n\<close>: \<open>n\<close> bytes that start with the C string \<open>s\<close>; \<open>Table\<close>: the nodes of an \<open>unordered_map\<close> in
  some order.\<close>

datatype cell = Chars string nat | Vals "slot list" | Table "(string \<times> slot) list"

record jheap =
  cells :: "nat \<rightharpoonup> cell"
  next_cell :: nat

definition alloc :: "cell \<Rightarrow> jheap \<Rightarrow> nat \<times> jheap" where
  "alloc x h = (next_cell h, h\<lparr>cells := (cells h)(next_cell h \<mapsto> x), next_cell := next_cell h + 1\<rparr>)"

definition set_cell :: "nat \<Rightarrow> cell \<Rightarrow> jheap \<Rightarrow> jheap" where
  "set_cell a x h = h\<lparr>cells := (cells h)(a \<mapsto> x)\<rparr>"

definition free_cell :: "nat \<Rightarrow> jheap \<Rightarrow> jheap outcome" where
  "free_cell a h = (case cells h a of None \<Rightarrow> Undef | Some _ \<Rightarrow> Ret (h\<lparr>cells := (cells h)(a := None)\<rparr>))"

text \<open>Where a \<open>json_val\<close> is kept: in a block of values (a local variable is a block of one), or in a map.\<close>

datatype place = Elem nat nat | Entry nat string

definition load_place :: "place \<Rightarrow> jheap \<Rightarrow> slot outcome" where
  "load_place l h =
     (case l of
        Elem a i \<Rightarrow>
          (case cells h a of Some (Vals vs) \<Rightarrow> if i < length vs then Ret (vs ! i) else Undef | _ \<Rightarrow> Undef)
      | Entry a k \<Rightarrow>
          (case cells h a of
             Some (Table es) \<Rightarrow> (case map_of es k of Some v \<Rightarrow> Ret v | None \<Rightarrow> Undef) | _ \<Rightarrow> Undef))"

definition store_place :: "place \<Rightarrow> slot \<Rightarrow> jheap \<Rightarrow> jheap outcome" where
  "store_place l v h =
     (case l of
        Elem a i \<Rightarrow>
          (case cells h a of
             Some (Vals vs) \<Rightarrow> if i < length vs then Ret (set_cell a (Vals (vs[i := v])) h) else Undef | _ \<Rightarrow> Undef)
      | Entry a k \<Rightarrow>
          (case cells h a of
             Some (Table es) \<Rightarrow>
               if k \<in> fst ` set es then Ret (set_cell a (Table (map (\<lambda>(j, x). (j, if j = k then v else x)) es)) h)
               else Undef
           | _ \<Rightarrow> Undef))"

section \<open>Destruction\<close>

text \<open>\<open>~json_val\<close>; \<open>delete[]\<close> destroys the elements from the last one on. \<open>d\<close> is the recursive call.\<close>

primrec destroy_all :: "(content \<Rightarrow> jheap \<Rightarrow> jheap outcome) \<Rightarrow> content list \<Rightarrow> jheap \<Rightarrow> jheap outcome" where
  "destroy_all d [] h = Ret h"
| "destroy_all d (c # cs) h = bind_out (d c h) (destroy_all d cs)"

primrec destroy :: "nat \<Rightarrow> content \<Rightarrow> jheap \<Rightarrow> jheap outcome" where
  "destroy 0 c h = Blocked"
| "destroy (Suc k) c h =
     (case c of
        C_string (Some a) n \<Rightarrow> (case cells h a of Some (Chars s m) \<Rightarrow> free_cell a h | _ \<Rightarrow> Undef)
      | C_array (Some a) n \<Rightarrow>
          (case cells h a of
             Some (Vals vs) \<Rightarrow> bind_out (destroy_all (destroy k) (rev (map content vs)) h) (free_cell a)
           | _ \<Rightarrow> Undef)
      | C_json (Some a) \<Rightarrow>
          (case cells h a of
             Some (Table es) \<Rightarrow> bind_out (destroy_all (destroy k) (map (content \<circ> snd) es) h) (free_cell a)
           | _ \<Rightarrow> Undef)
      | _ \<Rightarrow> Ret h)"

definition has_block :: "content \<Rightarrow> bool" where
  "has_block c = (case c of C_string _ _ \<Rightarrow> True | C_array _ _ \<Rightarrow> True | C_json _ \<Rightarrow> True | _ \<Rightarrow> False)"

text \<open>\<open>clear\<close>: only a string, an array or an object becomes null.\<close>

definition clear_place :: "nat \<Rightarrow> place \<Rightarrow> jheap \<Rightarrow> jheap outcome" where
  "clear_place k l h =
     bind_out (load_place l h) (\<lambda>v.
     if has_block (content v)
     then bind_out (destroy k (content v) h) (store_place l (v\<lparr>content := C_null\<rparr>))
     else Ret h)"

section \<open>Copying\<close>

text \<open>\<open>JSON_VAL_COPY\<close>: the new content; the elements of a new block are null before they are assigned.\<close>

definition place_content :: "content \<Rightarrow> slot \<Rightarrow> slot" where
  "place_content c v = v\<lparr>content := c, cap_word := (case c of C_array _ n \<Rightarrow> n | _ \<Rightarrow> cap_word v)\<rparr>"

primrec copy_all :: "(content \<Rightarrow> jheap \<Rightarrow> (content \<times> jheap) outcome) \<Rightarrow> content list \<Rightarrow> jheap \<Rightarrow>
    (content list \<times> jheap) outcome" where
  "copy_all cp [] h = Ret ([], h)"
| "copy_all cp (c # cs) h =
     bind_out (cp c h) (\<lambda>(c', h1). bind_out (copy_all cp cs h1) (\<lambda>(cs', h2). Ret (c' # cs', h2)))"

definition new_slots :: "content list \<Rightarrow> slot list" where
  "new_slots cs = map (\<lambda>c. place_content c null_slot) cs"

text \<open>\<open>new json_val[n]\<close> and the assignment of its elements; a new \<open>json\<close> and \<open>emplace\<close> of the entries.\<close>

definition copy_values :: "(content \<Rightarrow> jheap \<Rightarrow> (content \<times> jheap) outcome) \<Rightarrow> nat \<Rightarrow> content list \<Rightarrow> jheap \<Rightarrow>
    (nat \<times> jheap) outcome" where
  "copy_values cp n cs h =
     (let (b, h1) = alloc (Vals (replicate n null_slot)) h in
      bind_out (copy_all cp cs h1) (\<lambda>(cs', h2).
      if length cs' \<le> n then Ret (b, set_cell b (Vals (new_slots cs' @ replicate (n - length cs') null_slot)) h2)
      else Undef))"

definition copy_table :: "(content \<Rightarrow> jheap \<Rightarrow> (content \<times> jheap) outcome) \<Rightarrow> (string \<times> slot) list \<Rightarrow> jheap \<Rightarrow>
    (nat \<times> jheap) outcome" where
  "copy_table cp es h =
     (let (b, h1) = alloc (Table []) h in
      bind_out (copy_all cp (map (content \<circ> snd) es) h1) (\<lambda>(cs', h2).
      Ret (b, set_cell b (Table (zip (map fst es) (new_slots cs'))) h2)))"

primrec copy_content :: "nat \<Rightarrow> content \<Rightarrow> jheap \<Rightarrow> (content \<times> jheap) outcome" where
  "copy_content 0 c h = Blocked"
| "copy_content (Suc k) c h =
     (case c of
        C_string p n \<Rightarrow>
          (case p of
             None \<Rightarrow> Undef
           | Some a \<Rightarrow>
               (case cells h a of
                  Some (Chars s m) \<Rightarrow>
                    if length s \<le> n then (let (b, h1) = alloc (Chars s (Suc n)) h in Ret (C_string (Some b) n, h1))
                    else Undef
                | _ \<Rightarrow> Undef))
      | C_array p n \<Rightarrow>
          (case (p, n) of
             (_, 0) \<Rightarrow> bind_out (copy_values (copy_content k) 0 [] h) (\<lambda>(b, h1). Ret (C_array (Some b) 0, h1))
           | (None, _) \<Rightarrow> Undef
           | (Some a, _) \<Rightarrow>
               (case cells h a of
                  Some (Vals vs) \<Rightarrow>
                    if n \<le> length vs then
                      bind_out (copy_values (copy_content k) n (map content (take n vs)) h) (\<lambda>(b, h1). Ret (C_array (Some b) n, h1))
                    else Undef
                | _ \<Rightarrow> Undef))
      | C_json p \<Rightarrow>
          (case p of
             None \<Rightarrow> Undef
           | Some a \<Rightarrow>
               (case cells h a of
                  Some (Table es) \<Rightarrow> bind_out (copy_table (copy_content k) es h) (\<lambda>(b, h1). Ret (C_json (Some b), h1))
                | _ \<Rightarrow> Undef))
      | _ \<Rightarrow> Ret (c, h))"

section \<open>Construction and assignment\<close>

text \<open>The copy constructor in a new block of one value, and the constructor from a list of values.\<close>

definition construct_copy :: "nat \<Rightarrow> place \<Rightarrow> jheap \<Rightarrow> (place \<times> jheap) outcome" where
  "construct_copy k src h =
     bind_out (load_place src h) (\<lambda>v.
     bind_out (copy_content k (content v) h) (\<lambda>(c, h1).
     let (a, h2) = alloc (Vals [place_content c null_slot]) h1 in Ret (Elem a 0, h2)))"

text \<open>The constructors of plain values, from a C string and from a \<open>json\<close>. They leave the third word of the
  union as it is: \<open>junk\<close>.\<close>

definition construct_plain :: "nat \<Rightarrow> content \<Rightarrow> jheap \<Rightarrow> place \<times> jheap" where
  "construct_plain junk c h = (let (a, h1) = alloc (Vals [\<lparr>content = c, cap_word = junk\<rparr>]) h in (Elem a 0, h1))"

definition construct_chars :: "nat \<Rightarrow> string \<Rightarrow> jheap \<Rightarrow> place \<times> jheap" where
  "construct_chars junk s h =
     (let (b, h1) = alloc (Chars (cstr s) (Suc (length (cstr s)))) h in
      construct_plain junk (C_string (Some b) (length (cstr s))) h1)"

definition construct_json :: "nat \<Rightarrow> nat \<Rightarrow> (string \<times> slot) list \<Rightarrow> jheap \<Rightarrow> (place \<times> jheap) outcome" where
  "construct_json k junk es h =
     bind_out (copy_table (copy_content k) es h) (\<lambda>(b, h1). Ret (construct_plain junk (C_json (Some b)) h1))"

definition construct_list :: "nat \<Rightarrow> content list \<Rightarrow> jheap \<Rightarrow> (place \<times> jheap) outcome" where
  "construct_list k cs h =
     bind_out (copy_values (copy_content k) (length cs) cs h) (\<lambda>(b, h1).
     let (a, h2) = alloc (Vals [place_content (C_array (Some b) (length cs)) null_slot]) h1 in Ret (Elem a 0, h2))"

text \<open>\<open>operator=(const json_val &)\<close>, \<open>operator=(json_val &&)\<close>, the assignments of a number, a truth value, null,
  a C string and a list.\<close>

definition assign_copy :: "nat \<Rightarrow> place \<Rightarrow> place \<Rightarrow> jheap \<Rightarrow> jheap outcome" where
  "assign_copy k l src h =
     bind_out (clear_place k l h) (\<lambda>h1.
     bind_out (load_place src h1) (\<lambda>v.
     bind_out (copy_content k (content v) h1) (\<lambda>(c, h2).
     bind_out (load_place l h2) (\<lambda>d. store_place l (place_content c d) h2))))"

definition moved_out :: "content \<Rightarrow> content" where
  "moved_out c = (case c of C_string p n \<Rightarrow> C_string None n | C_array p n \<Rightarrow> C_array None n | C_json p \<Rightarrow> C_json None | _ \<Rightarrow> c)"

definition assign_move :: "nat \<Rightarrow> place \<Rightarrow> place \<Rightarrow> jheap \<Rightarrow> jheap outcome" where
  "assign_move k l src h =
     bind_out (clear_place k l h) (\<lambda>h1.
     bind_out (load_place src h1) (\<lambda>v.
     bind_out (load_place l h1) (\<lambda>d.
     bind_out (store_place l (d\<lparr>content := content v\<rparr>) h1) (\<lambda>h2.
     if has_block (content v) then store_place src (v\<lparr>content := moved_out (content v)\<rparr>) h2 else Ret h2))))"

definition assign_plain :: "nat \<Rightarrow> place \<Rightarrow> content \<Rightarrow> jheap \<Rightarrow> jheap outcome" where
  "assign_plain k l c h =
     bind_out (clear_place k l h) (\<lambda>h1.
     bind_out (load_place l h1) (\<lambda>d. store_place l (d\<lparr>content := c\<rparr>) h1))"

definition assign_chars :: "nat \<Rightarrow> place \<Rightarrow> string \<Rightarrow> jheap \<Rightarrow> jheap outcome" where
  "assign_chars k l s h =
     bind_out (clear_place k l h) (\<lambda>h1.
     let (b, h2) = alloc (Chars (cstr s) (Suc (length s))) h1 in
     bind_out (load_place l h2) (\<lambda>d. store_place l (d\<lparr>content := C_string (Some b) (length s)\<rparr>) h2))"

definition assign_list :: "nat \<Rightarrow> place \<Rightarrow> content list \<Rightarrow> jheap \<Rightarrow> jheap outcome" where
  "assign_list k l cs h =
     bind_out (clear_place k l h) (\<lambda>h1.
     bind_out (copy_values (copy_content k) (length cs) cs h1) (\<lambda>(b, h2).
     bind_out (load_place l h2) (\<lambda>d. store_place l (place_content (C_array (Some b) (length cs)) d) h2)))"

text \<open>\<open>push_back\<close>: \<open>JSON_ARRAY_REALLOC\<close>, then the assignment to the next element, which copies or moves.\<close>

definition array_grow :: "nat \<Rightarrow> place \<Rightarrow> jheap \<Rightarrow> jheap outcome" where
  "array_grow k l h =
     bind_out (load_place l h) (\<lambda>v.
     let cap = (if cap_word v = 0 then 1 else cap_word v) in
     case content v of
       C_array p n \<Rightarrow>
         if n + 1 \<ge> cap then
           (case p of
              None \<Rightarrow>
                (let (b, h1) = alloc (Vals (replicate (cap * 2) null_slot)) h in
                 store_place l \<lparr>content = C_array (Some b) n, cap_word = cap\<rparr> h1)
            | Some a \<Rightarrow>
                (case cells h a of
                   Some (Vals vs) \<Rightarrow>
                     if n \<le> length vs then
                       bind_out (copy_values (copy_content k) (cap * 2) (map content (take n vs)) h) (\<lambda>(b, h1).
                       bind_out (destroy k (C_array (Some a) n) h1) (\<lambda>h2.
                       store_place l \<lparr>content = C_array (Some b) n, cap_word = cap * 2\<rparr> h2))
                     else Undef
                 | _ \<Rightarrow> Undef))
         else store_place l (v\<lparr>cap_word := cap\<rparr>) h
     | _ \<Rightarrow> Abort)"

definition push_with :: "(place \<Rightarrow> jheap \<Rightarrow> jheap outcome) \<Rightarrow> nat \<Rightarrow> place \<Rightarrow> jheap \<Rightarrow> jheap outcome" where
  "push_with assign k l h =
     bind_out (array_grow k l h) (\<lambda>h1.
     bind_out (load_place l h1) (\<lambda>v.
     case content v of
       C_array (Some b) n \<Rightarrow>
         bind_out (store_place l (v\<lparr>content := C_array (Some b) (n + 1)\<rparr>) h1) (assign (Elem b n))
     | _ \<Rightarrow> Undef))"

definition push_back :: "nat \<Rightarrow> place \<Rightarrow> place \<Rightarrow> jheap \<Rightarrow> jheap outcome" where
  "push_back k l src h = push_with (\<lambda>e. assign_copy k e src) k l h"

definition push_back_move :: "nat \<Rightarrow> place \<Rightarrow> place \<Rightarrow> jheap \<Rightarrow> jheap outcome" where
  "push_back_move k l src h = push_with (\<lambda>e. assign_move k e src) k l h"

text \<open>\<open>capacity\<close>, which reads the third word for strings too, to which no
  constructor of a string gives a value.\<close>

definition capacity :: "place \<Rightarrow> jheap \<Rightarrow> nat outcome" where
  "capacity l h =
     bind_out (load_place l h) (\<lambda>v.
     Ret (case content v of C_array _ _ \<Rightarrow> cap_word v | C_string _ _ \<Rightarrow> cap_word v | _ \<Rightarrow> 0))"

end
