(* ===== verification/JsonHeapProps.thy ===== *)
theory JsonHeapProps
  imports JsonHeap
begin

text \<open>
  What memory holds: \<open>owns m c v F\<close> says that content \<open>c\<close> stands for the value \<open>v\<close> of \<open>Json\<close> and owns exactly
  the blocks \<open>F\<close>, no block twice. Copies own new blocks only, destruction gives back exactly the blocks
  owned, assignment replaces one by the other; and what goes wrong when the places overlap.
\<close>

section \<open>Ownership\<close>

type_synonym memory = "nat \<rightharpoonup> cell"

inductive owns :: "memory \<Rightarrow> content \<Rightarrow> json_val \<Rightarrow> nat set \<Rightarrow> bool"
  and owns_all :: "memory \<Rightarrow> content list \<Rightarrow> json_val list \<Rightarrow> nat set \<Rightarrow> bool" for m where
  o_null: "owns m C_null V_null {}"
| o_int: "owns m (C_int i) (V_int i) {}"
| o_double: "owns m (C_double d) (V_double d) {}"
| o_bool: "owns m (C_bool b) (V_bool b) {}"
| o_string: "m a = Some (Chars s k) \<Longrightarrow> length s \<le> n \<Longrightarrow> owns m (C_string (Some a) n) (V_string s n) {a}"
| o_empty: "owns m (C_array None 0) (V_array []) {}"
| o_array: "m a = Some (Vals ss) \<Longrightarrow> n \<le> length ss \<Longrightarrow> list_all (\<lambda>s. content s = C_null) (drop n ss) \<Longrightarrow>
    owns_all m (map content (take n ss)) vs F \<Longrightarrow> a \<notin> F \<Longrightarrow>
    owns m (C_array (Some a) n) (V_array vs) (insert a F)"
| o_json: "m a = Some (Table es) \<Longrightarrow> distinct (map fst es) \<Longrightarrow>
    owns_all m (map (content \<circ> snd) es) vs F \<Longrightarrow> a \<notin> F \<Longrightarrow>
    owns m (C_json (Some a)) (V_json (fmap_of_list (zip (map fst es) vs))) (insert a F)"
| o_Nil: "owns_all m [] [] {}"
| o_Cons: "owns m c v F \<Longrightarrow> owns_all m cs vs G \<Longrightarrow> F \<inter> G = {} \<Longrightarrow> owns_all m (c # cs) (v # vs) (F \<union> G)"

inductive_cases owns_all_Nil: "owns_all m [] vs F"
inductive_cases owns_all_Cons: "owns_all m (c # cs) vs F"

lemma owns_dom: "owns m c v F \<Longrightarrow> finite F \<and> F \<subseteq> dom m"
  and owns_all_dom: "owns_all m cs vs G \<Longrightarrow> finite G \<and> G \<subseteq> dom m"
  by (induction rule: owns_owns_all.inducts) auto

lemma owns_frame: "owns m c v F \<Longrightarrow> (\<And>a. a \<in> F \<Longrightarrow> m' a = m a) \<Longrightarrow> owns m' c v F"
  and owns_all_frame: "owns_all m cs vs G \<Longrightarrow> (\<And>a. a \<in> G \<Longrightarrow> m' a = m a) \<Longrightarrow> owns_all m' cs vs G"
proof (induction rule: owns_owns_all.inducts)
  case (o_array a ss n vs F)
  then have "m' a = Some (Vals ss)" "owns_all m' (map content (take n ss)) vs F" by simp_all
  with o_array.hyps show ?case by (auto intro: owns_owns_all.o_array)
next
  case (o_json a es vs F)
  then have "m' a = Some (Table es)" "owns_all m' (map (content \<circ> snd) es) vs F" by simp_all
  with o_json.hyps show ?case by (auto intro: owns_owns_all.o_json)
qed (auto intro!: owns_owns_all.intros)

lemma owns_all_length: "owns_all m cs vs F \<Longrightarrow> length cs = length vs"
  by (induction cs arbitrary: vs F) (auto elim: owns_all_Nil owns_all_Cons)

lemma owns_all_append:
  assumes "owns_all m (cs @ ds) vs F"
  shows "\<exists>us ws G H. vs = us @ ws \<and> F = G \<union> H \<and> G \<inter> H = {} \<and> owns_all m cs us G \<and> owns_all m ds ws H"
  using assms
proof (induction cs arbitrary: vs F)
  case Nil
  then show ?case by (intro exI [of _ "[]"] exI [of _ vs] exI [of _ "{}"] exI [of _ F]) (auto intro: o_Nil)
next
  case (Cons c cs)
  then obtain v vs' F1 F2 where v: "vs = v # vs'" "F = F1 \<union> F2" "F1 \<inter> F2 = {}" "owns m c v F1"
      "owns_all m (cs @ ds) vs' F2" by (auto elim: owns_all_Cons)
  from Cons.IH [OF v(5)] obtain us ws G H where i: "vs' = us @ ws" "F2 = G \<union> H" "G \<inter> H = {}"
      "owns_all m cs us G" "owns_all m ds ws H" by blast
  have "owns_all m (c # cs) (v # us) (F1 \<union> G)" using v i by (intro o_Cons) auto
  with v i show ?case by (intro exI [of _ "v # us"] exI [of _ ws] exI [of _ "F1 \<union> G"] exI [of _ H]) auto
qed

section \<open>Destruction\<close>

definition without :: "nat set \<Rightarrow> jheap \<Rightarrow> jheap" where
  "without F h = h\<lparr>cells := cells h |` (- F)\<rparr>"

lemma without_simps [simp]:
  "cells (without F h) a = (if a \<in> F then None else cells h a)" "without {} h = h"
  "without G (without F h) = without (F \<union> G) h" "next_cell (without F h) = next_cell h"
  by (auto simp: without_def restrict_map_def intro!: arg_cong [of _ _ "\<lambda>c. h\<lparr>cells := c\<rparr>"])

lemma free_cell_without: "cells h a = Some x \<Longrightarrow> free_cell a h = Ret (without {a} h)"
  by (auto simp: free_cell_def without_def restrict_map_def intro!: arg_cong [of _ _ "\<lambda>c. h\<lparr>cells := c\<rparr>"])

lemma destroy_all_append:
  "destroy_all d (cs @ ds) h = bind_out (destroy_all d cs h) (destroy_all d ds)"
proof (induction cs arbitrary: h)
  case (Cons c cs)
  then have "destroy_all d (cs @ ds) = (\<lambda>h. bind_out (destroy_all d cs h) (destroy_all d ds))" by (intro ext)
  then show ?case by (simp add: bind_out_assoc)
qed simp

lemma destroy_all_null: "list_all (\<lambda>c. c = C_null) cs \<Longrightarrow> destroy_all (destroy (Suc k)) cs h = Ret h"
  by (induction cs) auto

lemma destroy_owned:
  "owns m c v F \<Longrightarrow> (\<And>a. a \<in> F \<Longrightarrow> cells h a = m a) \<Longrightarrow> card F < k \<Longrightarrow> destroy k c h = Ret (without F h)"
  and destroy_all_owned:
  "owns_all m cs vs F \<Longrightarrow> (\<And>a. a \<in> F \<Longrightarrow> cells h a = m a) \<Longrightarrow> card F < k \<Longrightarrow>
     destroy_all (destroy k) cs h = Ret (without F h) \<and> destroy_all (destroy k) (rev cs) h = Ret (without F h)"
proof (induction arbitrary: h k and h k rule: owns_owns_all.inducts)
  case (o_string a s k' n)
  then show ?case by (cases k) (simp_all add: free_cell_without)
next
  case (o_array a ss n vs F)
  have F: "finite F" using o_array.IH(2) owns_all_dom by blast
  then obtain j where k: "k = Suc j" "card F < j" using o_array.prems(2) o_array.hyps(3) by (cases k) auto
  have "rev (map content ss) = rev (map content (drop n ss)) @ rev (map content (take n ss))"
    by (metis append_take_drop_id map_append rev_append)
  moreover obtain i where "j = Suc i" using k(2) by (cases j) auto
  then have "destroy_all (destroy j) (rev (map content (drop n ss))) h = Ret h"
    using o_array.hyps(2) by (intro destroy_all_null [of _ i, folded \<open>j = Suc i\<close>]) (simp add: list_all_iff)
  moreover have "destroy_all (destroy j) (rev (map content (take n ss))) h = Ret (without F h)"
    using o_array.IH(3) [of h j] o_array.prems(1) k(2) by blast
  ultimately have "destroy_all (destroy j) (rev (map content ss)) h = Ret (without F h)"
    by (simp add: destroy_all_append)
  moreover have "cells h a = Some (Vals ss)" using o_array.IH(1) o_array.prems(1) by simp
  ultimately show ?case
    using free_cell_without [of "without F h" a "Vals ss"] o_array.hyps(3) k(1) by simp
next
  case (o_json a es vs F)
  have F: "finite F" using o_json.IH(2) owns_all_dom by blast
  then obtain j where k: "k = Suc j" "card F < j" using o_json.prems(2) o_json.hyps(2) by (cases k) auto
  have "destroy_all (destroy j) (map (content \<circ> snd) es) h = Ret (without F h)"
    using o_json.IH(3) [of h j] o_json.prems(1) k(2) by blast
  moreover have "cells h a = Some (Table es)" using o_json.IH(1) o_json.prems(1) by simp
  ultimately show ?case
    using free_cell_without [of "without F h" a "Table es"] o_json.hyps(2) k(1) by simp
next
  case (o_Cons c v F cs vs G)
  have fin: "finite F" "finite G" using o_Cons.IH(1,3) owns_dom owns_all_dom by blast+
  then have le: "card F < k" "card G < k"
    using o_Cons.prems(2) card_mono [of "F \<union> G" F] card_mono [of "F \<union> G" G] by simp_all
  have 1: "destroy k c h' = Ret (without F h')" if "\<forall>a\<in>F. cells h' a = cells h a" for h'
    using that o_Cons.IH(2) [of h' k] o_Cons.prems(1) le by simp
  have 2: "destroy_all (destroy k) cs h' = Ret (without G h')" "destroy_all (destroy k) (rev cs) h' = Ret (without G h')"
    if "\<forall>a\<in>G. cells h' a = cells h a" for h'
    using that o_Cons.IH(4) [of h' k] o_Cons.prems(1) le by simp_all
  have "\<forall>a\<in>G. cells (without F h) a = cells h a" "\<forall>a\<in>F. cells (without G h) a = cells h a"
    using o_Cons.hyps(1) by auto
  with 1 2 show ?case by (simp add: destroy_all_append Un_commute)
qed (case_tac k; simp)+

section \<open>Copying\<close>

definition heap_ok :: "jheap \<Rightarrow> bool" where
  "heap_ok h \<longleftrightarrow> (\<forall>a\<in>dom (cells h). a < next_cell h)"

text \<open>Exactly the new blocks \<open>N\<close> are added, and nothing else changes.\<close>

definition grows :: "jheap \<Rightarrow> jheap \<Rightarrow> nat set \<Rightarrow> bool" where
  "grows h h' N \<longleftrightarrow> heap_ok h' \<and> N \<subseteq> dom (cells h') \<and> N \<inter> dom (cells h) = {} \<and>
     (\<forall>a. a \<notin> N \<longrightarrow> cells h' a = cells h a)"

lemma grows_refl: "heap_ok h \<Longrightarrow> grows h h {}"
  by (simp add: grows_def)

lemma grows_old: "grows h h' N \<Longrightarrow> a \<in> dom (cells h) \<Longrightarrow> a \<notin> N \<and> cells h' a = cells h a"
  by (auto simp: grows_def)

lemma grows_dom: "grows h h' N \<Longrightarrow> dom (cells h') = dom (cells h) \<union> N"
  by (rule set_eqI, case_tac "x \<in> N") (auto simp: grows_def dom_def)

lemma grows_trans:
  assumes "grows h h1 N" "grows h1 h2 M"
  shows "grows h h2 (N \<union> M) \<and> N \<inter> M = {}"
proof -
  note d = grows_dom [OF assms(1)] grows_dom [OF assms(2)]
  have "N \<inter> M = {}" "M \<inter> dom (cells h) = {}" using assms(2) d(1) unfolding grows_def by blast+
  moreover have "cells h2 a = cells h a" if "a \<notin> N \<union> M" for a using assms that by (simp add: grows_def)
  ultimately show ?thesis using assms d unfolding grows_def by (simp add: Int_Un_distrib2) blast
qed

lemma grows_alloc:
  assumes "heap_ok h" "alloc x h = (b, h1)"
  shows "grows h h1 {b} \<and> cells h1 b = Some x"
proof -
  have h1: "b = next_cell h" "h1 = h\<lparr>cells := (cells h)(b \<mapsto> x), next_cell := b + 1\<rparr>"
    using assms(2) by (auto simp: alloc_def)
  then have "b \<notin> dom (cells h)" using assms(1) by (auto simp: heap_ok_def)
  moreover have "heap_ok h1" using assms(1) h1 by (auto simp: heap_ok_def less_Suc_eq)
  ultimately show ?thesis using h1(2) by (simp add: grows_def)
qed

lemma grows_set_cell:
  assumes "grows h h1 N" "b \<in> N"
  shows "grows h (set_cell b x h1) N"
proof -
  have "b \<in> dom (cells h1)" using assms by (auto simp: grows_def)
  then have "heap_ok (set_cell b x h1)" using assms(1) by (auto simp: grows_def heap_ok_def set_cell_def)
  with assms show ?thesis by (auto simp: grows_def set_cell_def)
qed

lemma grows_owns:
  assumes "grows h h1 N" "owns (cells h) c v F"
  shows "owns (cells h1) c v F"
  using owns_frame [OF assms(2)] owns_dom [OF assms(2)] grows_old [OF assms(1)] by blast

lemma grows_heap_ok: "grows h h1 N \<Longrightarrow> heap_ok h1"
  by (simp add: grows_def)

lemma new_slots_content [simp]: "map content (new_slots cs) = cs" "length (new_slots cs) = length cs"
  by (simp_all add: new_slots_def place_content_def comp_def)

text \<open>\<open>copies cp cs vs h\<close>: \<open>cp\<close> copies the contents \<open>cs\<close> of the values \<open>vs\<close>, whatever was allocated before.\<close>

definition copies :: "(content \<Rightarrow> jheap \<Rightarrow> (content \<times> jheap) outcome) \<Rightarrow> content list \<Rightarrow> json_val list \<Rightarrow> jheap \<Rightarrow> bool" where
  "copies cp cs vs h \<longleftrightarrow>
     (\<exists>cs' h' N. copy_all cp cs h = Ret (cs', h') \<and> owns_all (cells h') cs' vs N \<and> grows h h' N)"

lemma copy_values_ok:
  assumes "heap_ok h" "\<And>h1. \<exists>N. grows h h1 N \<Longrightarrow> copies cp cs vs h1" "length cs \<le> n" "length vs = length cs"
  shows "\<exists>b h' N. copy_values cp n cs h = Ret (b, h') \<and> owns (cells h') (C_array (Some b) (length cs)) (V_array vs) N \<and>
    grows h h' N \<and> (\<exists>ss. cells h' b = Some (Vals ss) \<and> length ss = n)"
proof -
  obtain b h1 where a: "alloc (Vals (replicate n null_slot)) h = (b, h1)" by fastforce
  note g1 = grows_alloc [OF assms(1) a]
  obtain cs' h2 N where c: "copy_all cp cs h1 = Ret (cs', h2)" "owns_all (cells h2) cs' vs N" "grows h1 h2 N"
    using assms(2) [of h1] g1 unfolding copies_def by blast
  define ss where "ss = new_slots cs' @ replicate (n - length cs') null_slot"
  have len: "length cs' = length cs" using owns_all_length [OF c(2)] assms(4) by simp
  have b: "b \<notin> N" using g1 c(3) by (auto simp: grows_def)
  have "owns_all (cells (set_cell b (Vals ss) h2)) cs' vs N"
    by (rule owns_all_frame [OF c(2)]) (use b in \<open>auto simp: set_cell_def\<close>)
  moreover have "map content (take (length cs) ss) = cs'" "n = length ss"
    "list_all (\<lambda>s. content s = C_null) (drop (length cs) ss)"
    using len assms(3) by (simp_all add: ss_def list_all_iff null_slot_def flip: take_map)
  ultimately have "owns (cells (set_cell b (Vals ss) h2)) (C_array (Some b) (length cs)) (V_array vs) (insert b N)"
    using b len assms(3) by (intro o_array [where ss = ss]) (auto simp: set_cell_def)
  moreover have "grows h h2 (insert b N)" using grows_trans [OF conjunct1 [OF g1] c(3)] by simp
  then have "grows h (set_cell b (Vals ss) h2) (insert b N)" by (rule grows_set_cell) simp
  moreover have "copy_values cp n cs h = Ret (b, set_cell b (Vals ss) h2)"
    using a c(1) len assms(3) by (simp add: copy_values_def ss_def)
  moreover have "cells (set_cell b (Vals ss) h2) b = Some (Vals ss)" by (simp add: set_cell_def)
  ultimately show ?thesis using \<open>n = length ss\<close> by metis
qed

lemma copy_table_ok:
  assumes "heap_ok h" "\<And>h1. \<exists>N. grows h h1 N \<Longrightarrow> copies cp (map (content \<circ> snd) es) vs h1"
    and "distinct (map fst es)" "length vs = length es"
  shows "\<exists>b h' N. copy_table cp es h = Ret (b, h') \<and>
    owns (cells h') (C_json (Some b)) (V_json (fmap_of_list (zip (map fst es) vs))) N \<and> grows h h' N"
proof -
  obtain b h1 where a: "alloc (Table []) h = (b, h1)" by fastforce
  note g1 = grows_alloc [OF assms(1) a]
  obtain cs' h2 N where c: "copy_all cp (map (content \<circ> snd) es) h1 = Ret (cs', h2)" "owns_all (cells h2) cs' vs N" "grows h1 h2 N"
    using assms(2) [of h1] g1 unfolding copies_def by blast
  define ts where "ts = zip (map fst es) (new_slots cs')"
  have len: "length cs' = length es" using owns_all_length [OF c(2)] assms(4) by simp
  then have ts: "map fst ts = map fst es" "map snd ts = new_slots cs'" by (simp_all add: ts_def)
  then have cs: "map (content \<circ> snd) ts = cs'" by (metis new_slots_content(1) map_map)
  have b: "b \<notin> N" using g1 c(3) by (auto simp: grows_def)
  have "owns_all (cells (set_cell b (Table ts) h2)) cs' vs N"
    by (rule owns_all_frame [OF c(2)]) (use b in \<open>auto simp: set_cell_def\<close>)
  then have "owns (cells (set_cell b (Table ts) h2)) (C_json (Some b)) (V_json (fmap_of_list (zip (map fst ts) vs))) (insert b N)"
    using b cs assms(3) ts(1) by (intro o_json) (auto simp: set_cell_def)
  moreover have "grows h h2 (insert b N)" using grows_trans [OF conjunct1 [OF g1] c(3)] by simp
  then have "grows h (set_cell b (Table ts) h2) (insert b N)" by (rule grows_set_cell) simp
  moreover have "copy_table cp es h = Ret (b, set_cell b (Table ts) h2)"
    using a c(1) by (simp add: copy_table_def ts_def)
  ultimately show ?thesis using ts(1) by metis
qed

lemma grows_same:
  assumes "grows h h1 N" "F \<subseteq> dom m" "\<And>a. a \<in> F \<Longrightarrow> cells h a = m a"
  shows "a \<in> F \<Longrightarrow> cells h1 a = m a"
  using assms grows_old [OF assms(1), of a] by (metis domIff subsetD)

lemma copies_Nil: "heap_ok h \<Longrightarrow> copies cp [] [] h"
  by (auto simp: copies_def intro: o_Nil grows_refl)

lemma copies_Cons:
  assumes "cp c h = Ret (c', h1)" "owns (cells h1) c' v N" "grows h h1 N" "copies cp cs vs h1"
  shows "copies cp (c # cs) (v # vs) h"
proof -
  obtain cs' h2 M where m: "copy_all cp cs h1 = Ret (cs', h2)" "owns_all (cells h2) cs' vs M" "grows h1 h2 M"
    using assms(4) by (auto simp: copies_def)
  have "owns (cells h2) c' v N" by (rule grows_owns [OF m(3) assms(2)])
  with m(2) grows_trans [OF assms(3) m(3)] have "owns_all (cells h2) (c' # cs') (v # vs) (N \<union> M)" "grows h h2 (N \<union> M)"
    by (auto intro: o_Cons)
  with assms(1) m(1) show ?thesis unfolding copies_def by (intro exI) auto
qed

lemma copy_owned:
  "owns m c v F \<Longrightarrow> (\<And>a. a \<in> F \<Longrightarrow> cells h a = m a) \<Longrightarrow> heap_ok h \<Longrightarrow> card F < k \<Longrightarrow>
     \<exists>c' h' N. copy_content k c h = Ret (c', h') \<and> owns (cells h') c' v N \<and> grows h h' N"
  and copy_all_owned:
  "owns_all m cs vs F \<Longrightarrow> (\<And>a. a \<in> F \<Longrightarrow> cells h a = m a) \<Longrightarrow> heap_ok h \<Longrightarrow> card F < k \<Longrightarrow>
     copies (copy_content k) cs vs h"
proof (induction arbitrary: h k and h k rule: owns_owns_all.inducts)
  case (o_string a s k' n)
  then obtain j where k: "k = Suc j" by (cases k) auto
  obtain b h1 where a: "alloc (Chars s (Suc n)) h = (b, h1)" by fastforce
  from grows_alloc [OF o_string.prems(2) a] have "grows h h1 {b}" "owns (cells h1) (C_string (Some b) n) (V_string s n) {b}"
    using o_string.hyps(1) by (auto intro: owns_owns_all.o_string)
  with o_string k a show ?case by (intro exI [of _ "C_string (Some b) n"] exI [of _ h1] exI [of _ "{b}"]) simp
next
  case o_empty
  then obtain j where k: "k = Suc j" by (cases k) auto
  have "copies (copy_content j) [] [] h1" if "\<exists>N. grows h h1 N" for h1
    using that grows_heap_ok by (auto intro: copies_Nil)
  from copy_values_ok [OF o_empty.prems(2) this, of 0] obtain b h' N where
    "copy_values (copy_content j) 0 [] h = Ret (b, h')" "owns (cells h') (C_array (Some b) 0) (V_array []) N" "grows h h' N" by auto
  with k show ?case by auto
next
  case (o_array a ss n vs F)
  have F: "finite F" "F \<subseteq> dom m" using o_array.IH(2) owns_all_dom by blast+
  then obtain j where k: "k = Suc j" "card F < j" using o_array.prems(3) o_array.hyps(3) by (cases k) auto
  have c: "copies (copy_content j) (map content (take n ss)) vs h1" if "\<exists>N. grows h h1 N" for h1
    using o_array.IH(3) [of h1 j] grows_same [OF _ F(2)] o_array.prems(1) k(2) grows_heap_ok that by auto
  have len: "length vs = n" using owns_all_length [OF o_array.IH(2)] o_array.hyps(1) by simp
  from copy_values_ok [OF o_array.prems(2) c, where n = n] len o_array.hyps(1) obtain b h' N where
    "copy_values (copy_content j) n (map content (take n ss)) h = Ret (b, h')"
    "owns (cells h') (C_array (Some b) n) (V_array vs) N" "grows h h' N" by auto
  with k(1) o_array.hyps(1) o_array.IH(1) o_array.prems(1) show ?case
    by (intro exI [of _ "C_array (Some b) n"] exI [of _ h'] exI [of _ N]) (cases n; simp)
next
  case (o_json a es vs F)
  have F: "finite F" "F \<subseteq> dom m" using o_json.IH(2) owns_all_dom by blast+
  then obtain j where k: "k = Suc j" "card F < j" using o_json.prems(3) o_json.hyps(2) by (cases k) auto
  have c: "copies (copy_content j) (map (content \<circ> snd) es) vs h1" if "\<exists>N. grows h h1 N" for h1
    using o_json.IH(3) [of h1 j] grows_same [OF _ F(2)] o_json.prems(1) k(2) grows_heap_ok that by auto
  have len: "length vs = length es" using owns_all_length [OF o_json.IH(2)] by simp
  from copy_table_ok [OF o_json.prems(2) c o_json.hyps(1) len] obtain b h' N where
    "copy_table (copy_content j) es h = Ret (b, h')"
    "owns (cells h') (C_json (Some b)) (V_json (fmap_of_list (zip (map fst es) vs))) N" "grows h h' N" by blast
  with k(1) o_json.IH(1) o_json.prems(1) show ?case
    by (intro exI [of _ "C_json (Some b)"] exI [of _ h'] exI [of _ N]) simp
next
  case o_Nil
  then show ?case by (simp add: copies_Nil)
next
  case (o_Cons c v F cs vs G)
  have fin: "finite F" "finite G" "G \<subseteq> dom m" using o_Cons.IH(1,3) owns_dom owns_all_dom by blast+
  then have le: "card F < k" "card G < k"
    using o_Cons.prems(3) card_mono [of "F \<union> G" F] card_mono [of "F \<union> G" G] by simp_all
  obtain c' h1 N where 1: "copy_content k c h = Ret (c', h1)" "owns (cells h1) c' v N" "grows h h1 N"
    using o_Cons.IH(2) [of h k] o_Cons.prems(1,2) le(1) by auto
  have "copies (copy_content k) cs vs h1"
    using o_Cons.IH(4) [of h1 k] grows_same [OF 1(3) fin(3)] o_Cons.prems(1) grows_heap_ok [OF 1(3)] le(2) by simp
  with 1 show ?case by (rule copies_Cons)
qed (case_tac k; auto intro: owns_owns_all.intros grows_refl)+

section \<open>Places\<close>

primrec place_addr :: "place \<Rightarrow> nat" where
  "place_addr (Elem a i) = a"
| "place_addr (Entry a k) = a"

lemma load_frame: "cells h' (place_addr l) = cells h (place_addr l) \<Longrightarrow> load_place l h' = load_place l h"
  by (cases l) (simp_all add: load_place_def)

lemma load_dom: "load_place l h = Ret v \<Longrightarrow> place_addr l \<in> dom (cells h)"
  by (cases l) (auto simp: load_place_def split: option.splits)

lemma map_of_replace:
  "map_of (map (\<lambda>(j, x). (j, if j = k then v else x)) es) i =
     (if i = k then map_option (\<lambda>_. v) (map_of es k) else map_of es i)"
  by (induction es) auto

lemma store_ok:
  assumes "load_place l h = Ret d"
  shows "\<exists>x. store_place l v h = Ret (set_cell (place_addr l) x h) \<and>
    load_place l (set_cell (place_addr l) x h) = Ret v \<and>
    (\<forall>l'. l' \<noteq> l \<longrightarrow> load_place l' (set_cell (place_addr l) x h) = load_place l' h)"
proof (cases l)
  case (Elem a i)
  with assms obtain vs where vs: "cells h a = Some (Vals vs)" "i < length vs"
    by (auto simp: load_place_def split: option.splits cell.splits if_splits)
  have "load_place l' (set_cell a (Vals (vs[i := v])) h) = load_place l' h" if "l' \<noteq> l" for l'
    using that vs Elem by (cases l') (auto simp: load_place_def set_cell_def nth_list_update)
  with vs Elem show ?thesis
    by (intro exI [of _ "Vals (vs[i := v])"]) (simp add: store_place_def load_place_def set_cell_def)
next
  case (Entry a k)
  with assms obtain es where es: "cells h a = Some (Table es)" "map_of es k = Some d"
    by (auto simp: load_place_def split: option.splits cell.splits)
  let ?x = "Table (map (\<lambda>(j, x). (j, if j = k then v else x)) es)"
  have "load_place l' (set_cell a ?x h) = load_place l' h" if "l' \<noteq> l" for l'
    using that es Entry by (cases l') (auto simp: load_place_def set_cell_def map_of_replace)
  moreover have "k \<in> fst ` set es" using es(2) by (metis map_of_eq_None_iff option.distinct(1))
  ultimately show ?thesis using es Entry
    by (intro exI [of _ ?x]) (simp add: store_place_def load_place_def set_cell_def map_of_replace)
qed

lemma set_cell_facts:
  "a \<in> dom (cells h) \<Longrightarrow> heap_ok h \<Longrightarrow> heap_ok (set_cell a x h)"
  "a \<in> dom (cells h) \<Longrightarrow> dom (cells (set_cell a x h)) = dom (cells h)"
  "b \<noteq> a \<Longrightarrow> cells (set_cell a x h) b = cells h b"
  by (auto simp: heap_ok_def set_cell_def)

lemma without_facts: "heap_ok h \<Longrightarrow> heap_ok (without F h)" "dom (cells (without F h)) = dom (cells h) - F"
  by (auto simp: heap_ok_def dom_def split: if_splits)

text \<open>What a step that ends the value at \<open>l\<close> leaves: its blocks \<open>D\<close> are gone, and nothing else has changed.\<close>

definition released :: "place \<Rightarrow> nat set \<Rightarrow> jheap \<Rightarrow> jheap \<Rightarrow> bool" where
  "released l D h h1 \<longleftrightarrow> heap_ok h1 \<and> dom (cells h1) = dom (cells h) - D \<and>
     (\<forall>a. a \<notin> D \<longrightarrow> a \<noteq> place_addr l \<longrightarrow> cells h1 a = cells h a) \<and>
     (\<forall>l'. l' \<noteq> l \<longrightarrow> place_addr l' \<notin> D \<longrightarrow> load_place l' h1 = load_place l' h)"

lemma no_block_owns: "owns m c v F \<Longrightarrow> \<not> has_block c \<Longrightarrow> F = {}"
  by (erule owns.cases) (simp_all add: has_block_def)

lemma clear_ok:
  assumes "heap_ok h" "load_place l h = Ret d" "owns (cells h) (content d) w D" "place_addr l \<notin> D" "card D < k"
  shows "\<exists>h1 c. clear_place k l h = Ret h1 \<and> load_place l h1 = Ret (d\<lparr>content := c\<rparr>) \<and>
    \<not> has_block c \<and> (has_block (content d) \<longrightarrow> c = C_null) \<and> released l D h h1"
proof (cases "has_block (content d)")
  case False
  with no_block_owns [OF assms(3)] assms show ?thesis
    by (intro exI [of _ h] exI [of _ "content d"]) (simp add: clear_place_def released_def)
next
  case True
  have des: "destroy k (content d) h = Ret (without D h)" by (rule destroy_owned [OF assms(3) _ assms(5)]) simp
  have l: "load_place l (without D h) = Ret d" using assms(2,4) load_frame [of "without D h" l h] by simp
  from store_ok [OF l, of "d\<lparr>content := C_null\<rparr>"] obtain x where
    x: "store_place l (d\<lparr>content := C_null\<rparr>) (without D h) = Ret (set_cell (place_addr l) x (without D h))"
      "load_place l (set_cell (place_addr l) x (without D h)) = Ret (d\<lparr>content := C_null\<rparr>)"
      "\<forall>l'. l' \<noteq> l \<longrightarrow> load_place l' (set_cell (place_addr l) x (without D h)) = load_place l' (without D h)" by blast
  have "released l D h (set_cell (place_addr l) x (without D h))"
    using x(3) without_facts [where h = h and F = D] load_dom [OF l] assms(1) load_frame [of "without D h" _ h]
    by (simp add: released_def set_cell_facts)
  with True des x show ?thesis
    using assms(2) by (intro exI [of _ "set_cell (place_addr l) x (without D h)"] exI [of _ C_null])
      (simp add: clear_place_def has_block_def)
qed

lemma store_frame:
  assumes "load_place l h = Ret d" "heap_ok h" "store_place l v h = Ret h'"
  shows "load_place l h' = Ret v" "heap_ok h'" "dom (cells h') = dom (cells h)"
    and "b \<noteq> place_addr l \<Longrightarrow> cells h' b = cells h b" "l' \<noteq> l \<Longrightarrow> load_place l' h' = load_place l' h"
proof -
  obtain x where "h' = set_cell (place_addr l) x h" "load_place l h' = Ret v"
      "\<forall>l'. l' \<noteq> l \<longrightarrow> load_place l' h' = load_place l' h"
    using store_ok [OF assms(1), of v] assms(3) by auto
  then show "load_place l h' = Ret v" "heap_ok h'" "dom (cells h') = dom (cells h)"
    "b \<noteq> place_addr l \<Longrightarrow> cells h' b = cells h b" "l' \<noteq> l \<Longrightarrow> load_place l' h' = load_place l' h"
    using assms(2) load_dom [OF assms(1)] by (auto simp only: set_cell_facts) (simp add: set_cell_def)
qed

lemma owns_untouched:
  assumes "owns (cells h) c v F" "\<And>a. a \<in> dom (cells h) \<Longrightarrow> a \<in> F \<Longrightarrow> cells h' a = cells h a"
  shows "owns (cells h') c v F"
  using assms owns_dom [OF assms(1)] by (blast intro: owns_frame)

section \<open>Assignment\<close>

lemma assign_copy_ok:
  assumes "heap_ok h" "load_place l h = Ret d" "load_place src h = Ret s" "src \<noteq> l"
    and "owns (cells h) (content d) w D" "owns (cells h) (content s) v S" "D \<inter> S = {}"
    and "place_addr l \<notin> D \<union> S" "place_addr src \<notin> D" "card D < k" "card S < k"
  shows "\<exists>h' c N. assign_copy k l src h = Ret h' \<and> heap_ok h' \<and>
    load_place l h' = Ret (place_content c d) \<and> owns (cells h') c v N \<and>
    load_place src h' = Ret s \<and> owns (cells h') (content s) v S \<and>
    N \<inter> (dom (cells h) - D) = {} \<and> dom (cells h') = dom (cells h) - D \<union> N \<and>
    (\<forall>a\<in>dom (cells h) - D. a \<noteq> place_addr l \<longrightarrow> cells h' a = cells h a) \<and>
    (\<forall>l'. l' \<noteq> l \<longrightarrow> place_addr l' \<in> dom (cells h) - D \<longrightarrow> load_place l' h' = load_place l' h)"
proof -
  have l: "place_addr l \<notin> D" "place_addr l \<notin> S" using assms(8) by simp_all
  from clear_ok [OF assms(1,2,5) l(1) assms(10)] obtain h1 c0 where
    c1: "clear_place k l h = Ret h1" "load_place l h1 = Ret (d\<lparr>content := c0\<rparr>)" "released l D h h1" by blast
  then have h1: "heap_ok h1" "dom (cells h1) = dom (cells h) - D" "load_place src h1 = Ret s"
    using assms(3,4,9) by (simp_all add: released_def)
  have s1: "owns (cells h1) (content s) v S"
    by (rule owns_untouched [OF assms(6)]) (use c1(3) l(2) assms(7) in \<open>auto simp: released_def\<close>)
  from copy_owned [OF s1 refl h1(1) assms(11)] obtain c h2 N where
    c2: "copy_content k (content s) h1 = Ret (c, h2)" "owns (cells h2) c v N" "grows h1 h2 N" by blast
  have old: "cells h2 a = cells h1 a" "a \<notin> N" if "a \<in> dom (cells h1)" for a using grows_old [OF c2(3) that] by simp_all
  have l2: "load_place l h2 = Ret (d\<lparr>content := c0\<rparr>)" "load_place src h2 = Ret s"
    using old(1) load_dom c1(2) h1(3) load_frame [of h2 _ h1] by metis+
  define e where "e = place_content c (d\<lparr>content := c0\<rparr>)"
  from store_ok [OF l2(1), of e] obtain h' where h': "store_place l e h2 = Ret h'" by blast
  note f = store_frame [OF l2(1) grows_heap_ok [OF c2(3)] h']
  have "place_addr l \<notin> N" using old(2) load_dom [OF c1(2)] by blast
  then have "owns (cells h') c v N" by (intro owns_untouched [OF c2(2)]) (use f(4) in metis)
  moreover have "owns (cells h') (content s) v S"
    by (rule owns_untouched [OF grows_owns [OF c2(3) s1]]) (use f(4) l(2) in metis)
  moreover have "e = place_content c d" by (simp add: e_def place_content_def split: content.split)
  moreover have "N \<inter> (dom (cells h) - D) = {}" using c2(3) h1(2) by (auto simp: grows_def)
  moreover have "assign_copy k l src h = Ret h'" using c1(1) h1(3) c2(1) l2(1) h' by (simp add: assign_copy_def e_def)
  moreover have "\<forall>a\<in>dom (cells h) - D. a \<noteq> place_addr l \<longrightarrow> cells h' a = cells h a"
    using c1(3) old(1) h1(2) f(4) by (metis DiffE released_def)
  moreover have "load_place l' h' = load_place l' h" if "l' \<noteq> l" "place_addr l' \<in> dom (cells h) - D" for l'
    using that c1(3) old(1) h1(2) f(5) load_frame [of h2 l' h1] by (metis DiffE released_def)
  ultimately show ?thesis
    using f(1,2,3) f(5) [OF assms(4)] l2(2) grows_dom [OF c2(3)] h1(2) by metis
qed

lemma assign_move_ok:
  assumes "heap_ok h" "load_place l h = Ret d" "load_place src h = Ret s" "src \<noteq> l"
    and "owns (cells h) (content d) w D" "owns (cells h) (content s) v S" "D \<inter> S = {}"
    and "place_addr l \<notin> D \<union> S" "place_addr src \<notin> D \<union> S" "card D < k"
  shows "\<exists>h'. assign_move k l src h = Ret h' \<and> heap_ok h' \<and>
    load_place l h' = Ret (d\<lparr>content := content s\<rparr>) \<and> owns (cells h') (content s) v S \<and>
    load_place src h' = Ret (s\<lparr>content := moved_out (content s)\<rparr>) \<and> dom (cells h') = dom (cells h) - D \<and>
    (\<forall>a. a \<notin> D \<longrightarrow> a \<noteq> place_addr l \<longrightarrow> a \<noteq> place_addr src \<longrightarrow> cells h' a = cells h a) \<and>
    (\<forall>l'. l' \<noteq> l \<longrightarrow> l' \<noteq> src \<longrightarrow> place_addr l' \<notin> D \<longrightarrow> load_place l' h' = load_place l' h)"
proof -
  have l: "place_addr l \<notin> D" "place_addr l \<notin> S" "place_addr src \<notin> D" "place_addr src \<notin> S" using assms(8,9) by simp_all
  from clear_ok [OF assms(1,2,5) l(1) assms(10)] obtain h1 c0 where
    c1: "clear_place k l h = Ret h1" "load_place l h1 = Ret (d\<lparr>content := c0\<rparr>)" "released l D h h1" by blast
  then have h1: "heap_ok h1" "dom (cells h1) = dom (cells h) - D" "load_place src h1 = Ret s"
    using assms(3,4) l(3) by (simp_all add: released_def)
  have s1: "owns (cells h1) (content s) v S"
    by (rule owns_untouched [OF assms(6)]) (use c1(3) l(2) assms(7) in \<open>auto simp: released_def\<close>)
  define e where "e = d\<lparr>content := content s\<rparr>"
  from store_ok [OF c1(2), of e] obtain h2 where h2: "store_place l e h1 = Ret h2" by blast
  note f = store_frame [OF c1(2) h1(1) h2]
  have s2: "owns (cells h2) (content s) v S" by (rule owns_untouched [OF s1]) (use f(4) l(2) in metis)
  have src2: "load_place src h2 = Ret s" using f(5) [OF assms(4)] h1(3) by simp
  have run: "assign_move k l src h =
      (if has_block (content s) then store_place src (s\<lparr>content := moved_out (content s)\<rparr>) h2 else Ret h2)"
    using c1(1,2) h1(3) h2 by (simp add: assign_move_def e_def)
  have fr: "cells h2 a = cells h a" if "a \<notin> D" "a \<noteq> place_addr l" for a
    using that f(4) c1(3) by (metis released_def)
  have pl: "load_place l' h2 = load_place l' h" if "l' \<noteq> l" "place_addr l' \<notin> D" for l'
    using that f(5) c1(3) by (metis released_def)
  show ?thesis
  proof (cases "has_block (content s)")
    case False
    then have "moved_out (content s) = content s" by (simp add: has_block_def moved_out_def split: content.splits)
    with False run f(1-3) fr pl s2 src2 h1(2) show ?thesis by (simp add: e_def)
  next
    case True
    from store_ok [OF src2, of "s\<lparr>content := moved_out (content s)\<rparr>"] obtain h' where
      h': "store_place src (s\<lparr>content := moved_out (content s)\<rparr>) h2 = Ret h'" by blast
    note g = store_frame [OF src2 f(2) h']
    have "owns (cells h') (content s) v S" by (rule owns_untouched [OF s2]) (use g(4) l(4) in metis)
    moreover have "load_place l h' = Ret e" using g(5) [of l] assms(4) f(1) by simp
    moreover have "\<forall>a. a \<notin> D \<longrightarrow> a \<noteq> place_addr l \<longrightarrow> a \<noteq> place_addr src \<longrightarrow> cells h' a = cells h a" using fr g(4) by metis
    moreover have "\<forall>l'. l' \<noteq> l \<longrightarrow> l' \<noteq> src \<longrightarrow> place_addr l' \<notin> D \<longrightarrow> load_place l' h' = load_place l' h" using pl g(5) by metis
    ultimately show ?thesis using True run h' g(1-3) f(3) h1(2) by (simp add: e_def)
  qed
qed

section \<open>Appending to an array\<close>

lemma owns_all_snoc:
  assumes "owns_all m cs vs F" "owns m c v G" "F \<inter> G = {}"
  shows "owns_all m (cs @ [c]) (vs @ [v]) (F \<union> G)"
  using assms
proof (induction cs arbitrary: vs F)
  case Nil
  then show ?case using o_Cons [OF Nil.prems(2) o_Nil] by (auto elim: owns_all_Nil)
next
  case (Cons d cs)
  then obtain w vs' F1 F2 where v: "vs = w # vs'" "F = F1 \<union> F2" "F1 \<inter> F2 = {}" "owns m d w F1" "owns_all m cs vs' F2"
    by (auto elim: owns_all_Cons)
  have "owns_all m (cs @ [c]) (vs' @ [v]) (F2 \<union> G)" using Cons.IH [OF v(5) Cons.prems(2)] Cons.prems(3) v(2) by blast
  from o_Cons [OF v(4) this] show ?case using Cons.prems(3) v(1-3) by (auto simp: Un_assoc)
qed

text \<open>The capacity is one an array made by the constructors, by copying or by \<open>push_back\<close> has.\<close>

definition capacity_ok :: "memory \<Rightarrow> slot \<Rightarrow> bool" where
  "capacity_ok m v \<longleftrightarrow>
     (case content v of
        C_array None n \<Rightarrow> n = 0 \<and> cap_word v \<le> 1
      | C_array (Some a) n \<Rightarrow>
          (case m a of Some (Vals ss) \<Rightarrow> cap_word v \<le> length ss \<and> n < 2 * max 1 (cap_word v) | _ \<Rightarrow> False)
      | _ \<Rightarrow> False)"

text \<open>The array at \<open>l\<close> with the blocks \<open>F\<close> before, with room for one more element and the blocks \<open>G\<close> after.\<close>

definition has_grown :: "place \<Rightarrow> json_val list \<Rightarrow> nat set \<Rightarrow> jheap \<Rightarrow> jheap \<Rightarrow> bool" where
  "has_grown l vs F h h1 \<longleftrightarrow>
     (\<exists>b ss cap G. load_place l h1 = Ret \<lparr>content = C_array (Some b) (length vs), cap_word = cap\<rparr> \<and>
        cells h1 b = Some (Vals ss) \<and> length vs < length ss \<and> cap \<le> length ss \<and> length vs + 1 < 2 * max 1 cap \<and>
        owns (cells h1) (C_array (Some b) (length vs)) (V_array vs) G \<and> heap_ok h1 \<and>
        dom (cells h1) = dom (cells h) - F \<union> G \<and> G \<inter> (dom (cells h) - F) = {} \<and>
        (\<forall>a\<in>dom (cells h) - F. a \<noteq> place_addr l \<longrightarrow> cells h1 a = cells h a) \<and>
        (\<forall>l'. l' \<noteq> l \<longrightarrow> place_addr l' \<in> dom (cells h) - F \<longrightarrow> load_place l' h1 = load_place l' h))"

lemma has_grownI:
  assumes "load_place l h0 = Ret d" "heap_ok h0" "place_addr l \<notin> G" "place_addr l \<notin> F"
    and "cells h0 b = Some (Vals ss)" "length vs < length ss" "cap \<le> length ss" "length vs + 1 < 2 * max 1 cap"
    and "owns (cells h0) (C_array (Some b) (length vs)) (V_array vs) G"
    and "dom (cells h0) = dom (cells h) - F \<union> G" "G \<inter> (dom (cells h) - F) = {}"
    and "\<And>a. a \<in> dom (cells h) - F \<Longrightarrow> cells h0 a = cells h a"
  shows "\<exists>h1. store_place l \<lparr>content = C_array (Some b) (length vs), cap_word = cap\<rparr> h0 = Ret h1 \<and> has_grown l vs F h h1"
proof -
  let ?e = "\<lparr>content = C_array (Some b) (length vs), cap_word = cap\<rparr>"
  from store_ok [OF assms(1), of ?e] obtain h1 where h1: "store_place l ?e h0 = Ret h1" by blast
  note f = store_frame [OF assms(1,2) h1]
  have b: "b \<in> G" using assms(9) by (auto elim: owns.cases)
  have "owns (cells h1) (C_array (Some b) (length vs)) (V_array vs) G"
    by (rule owns_untouched [OF assms(9)]) (use f(4) assms(3) in metis)
  moreover have "cells h1 b = Some (Vals ss)" using f(4) [of b] b assms(3,5) by metis
  moreover have "\<forall>a\<in>dom (cells h) - F. a \<noteq> place_addr l \<longrightarrow> cells h1 a = cells h a" using f(4) assms(12) by metis
  moreover have "load_place l' h1 = load_place l' h" if "l' \<noteq> l" "place_addr l' \<in> dom (cells h) - F" for l'
    using f(5) [OF that(1)] load_frame [of h0 l' h] assms(12) [OF that(2)] by simp
  ultimately have "has_grown l vs F h h1"
    unfolding has_grown_def using f(1-3) assms(6-8,10,11)
    by (intro exI [of _ b] exI [of _ ss] exI [of _ cap] exI [of _ G]) simp
  with h1 show ?thesis by blast
qed

lemma array_grow_ok:
  assumes "heap_ok h" "load_place l h = Ret v" "capacity_ok (cells h) v" "place_addr l \<notin> F" "card F < k"
    and "owns (cells h) (content v) (V_array vs) F"
  shows "\<exists>h1. array_grow k l h = Ret h1 \<and> has_grown l vs F h h1"
proof -
  define cap where "cap = (if cap_word v = 0 then 1 else cap_word v)"
  obtain p n where c: "content v = C_array p n" using assms(6) by (auto elim: owns.cases)
  have lp: "place_addr l \<in> dom (cells h)" by (rule load_dom [OF assms(2)])
  show ?thesis
  proof (cases p)
    case None
    then have n: "n = 0" "cap_word v \<le> 1" "vs = []" "F = {}" "cap = 1"
      using assms(3,6) c by (auto simp: capacity_ok_def cap_def elim: owns.cases)
    obtain b h0 where a: "alloc (Vals [null_slot, null_slot]) h = (b, h0)" by fastforce
    note g = grows_alloc [OF assms(1) a]
    have "owns (cells h0) (C_array (Some b) 0) (V_array []) {b}"
      using g o_array [of "cells h0" b "[null_slot, null_slot]" 0 "[]" "{}"] by (simp add: null_slot_def o_Nil)
    moreover have "load_place l h0 = Ret v" "place_addr l \<noteq> b"
      using grows_old [OF conjunct1 [OF g] lp] load_frame [of h0 l h] assms(2) by auto
    ultimately obtain h1 where "store_place l \<lparr>content = C_array (Some b) 0, cap_word = 1\<rparr> h0 = Ret h1" "has_grown l vs F h h1"
      using has_grownI [of l h0 v "{b}" "{}" b "[null_slot, null_slot]" "[]" 1 h] g n(3,4)
        grows_old [OF conjunct1 [OF g]] grows_dom [OF conjunct1 [OF g]] by (auto simp: grows_def)
    moreover have "array_grow k l h = store_place l \<lparr>content = C_array (Some b) 0, cap_word = 1\<rparr> h0"
      using assms(2) c None n(1,5) a by (simp add: array_grow_def flip: cap_def) (simp add: numeral_2_eq_2)
    ultimately show ?thesis by auto
  next
    case (Some a)
    obtain ss G where ss: "cells h a = Some (Vals ss)" "n \<le> length ss" "list_all (\<lambda>s. content s = C_null) (drop n ss)"
        "owns_all (cells h) (map content (take n ss)) vs G" "a \<notin> G" "F = insert a G"
      using assms(6) c Some by (auto elim: owns.cases)
    have len: "length vs = n" using owns_all_length [OF ss(4)] ss(2) by simp
    have cap: "cap_word v \<le> length ss" "n < 2 * cap" using assms(3) c Some ss(1) by (auto simp: capacity_ok_def cap_def)
    show ?thesis
    proof (cases "n + 1 \<ge> cap")
      case False
      then have v: "v\<lparr>cap_word := cap\<rparr> = \<lparr>content = C_array (Some a) (length vs), cap_word = cap\<rparr>" "cap = cap_word v"
        using c Some len by (auto simp: cap_def split: if_splits)
      have "array_grow k l h = store_place l (v\<lparr>cap_word := cap\<rparr>) h"
        using False assms(2) c by (simp add: array_grow_def flip: cap_def)
      moreover have "dom (cells h) = dom (cells h) - F \<union> F" using owns_dom [OF assms(6)] by blast
      then have "\<exists>h1. store_place l \<lparr>content = C_array (Some a) (length vs), cap_word = cap\<rparr> h = Ret h1 \<and> has_grown l vs F h h1"
        using has_grownI [OF assms(2,1) assms(4,4) ss(1), of vs cap h] False cap(1) len assms(6) c Some v(2) by simp
      ultimately show ?thesis unfolding v(1) by simp
    next
      case True
      have "G \<subseteq> F" "finite F" using ss(6) owns_dom [OF assms(6)] by auto
      then have "card G < k" using assms(5) card_mono [of F G] by simp
      then have "copies (copy_content k) (map content (take n ss)) vs h'" if "\<exists>N. grows h h' N" for h'
        using that copy_all_owned [OF ss(4), of h' k] owns_all_dom [OF ss(4)] grows_heap_ok
        by (meson grows_old subsetD)
      from copy_values_ok [OF assms(1) this, of "cap * 2"] obtain b h0 N ts where
        b: "copy_values (copy_content k) (cap * 2) (map content (take n ss)) h = Ret (b, h0)"
           "owns (cells h0) (C_array (Some b) n) (V_array vs) N" "grows h h0 N" "cells h0 b = Some (Vals ts)" "length ts = cap * 2"
        using cap(2) ss(2) len by auto
      have des: "destroy k (C_array (Some a) n) h0 = Ret (without F h0)"
        using grows_old [OF b(3)] owns_dom [OF assms(6)]
        by (intro destroy_owned [OF assms(6) [unfolded c Some] _ assms(5)]) blast
      have NF: "N \<inter> F = {}" "place_addr l \<notin> N" "dom (cells h0) = dom (cells h) \<union> N"
        using b(3) owns_dom [OF assms(6)] lp grows_dom [OF b(3)] by (auto simp: grows_def)
      have "owns (cells (without F h0)) (C_array (Some b) n) (V_array vs) N"
        by (rule owns_untouched [OF b(2)]) (use NF(1) in auto)
      moreover have "b \<in> N" using b(2) by (auto elim: owns.cases)
      moreover have "load_place l (without F h0) = Ret v"
        using grows_old [OF b(3) lp] load_frame [of "without F h0" l h] assms(2,4) by simp
      moreover have "dom (cells (without F h0)) = dom (cells h) - F \<union> N"
        using without_facts(2) [of F h0] NF(1,3) by blast
      moreover have "cells (without F h0) b = Some (Vals ts)" "N \<inter> (dom (cells h) - F) = {}"
        using \<open>b \<in> N\<close> NF(1) b(3,4) by (auto simp: grows_def)
      ultimately obtain h1 where
        "store_place l \<lparr>content = C_array (Some b) n, cap_word = cap * 2\<rparr> (without F h0) = Ret h1" "has_grown l vs F h h1"
        using has_grownI [of l "without F h0" v N F b ts vs "cap * 2" h] without_facts(1) [OF grows_heap_ok [OF b(3)], of F]
          NF(2) b(5) cap(2) len assms(4) grows_old [OF b(3)] by auto
      moreover have "array_grow k l h = store_place l \<lparr>content = C_array (Some b) n, cap_word = cap * 2\<rparr> (without F h0)"
        using True assms(2) c Some ss(1,2) b(1) des by (simp add: array_grow_def flip: cap_def)
      ultimately show ?thesis by simp
    qed
  qed
qed

text \<open>The array when \<open>push_back\<close> is about to assign the new element: block \<open>b\<close>, whose cells own \<open>G\<close>.\<close>

definition ready :: "place \<Rightarrow> json_val list \<Rightarrow> nat set \<Rightarrow> jheap \<Rightarrow> jheap \<Rightarrow> nat \<Rightarrow> slot list \<Rightarrow> nat \<Rightarrow> nat set \<Rightarrow> bool" where
  "ready l vs F h h2 b ss cap G \<longleftrightarrow>
     load_place l h2 = Ret \<lparr>content = C_array (Some b) (Suc (length vs)), cap_word = cap\<rparr> \<and>
     cells h2 b = Some (Vals ss) \<and> length vs < length ss \<and> cap \<le> length ss \<and> length vs + 1 < 2 * max 1 cap \<and>
     content (ss ! length vs) = C_null \<and> list_all (\<lambda>s. content s = C_null) (drop (Suc (length vs)) ss) \<and>
     owns_all (cells h2) (map content (take (length vs) ss)) vs G \<and> b \<notin> G \<and> b \<noteq> place_addr l \<and> heap_ok h2 \<and>
     dom (cells h2) = dom (cells h) - F \<union> insert b G \<and> insert b G \<inter> (dom (cells h) - F) = {} \<and>
     (\<forall>a\<in>dom (cells h) - F. a \<noteq> place_addr l \<longrightarrow> cells h2 a = cells h a) \<and>
     (\<forall>l'. l' \<noteq> l \<longrightarrow> place_addr l' \<in> dom (cells h) - F \<longrightarrow> load_place l' h2 = load_place l' h)"

lemma push_ready:
  assumes "heap_ok h" "load_place l h = Ret v" "capacity_ok (cells h) v" "place_addr l \<notin> F" "card F < k"
    and "owns (cells h) (content v) (V_array vs) F"
  shows "\<exists>h2 b ss cap G. ready l vs F h h2 b ss cap G \<and> (\<forall>assign. push_with assign k l h = assign (Elem b (length vs)) h2)"
proof -
  from array_grow_ok [OF assms] obtain h1 where h1: "array_grow k l h = Ret h1" "has_grown l vs F h h1" by blast
  then obtain b ss cap G where
    g: "load_place l h1 = Ret \<lparr>content = C_array (Some b) (length vs), cap_word = cap\<rparr>" "cells h1 b = Some (Vals ss)"
      "length vs < length ss" "cap \<le> length ss" "length vs + 1 < 2 * max 1 cap"
      "owns (cells h1) (C_array (Some b) (length vs)) (V_array vs) G" "heap_ok h1"
      "dom (cells h1) = dom (cells h) - F \<union> G" "G \<inter> (dom (cells h) - F) = {}"
      "\<forall>a\<in>dom (cells h) - F. a \<noteq> place_addr l \<longrightarrow> cells h1 a = cells h a"
      "\<forall>l'. l' \<noteq> l \<longrightarrow> place_addr l' \<in> dom (cells h) - F \<longrightarrow> load_place l' h1 = load_place l' h"
    unfolding has_grown_def by blast
  define e where "e = \<lparr>content = C_array (Some b) (Suc (length vs)), cap_word = cap\<rparr>"
  from store_ok [OF g(1), of e] obtain h2 where h2: "store_place l e h1 = Ret h2" by blast
  note f = store_frame [OF g(1,7) h2]
  obtain G0 where G0: "list_all (\<lambda>s. content s = C_null) (drop (length vs) ss)" "b \<notin> G0" "G = insert b G0"
      "owns_all (cells h1) (map content (take (length vs) ss)) vs G0"
    using g(6) g(2) by (auto elim: owns.cases)
  have lb: "place_addr l \<notin> G" "b \<noteq> place_addr l" using g(9) assms(4) load_dom [OF assms(2)] G0(3) by blast+
  have "owns_all (cells h2) (map content (take (length vs) ss)) vs G0"
    by (rule owns_all_frame [OF G0(4)]) (use f(4) lb(1) G0(3) in \<open>metis insertCI\<close>)
  moreover have "content (ss ! length vs) = C_null" "list_all (\<lambda>s. content s = C_null) (drop (Suc (length vs)) ss)"
    using G0(1) g(3) by (simp_all add: Cons_nth_drop_Suc [symmetric])
  moreover have "cells h2 b = Some (Vals ss)" using f(4) lb(2) g(2) by metis
  moreover have "\<forall>a\<in>dom (cells h) - F. a \<noteq> place_addr l \<longrightarrow> cells h2 a = cells h a" using f(4) g(10) by metis
  moreover have "\<forall>l'. l' \<noteq> l \<longrightarrow> place_addr l' \<in> dom (cells h) - F \<longrightarrow> load_place l' h2 = load_place l' h"
    using f(5) g(11) by metis
  ultimately have "ready l vs F h h2 b ss cap G0"
    using f(1-3) g(3-5,8,9) G0(2,3) lb(2) by (simp add: ready_def e_def)
  moreover have "push_with assign k l h = assign (Elem b (length vs)) h2" for assign
    using h1(1) g(1) h2 by (simp add: push_with_def e_def)
  ultimately show ?thesis by blast
qed

lemma element_filled:
  assumes "cells h2 b = Some (Vals ss)" "n < length ss" "load_place (Elem b n) h' = Ret x"
    and "\<And>i. i \<noteq> n \<Longrightarrow> load_place (Elem b i) h' = load_place (Elem b i) h2"
  shows "cells h' b = Some (Vals (ss[n := x]))"
proof -
  obtain ts where ts: "cells h' b = Some (Vals ts)" "ts ! n = x" "n < length ts"
    using assms(3) by (auto simp: load_place_def split: option.splits cell.splits if_splits)
  have "i < length ts \<longleftrightarrow> i < length ss" "i < length ss \<Longrightarrow> i \<noteq> n \<Longrightarrow> ts ! i = ss ! i" for i
    using assms(4) [of i] ts assms(1,2) by (cases "i = n"; auto simp: load_place_def split: if_splits)+
  then have "length ts = length ss" "\<forall>i<length ss. i \<noteq> n \<longrightarrow> ts ! i = ss ! i"
    by (metis linorder_neqE_nat less_irrefl, blast)
  then have "ts = ss[n := x]"
    using ts(2) assms(2) by (intro nth_equalityI) (auto simp: nth_list_update)
  with ts(1) show ?thesis by simp
qed

lemma append_filled:
  assumes "ready l vs F h h2 b ss cap G" "load_place (Elem b (length vs)) h' = Ret x" "owns (cells h') (content x) w N"
    and "insert b G \<inter> N = {}" "\<And>a. a \<in> G \<Longrightarrow> cells h' a = cells h2 a" "load_place l h' = load_place l h2"
    and "\<And>i. i \<noteq> length vs \<Longrightarrow> load_place (Elem b i) h' = load_place (Elem b i) h2"
  shows "\<exists>v'. load_place l h' = Ret v' \<and> capacity_ok (cells h') v' \<and>
    owns (cells h') (content v') (V_array (vs @ [w])) (insert b (G \<union> N))"
proof -
  from assms(1) have r: "cells h2 b = Some (Vals ss)" "length vs < length ss" "b \<notin> G" "cap \<le> length ss" "length vs + 1 < 2 * max 1 cap"
      "list_all (\<lambda>s. content s = C_null) (drop (Suc (length vs)) ss)" "owns_all (cells h2) (map content (take (length vs) ss)) vs G"
      "load_place l h2 = Ret \<lparr>content = C_array (Some b) (Suc (length vs)), cap_word = cap\<rparr>"
    by (simp_all add: ready_def)
  define ts where "ts = ss[length vs := x]"
  have ts: "cells h' b = Some (Vals ts)" unfolding ts_def by (rule element_filled [OF r(1,2) assms(2,7)])
  have parts: "take (Suc (length vs)) ts = take (length vs) ss @ [x]" "drop (Suc (length vs)) ts = drop (Suc (length vs)) ss"
      "length ts = length ss"
    using r(2) by (simp_all add: ts_def upd_conv_take_nth_drop)
  have "owns_all (cells h') (map content (take (length vs) ss)) vs G" by (rule owns_all_frame [OF r(7) assms(5)])
  from owns_all_snoc [OF this assms(3)] assms(4)
  have "owns_all (cells h') (map content (take (Suc (length vs)) ts)) (vs @ [w]) (G \<union> N)" by (simp add: parts)
  with r(2,3,6) assms(4) ts have "owns (cells h') (C_array (Some b) (Suc (length vs))) (V_array (vs @ [w])) (insert b (G \<union> N))"
    by (intro o_array [where ss = ts]) (auto simp: parts)
  with r(2,4,5,8) assms(6) ts show ?thesis by (simp add: capacity_ok_def parts(3))
qed

text \<open>The source of \<open>push_back\<close> is still there when the element is assigned.\<close>

lemma ready_source:
  assumes "ready l vs F h h2 b ss cap G" "load_place src h = Ret s" "src \<noteq> l" "place_addr src \<notin> F"
    and "owns (cells h) (content s) w S" "F \<inter> S = {}" "place_addr l \<notin> S"
  shows "load_place src h2 = Ret s" "owns (cells h2) (content s) w S" "insert b G \<inter> S = {}" "place_addr src \<notin> insert b G"
proof -
  note r = assms(1) [unfolded ready_def]
  have S: "S \<subseteq> dom (cells h)" using owns_dom [OF assms(5)] by blast
  have src: "place_addr src \<in> dom (cells h) - F" using load_dom [OF assms(2)] assms(4) by blast
  show "load_place src h2 = Ret s" using r src assms(2,3) by metis
  show "owns (cells h2) (content s) w S"
  proof (rule owns_untouched [OF assms(5)])
    fix a assume "a \<in> dom (cells h)" "a \<in> S"
    then have "a \<in> dom (cells h) - F" "a \<noteq> place_addr l" using assms(6,7) by auto
    then show "cells h2 a = cells h a" using r by metis
  qed
  have "insert b G \<inter> (dom (cells h) - F) = {}" using r by simp
  with S assms(6) src show "insert b G \<inter> S = {}" "place_addr src \<notin> insert b G" by blast+
qed

lemma ready_element:
  assumes "ready l vs F h h2 b ss cap G"
  shows "load_place (Elem b (length vs)) h2 = Ret (ss ! length vs)" "owns (cells h2) (content (ss ! length vs)) V_null {}"
    and "Elem b (length vs) \<noteq> l" "b \<in> dom (cells h2)" "place_addr l \<in> dom (cells h2)" "heap_ok h2" "G \<subseteq> dom (cells h2)"
  using assms load_dom [of l h2] by (auto simp: ready_def load_place_def [of "Elem b i" for i] intro: o_null)

lemma push_back_owned:
  assumes "heap_ok h" "load_place l h = Ret v" "load_place src h = Ret s" "src \<noteq> l" "capacity_ok (cells h) v"
    and "owns (cells h) (content v) (V_array vs) F" "owns (cells h) (content s) w S" "F \<inter> S = {}"
    and "place_addr l \<notin> F \<union> S" "place_addr src \<notin> F" "card F < k" "card S < k"
  shows "\<exists>h' v' G. push_back k l src h = Ret h' \<and> heap_ok h' \<and> load_place l h' = Ret v' \<and> capacity_ok (cells h') v' \<and>
    owns (cells h') (content v') (V_array (vs @ [w])) G \<and> load_place src h' = Ret s \<and> owns (cells h') (content s) w S \<and>
    dom (cells h') = dom (cells h) - F \<union> G"
proof -
  have l: "place_addr l \<notin> F" "place_addr l \<notin> S" using assms(9) by auto
  from push_ready [OF assms(1,2,5) l(1) assms(11,6)] obtain h2 b ss cap G where
    r: "ready l vs F h h2 b ss cap G" "\<And>assign. push_with assign k l h = assign (Elem b (length vs)) h2" by blast
  note s = ready_source [OF r(1) assms(3,4,10,7,8) l(2)]
  note e = ready_element [OF r(1)]
  have "src \<noteq> Elem b (length vs)" using s(4) by auto
  from assign_copy_ok [OF e(6,1) s(1) this e(2) s(2), where k = k] s(3) assms(11,12) obtain h' c N where
    a: "assign_copy k (Elem b (length vs)) src h2 = Ret h'" "heap_ok h'"
      "load_place (Elem b (length vs)) h' = Ret (place_content c (ss ! length vs))" "owns (cells h') c w N"
      "load_place src h' = Ret s" "owns (cells h') (content s) w S" "N \<inter> dom (cells h2) = {}" "dom (cells h') = dom (cells h2) \<union> N"
      "\<forall>a\<in>dom (cells h2). a \<noteq> b \<longrightarrow> cells h' a = cells h2 a"
      "\<forall>l'. l' \<noteq> Elem b (length vs) \<longrightarrow> place_addr l' \<in> dom (cells h2) \<longrightarrow> load_place l' h' = load_place l' h2"
    by auto
  have "b \<notin> G" "dom (cells h2) = dom (cells h) - F \<union> insert b G" using r(1) by (simp_all add: ready_def)
  have "\<exists>v'. load_place l h' = Ret v' \<and> capacity_ok (cells h') v' \<and>
      owns (cells h') (content v') (V_array (vs @ [w])) (insert b (G \<union> N))"
  proof (rule append_filled [OF r(1) a(3)])
    show "owns (cells h') (content (place_content c (ss ! length vs))) w N" using a(4) by (simp add: place_content_def)
    show "insert b G \<inter> N = {}" using a(7) e(4,7) by blast
    show "cells h' x = cells h2 x" if "x \<in> G" for x using that a(9) e(7) \<open>b \<notin> G\<close> by (metis subsetD)
    show "load_place l h' = load_place l h2" using a(10) e(3,5) by metis
    show "load_place (Elem b i) h' = load_place (Elem b i) h2" if "i \<noteq> length vs" for i using a(10) e(4) that by simp
  qed
  moreover have "push_back k l src h = Ret h'" using a(1) by (simp add: push_back_def r(2))
  moreover have "dom (cells h') = dom (cells h) - F \<union> insert b (G \<union> N)"
    using a(8) \<open>dom (cells h2) = dom (cells h) - F \<union> insert b G\<close> by blast
  ultimately show ?thesis using a(2,5,6) by metis
qed

lemma push_back_move_ok:
  assumes "heap_ok h" "load_place l h = Ret v" "load_place src h = Ret s" "src \<noteq> l" "capacity_ok (cells h) v"
    and "owns (cells h) (content v) (V_array vs) F" "owns (cells h) (content s) w S" "F \<inter> S = {}"
    and "place_addr l \<notin> F \<union> S" "place_addr src \<notin> F \<union> S" "card F < k"
  shows "\<exists>h' v' G. push_back_move k l src h = Ret h' \<and> heap_ok h' \<and> load_place l h' = Ret v' \<and> capacity_ok (cells h') v' \<and>
    owns (cells h') (content v') (V_array (vs @ [w])) G \<and> load_place src h' = Ret (s\<lparr>content := moved_out (content s)\<rparr>) \<and>
    S \<subseteq> G \<and> dom (cells h') = dom (cells h) - F \<union> G"
proof -
  have l: "place_addr l \<notin> F" "place_addr l \<notin> S" "place_addr src \<notin> F" "place_addr src \<notin> S" using assms(9,10) by auto
  from push_ready [OF assms(1,2,5) l(1) assms(11,6)] obtain h2 b ss cap G where
    r: "ready l vs F h h2 b ss cap G" "\<And>assign. push_with assign k l h = assign (Elem b (length vs)) h2" by blast
  note s = ready_source [OF r(1) assms(3,4) l(3) assms(7,8) l(2)]
  note e = ready_element [OF r(1)]
  have ne: "src \<noteq> Elem b (length vs)" using s(4) by auto
  from assign_move_ok [OF e(6,1) s(1) this e(2) s(2), where k = k] s(3) l(4) assms(11) obtain h' where
    a: "assign_move k (Elem b (length vs)) src h2 = Ret h'" "heap_ok h'"
      "load_place (Elem b (length vs)) h' = Ret ((ss ! length vs)\<lparr>content := content s\<rparr>)" "owns (cells h') (content s) w S"
      "load_place src h' = Ret (s\<lparr>content := moved_out (content s)\<rparr>)" "dom (cells h') = dom (cells h2)"
      "\<forall>a. a \<noteq> b \<longrightarrow> a \<noteq> place_addr src \<longrightarrow> cells h' a = cells h2 a"
      "\<forall>l'. l' \<noteq> Elem b (length vs) \<longrightarrow> l' \<noteq> src \<longrightarrow> load_place l' h' = load_place l' h2"
    by auto
  have "b \<notin> G" "dom (cells h2) = dom (cells h) - F \<union> insert b G" using r(1) by (simp_all add: ready_def)
  have "\<exists>v'. load_place l h' = Ret v' \<and> capacity_ok (cells h') v' \<and>
      owns (cells h') (content v') (V_array (vs @ [w])) (insert b (G \<union> S))"
  proof (rule append_filled [OF r(1) a(3)])
    show "owns (cells h') (content ((ss ! length vs)\<lparr>content := content s\<rparr>)) w S" using a(4) by simp
    show "insert b G \<inter> S = {}" by (rule s(3))
    show "cells h' x = cells h2 x" if "x \<in> G" for x using that a(7) s(4) \<open>b \<notin> G\<close> by (metis insertCI)
    show "load_place l h' = load_place l h2" using a(8) e(3) assms(4) by metis
    show "load_place (Elem b i) h' = load_place (Elem b i) h2" if "i \<noteq> length vs" for i using a(8) s(4) that by fastforce
  qed
  moreover have "push_back_move k l src h = Ret h'" using a(1) by (simp add: push_back_move_def r(2))
  moreover have "S \<subseteq> dom (cells h2)" using owns_dom [OF s(2)] by blast
  then have "dom (cells h') = dom (cells h) - F \<union> insert b (G \<union> S)"
    using a(6) \<open>dom (cells h2) = dom (cells h) - F \<union> insert b G\<close> by blast
  ultimately show ?thesis using a(2,5) by (metis Un_upper2 subset_insertI2)
qed

section \<open>Properties\<close>

definition small_heap :: jheap where
  "small_heap = \<lparr>cells = [0 \<mapsto> Vals [\<lparr>content = C_array (Some 1) 2, cap_word = 2\<rparr>, \<lparr>content = C_json (Some 3), cap_word = 0\<rparr>],
     1 \<mapsto> Vals [\<lparr>content = C_string (Some 2) 2, cap_word = 0\<rparr>, null_slot],
     2 \<mapsto> Chars ''hi'' 3, 3 \<mapsto> Table [(''k'', \<lparr>content = C_int 5, cap_word = 0\<rparr>)]], next_cell = 4\<rparr>"

lemma small_heap_owns:
  "owns (cells small_heap) (C_array (Some 1) 2) (V_array [V_string ''hi'' 2, V_null]) {1, 2}"
  "owns (cells small_heap) (C_json (Some 3)) (V_json (fmupd ''k'' (V_int 5) fmempty)) {3}"
proof -
  have "owns (cells small_heap) (C_string (Some 2) 2) (V_string ''hi'' 2) {2}" by (rule o_string) (simp_all add: small_heap_def)
  from o_Cons [OF this o_Cons [OF o_null o_Nil]]
  have "owns_all (cells small_heap) [C_string (Some 2) 2, C_null] [V_string ''hi'' 2, V_null] {2}" by simp
  then have "owns (cells small_heap) (C_array (Some 1) 2) (V_array [V_string ''hi'' 2, V_null]) (insert 1 {2})"
    by (intro o_array [where ss = "[\<lparr>content = C_string (Some 2) 2, cap_word = 0\<rparr>, null_slot]"])
      (simp_all add: small_heap_def null_slot_def)
  then show "owns (cells small_heap) (C_array (Some 1) 2) (V_array [V_string ''hi'' 2, V_null]) {1, 2}" by simp
  have "owns_all (cells small_heap) [C_int 5] [V_int 5] {}" using o_Cons [OF o_int o_Nil] by simp
  then have "owns (cells small_heap) (C_json (Some 3)) (V_json (fmap_of_list (zip (map fst [(''k'', \<lparr>content = C_int 5, cap_word = 0\<rparr>)]) [V_int 5]))) (insert 3 {})"
    by (intro o_json) (simp_all add: small_heap_def)
  then show "owns (cells small_heap) (C_json (Some 3)) (V_json (fmupd ''k'' (V_int 5) fmempty)) {3}" by simp
qed

lemma small_heap_facts:
  "heap_ok small_heap"
  "load_place (Elem 0 0) small_heap = Ret \<lparr>content = C_array (Some 1) 2, cap_word = 2\<rparr>"
  "load_place (Elem 0 1) small_heap = Ret \<lparr>content = C_json (Some 3), cap_word = 0\<rparr>"
  "capacity_ok (cells small_heap) \<lparr>content = C_array (Some 1) 2, cap_word = 2\<rparr>"
  by (auto simp: small_heap_def heap_ok_def load_place_def capacity_ok_def split: if_splits)

text \<open>C10: Copy assignment is deep: the target then holds the value of the source in blocks of its own, the
  source is as it was, and exactly the blocks of the old value have been given back; nothing leaks and
  nothing is deleted twice.\<close>

theorem copy_assignment_deep:
  assumes "heap_ok h" "load_place l h = Ret d" "load_place src h = Ret s" "src \<noteq> l"
    and "owns (cells h) (content d) w D" "owns (cells h) (content s) v S" "D \<inter> S = {}"
    and "place_addr l \<notin> D \<union> S" "place_addr src \<notin> D" "card D < k" "card S < k"
  shows "\<exists>h' d' N. assign_copy k l src h = Ret h' \<and> load_place l h' = Ret d' \<and> owns (cells h') (content d') v N \<and>
    load_place src h' = Ret s \<and> owns (cells h') (content s) v S \<and>
    N \<inter> (dom (cells h) - D) = {} \<and> dom (cells h') = dom (cells h) - D \<union> N"
  using assign_copy_ok [OF assms] by (force simp: place_content_def)

theorem copy_assignment_deep_witness:
  "\<exists>h' d' N. assign_copy 3 (Elem 0 0) (Elem 0 1) small_heap = Ret h' \<and> load_place (Elem 0 0) h' = Ret d' \<and>
    owns (cells h') (content d') (V_json (fmupd ''k'' (V_int 5) fmempty)) N \<and>
    load_place (Elem 0 1) h' = Ret \<lparr>content = C_json (Some 3), cap_word = 0\<rparr> \<and>
    owns (cells h') (content \<lparr>content = C_json (Some 3), cap_word = 0\<rparr>) (V_json (fmupd ''k'' (V_int 5) fmempty)) {3} \<and>
    N \<inter> (dom (cells small_heap) - {1, 2}) = {} \<and> dom (cells h') = dom (cells small_heap) - {1, 2} \<union> N"
  by (rule copy_assignment_deep [OF small_heap_facts(1-3)]) (use small_heap_owns in simp_all)

text \<open>C14: \<open>push_back\<close> on an array made by the constructors, by copying or by \<open>push_back\<close> appends a copy of the
  value, in the old block or in a new one of twice the capacity into which the elements are copied; the
  old blocks are given back, the array can be appended to again, and the source is as it was.\<close>

theorem push_back_appends:
  assumes "heap_ok h" "load_place l h = Ret v" "load_place src h = Ret s" "src \<noteq> l" "capacity_ok (cells h) v"
    and "owns (cells h) (content v) (V_array vs) F" "owns (cells h) (content s) w S" "F \<inter> S = {}"
    and "place_addr l \<notin> F \<union> S" "place_addr src \<notin> F" "card F < k" "card S < k"
  shows "\<exists>h' v' G. push_back k l src h = Ret h' \<and> heap_ok h' \<and> load_place l h' = Ret v' \<and> capacity_ok (cells h') v' \<and>
    owns (cells h') (content v') (V_array (vs @ [w])) G \<and> load_place src h' = Ret s \<and> owns (cells h') (content s) w S \<and>
    dom (cells h') = dom (cells h) - F \<union> G"
  by (rule push_back_owned [OF assms])

theorem push_back_appends_witness:
  "\<exists>h' v' G. push_back 3 (Elem 0 0) (Elem 0 1) small_heap = Ret h' \<and> heap_ok h' \<and> load_place (Elem 0 0) h' = Ret v' \<and>
    capacity_ok (cells h') v' \<and>
    owns (cells h') (content v') (V_array ([V_string ''hi'' 2, V_null] @ [V_json (fmupd ''k'' (V_int 5) fmempty)])) G \<and>
    load_place (Elem 0 1) h' = Ret \<lparr>content = C_json (Some 3), cap_word = 0\<rparr> \<and>
    owns (cells h') (content \<lparr>content = C_json (Some 3), cap_word = 0\<rparr>) (V_json (fmupd ''k'' (V_int 5) fmempty)) {3} \<and>
    dom (cells h') = dom (cells small_heap) - {1, 2} \<union> G"
  by (rule push_back_appends [OF small_heap_facts(1-3) _ small_heap_facts(4)]) (use small_heap_owns in simp_all)

text \<open>A copy that is destroyed again leaves memory as it was.\<close>

theorem copy_destroy_restores:
  assumes "heap_ok h" "owns (cells h) c v F" "card F < k"
  shows "\<exists>c' h' N. copy_content k c h = Ret (c', h') \<and> owns (cells h') c' v N \<and>
    (\<exists>h2. destroy (Suc (card N)) c' h' = Ret h2 \<and> cells h2 = cells h)"
proof -
  from copy_owned [OF assms(2) refl assms(1,3)] obtain c' h' N where
    c: "copy_content k c h = Ret (c', h')" "owns (cells h') c' v N" "grows h h' N" by blast
  have "destroy (Suc (card N)) c' h' = Ret (without N h')" by (rule destroy_owned [OF c(2)]) simp_all
  moreover have "cells (without N h') = cells h" using c(3) by (intro ext) (auto simp: grows_def disjoint_iff domIff)
  ultimately show ?thesis using c(1,2) by blast
qed

theorem copy_destroy_restores_witness:
  "\<exists>c' h' N. copy_content 3 (C_array (Some 1) 2) small_heap = Ret (c', h') \<and>
    owns (cells h') c' (V_array [V_string ''hi'' 2, V_null]) N \<and>
    (\<exists>h2. destroy (Suc (card N)) c' h' = Ret h2 \<and> cells h2 = cells small_heap)"
  by (rule copy_destroy_restores [OF small_heap_facts(1) small_heap_owns(1)]) simp

section \<open>Places that overlap\<close>

text \<open>Assigning a string, an array or an object to itself loses it: \<open>clear\<close> deletes the value before it is
  looked at, by copying as well as by moving, and the target is null.\<close>

theorem self_assignment_loses_value:
  assumes "heap_ok h" "load_place l h = Ret d" "owns (cells h) (content d) w D" "place_addr l \<notin> D" "card D < k"
    and "has_block (content d)"
  shows "\<exists>h'. assign_copy k l l h = Ret h' \<and> assign_move k l l h = Ret h' \<and>
    load_place l h' = Ret (d\<lparr>content := C_null\<rparr>) \<and> dom (cells h') = dom (cells h) - D"
proof -
  from clear_ok [OF assms(1-5)] assms(6) obtain h1 where
    h1: "clear_place k l h = Ret h1" "load_place l h1 = Ret (d\<lparr>content := C_null\<rparr>)" "released l D h h1" by blast
  then have ok: "heap_ok h1" "dom (cells h1) = dom (cells h) - D" by (simp_all add: released_def)
  from store_ok [OF h1(2), of "d\<lparr>content := C_null\<rparr>"] obtain h2 where
    h2: "store_place l (d\<lparr>content := C_null\<rparr>) h1 = Ret h2" by blast
  note f = store_frame [OF h1(2) ok(1) h2]
  obtain j where "k = Suc j" using assms(5) by (cases k) auto
  then have "assign_copy k l l h = Ret h2" "assign_move k l l h = Ret h2"
    using h1 h2 by (simp_all add: assign_copy_def assign_move_def place_content_def has_block_def)
  with f(1,3) ok(2) show ?thesis by simp
qed

theorem self_assignment_loses_value_witness:
  "\<exists>h'. assign_copy 3 (Elem 0 0) (Elem 0 0) small_heap = Ret h' \<and> assign_move 3 (Elem 0 0) (Elem 0 0) small_heap = Ret h' \<and>
    load_place (Elem 0 0) h' = Ret (\<lparr>content = C_array (Some 1) 2, cap_word = 2\<rparr>\<lparr>content := C_null\<rparr>) \<and>
    dom (cells h') = dom (cells small_heap) - {1, 2}"
  by (rule self_assignment_loses_value [OF small_heap_facts(1,2)]) (use small_heap_owns in \<open>simp_all add: has_block_def\<close>)

lemma store_loads:
  assumes "store_place l e h = Ret h1"
  shows "\<exists>d. load_place l h = Ret d"
proof (cases l)
  case (Entry a k)
  with assms obtain es where "cells h a = Some (Table es)" "k \<in> fst ` set es"
    by (auto simp: store_place_def split: option.splits cell.splits if_splits)
  then show ?thesis using Entry map_of_eq_None_iff [of es k] by (auto simp: load_place_def)
qed (use assms in \<open>auto simp: store_place_def load_place_def split: option.splits cell.splits if_splits\<close>)

lemma destroy_frees: "destroy k (C_array (Some a) n) h = Ret h' \<Longrightarrow> cells h' a = None"
  by (cases k) (auto simp: free_cell_def bind_out_Ret_iff split: option.splits cell.splits)

lemma freed_element: "cells h a = None \<Longrightarrow> load_place (Elem a i) h = Undef"
  by (simp add: load_place_def)

lemma own_element_freed:
  assumes "heap_ok h" "load_place l h = Ret v" "content v = C_array (Some a) n" "capacity_ok (cells h) v"
    and "owns (cells h) (content v) (V_array vs) F" "place_addr l \<notin> F" "card F < k" "cap_word v \<le> n + 1"
  shows "push_back k l (Elem a i) h = Undef"
proof -
  from array_grow_ok [OF assms(1,2,4,6,7,5)] obtain h1 where h1: "array_grow k l h = Ret h1" "has_grown l vs F h h1" by blast
  obtain ss where ss: "cells h a = Some (Vals ss)" "a \<in> F" using assms(3,5) by (auto elim: owns.cases)
  have grow: "n + 1 \<ge> (if cap_word v = 0 then 1 else cap_word v)" using assms(8) by simp
  obtain x h2 e where "destroy k (C_array (Some a) n) x = Ret h2" "store_place l e h2 = Ret h1"
    using h1(1) assms(2,3) ss(1) grow
    by (auto simp: array_grow_def Let_def bind_out_Ret_iff simp del: destroy.simps split: if_splits)
  moreover obtain d where "load_place l h2 = Ret d"
    using calculation(2) store_loads by blast
  ultimately have a1: "cells h1 a = None"
    using destroy_frees store_ok [of l h2 d e] assms(6) ss(2) by (auto simp: set_cell_def)
  obtain b ts cap G where g: "load_place l h1 = Ret \<lparr>content = C_array (Some b) (length vs), cap_word = cap\<rparr>"
      "cells h1 b = Some (Vals ts)" "length vs < length ts" "owns (cells h1) (C_array (Some b) (length vs)) (V_array vs) G"
      "heap_ok h1" "G \<inter> (dom (cells h) - F) = {}"
    using h1(2) unfolding has_grown_def by blast
  define u where "u = \<lparr>content = C_array (Some b) (Suc (length vs)), cap_word = cap\<rparr>"
  from store_ok [OF g(1), of u] obtain h3 where h3: "store_place l u h1 = Ret h3" by blast
  note f = store_frame [OF g(1,5) h3]
  have bl: "b \<noteq> place_addr l" using g(4,6) assms(6) load_dom [OF assms(2)] by (auto elim: owns.cases)
  have "cells h3 a = None" using f(4) [of a] a1 f(3) by blast
  moreover have "content (ts ! length vs) = C_null"
    using g(2,3,4) by (auto elim!: owns.cases simp: Cons_nth_drop_Suc [symmetric])
  then have "clear_place k (Elem b (length vs)) h3 = Ret h3"
    using f(4) [OF bl] g(2,3) by (simp add: clear_place_def load_place_def has_block_def)
  ultimately show ?thesis
    using h1(1) g(1) h3 by (simp add: push_back_def push_with_def u_def assign_copy_def freed_element)
qed

text \<open>C25: A value must not be assigned or appended from inside itself: \<open>v = v[i]\<close> reads the element after its
  block was deleted, and so does \<open>v.push_back(v[i])\<close> whenever the array has to grow.\<close>

theorem own_element_undefined:
  assumes "heap_ok h" "load_place l h = Ret v" "content v = C_array (Some a) n" "capacity_ok (cells h) v"
    and "owns (cells h) (content v) (V_array vs) F" "place_addr l \<notin> F" "card F < k"
  shows "assign_copy k l (Elem a i) h = Undef \<and> (cap_word v \<le> n + 1 \<longrightarrow> push_back k l (Elem a i) h = Undef)"
proof
  from clear_ok [OF assms(1,2,5,6,7)] obtain h1 where h1: "clear_place k l h = Ret h1" "released l F h h1" by blast
  have "a \<in> F" using assms(3,5) by (auto elim: owns.cases)
  with h1(2) have "cells h1 a = None" by (auto simp: released_def)
  with h1(1) show "assign_copy k l (Elem a i) h = Undef" by (simp add: assign_copy_def freed_element)
  show "cap_word v \<le> n + 1 \<longrightarrow> push_back k l (Elem a i) h = Undef" using own_element_freed [OF assms] by blast
qed

theorem own_element_undefined_witness:
  "assign_copy 3 (Elem 0 0) (Elem 1 0) small_heap = Undef \<and> push_back 3 (Elem 0 0) (Elem 1 0) small_heap = Undef"
  using own_element_undefined [OF small_heap_facts(1,2) _ small_heap_facts(4), of 1 2 _ "{1, 2}" 3 0] small_heap_owns(1) by simp

text \<open>A value that was moved from is not a value any more: it keeps its type but has lost its data, so the
  next copy of it, if it was a string, an object or an array with elements, follows a null pointer.\<close>

theorem moved_value_undefined:
  assumes "heap_ok h" "load_place l h = Ret d" "load_place src h = Ret s" "src \<noteq> l"
    and "owns (cells h) (content d) w D" "owns (cells h) (content s) v S" "D \<inter> S = {}"
    and "place_addr l \<notin> D \<union> S" "place_addr src \<notin> D \<union> S" "card D < k"
    and "has_block (content s)" "v \<noteq> V_array []"
  shows "\<exists>h'. assign_move k l src h = Ret h' \<and> owns (cells h') (content s) v S \<and>
    load_place l h' = Ret (d\<lparr>content := content s\<rparr>) \<and> construct_copy k src h' = Undef"
proof -
  from assign_move_ok [OF assms(1-10)] obtain h' where h': "assign_move k l src h = Ret h'" "owns (cells h') (content s) v S"
      "load_place l h' = Ret (d\<lparr>content := content s\<rparr>)" "load_place src h' = Ret (s\<lparr>content := moved_out (content s)\<rparr>)" by blast
  obtain j where k: "k = Suc j" using assms(10) by (cases k) auto
  have "n \<noteq> 0" if "content s = C_array p n" for p n
    using assms(6,12) that owns_all_length by (fastforce elim!: owns.cases)
  then have "copy_content k (moved_out (content s)) h' = Undef"
    using assms(11) k by (cases "content s") (auto simp: has_block_def moved_out_def split: nat.split)
  with h' show ?thesis by (simp add: construct_copy_def)
qed

theorem moved_value_undefined_witness:
  "\<exists>h'. assign_move 3 (Elem 0 0) (Elem 0 1) small_heap = Ret h' \<and>
    owns (cells h') (content \<lparr>content = C_json (Some 3), cap_word = 0\<rparr>) (V_json (fmupd ''k'' (V_int 5) fmempty)) {3} \<and>
    load_place (Elem 0 0) h' =
      Ret (\<lparr>content = C_array (Some 1) 2, cap_word = 2\<rparr>\<lparr>content := content \<lparr>content = C_json (Some 3), cap_word = 0\<rparr>\<rparr>) \<and>
    construct_copy 3 (Elem 0 1) h' = Undef"
  by (rule moved_value_undefined [OF small_heap_facts(1-3), where D = "{1, 2}"]) (use small_heap_owns in \<open>simp_all add: has_block_def\<close>)

end
