(* ===== verification/Configure.thy ===== *)
theory Configure
  imports JsonProps ConvSingle
begin

text \<open>
  The class \<open>configure\<close> of \<open>src/core/include/configure.h\<close> and the part of the constructor of
  \<open>conv_single\<close> that reads it. The files are a map from names to contents. \<open>exit\<close> is \<open>Abort\<close>, as
  is a failed \<open>assert\<close> of a conversion; a missing required key is \<open>Throw\<close>.
\<close>

section \<open>The class\<close>

definition configure_new :: "(string \<Rightarrow> string option) \<Rightarrow> json outcome" where
  "configure_new files =
     bind_out (load_by_file_name files ''conv_event/conf/conf.json'' fmempty) (\<lambda>(ok, configs).
     if ok then Ret configs else Abort)"

definition require :: "json \<Rightarrow> string \<Rightarrow> json_val outcome" where
  "require configs key = (if has_key configs key then Ret (fst (json_at configs key)) else Throw)"

definition config_at :: "json \<Rightarrow> string \<Rightarrow> json_val" where
  "config_at configs key = (if has_key configs key then fst (json_at configs key) else V_null)"

lemma require_lookup:
  "require configs key = (case fmlookup configs key of Some v \<Rightarrow> Ret v | None \<Rightarrow> Throw)"
  by (auto simp: require_def has_key_def json_at_def fmlookup_dom_iff split: option.splits)

lemma config_at_lookup:
  "config_at configs key = (case fmlookup configs key of Some v \<Rightarrow> v | None \<Rightarrow> V_null)"
  by (auto simp: config_at_def has_key_def json_at_def fmlookup_dom_iff split: option.splits)

section \<open>Reading it\<close>

text \<open>\<open>if (conf[key].type != JSON_NULL) ... = conf[key]\<close>, with the conversion \<open>f\<close>.\<close>

definition conf_opt :: "json \<Rightarrow> string \<Rightarrow> (json_val \<Rightarrow> 'b outcome) \<Rightarrow> 'b option outcome" where
  "conf_opt conf key f =
     (if type_of (config_at conf key) \<noteq> JSON_NULL
      then bind_out (f (config_at conf key)) (\<lambda>x. Ret (Some x)) else Ret None)"

text \<open>\<open>if (conf[key].type != JSON_NULL) ... conf.require(count)\<close>.\<close>

definition conf_switch :: "json \<Rightarrow> string \<Rightarrow> string \<Rightarrow> 32 word option outcome" where
  "conf_switch conf key count =
     (if type_of (config_at conf key) \<noteq> JSON_NULL
      then bind_out (bind_out (require conf count) as_int32) (\<lambda>n. Ret (Some n)) else Ret None)"

text \<open>The constructor of \<open>conv_single\<close>: the address it will listen at, and the server.\<close>

definition conv_single_conf :: "json \<Rightarrow> int \<Rightarrow> (string \<times> 16 word \<times> 'a server) outcome" where
  "conv_single_conf conf socket_ret =
     bind_out (bind_out (require conf ''ip'') as_string) (\<lambda>ip.
     bind_out (bind_out (require conf ''port'') as_short) (\<lambda>port.
     bind_out (bind_out (require conf ''max_connect_count'') as_int32) (\<lambda>n.
     let s0 = blank_server\<lparr>max_connect_count := sint n\<rparr> in
     bind_out (conf_switch conf ''multi_thread'' ''thread_count'') (\<lambda>tc.
     case (case tc of None \<Rightarrow> Some s0 | Some n \<Rightarrow> enable_multi_thread (sint n) 40000 s0) of
       None \<Rightarrow> Abort
     | Some s1 \<Rightarrow>
         bind_out (conf_switch conf ''object_pool'' ''object_pool_size'') (\<lambda>ps.
         let s2 = opt_set ps (\<lambda>n. enable_object_pool (to_size_t (sint n))) s1 in
         bind_out (conf_opt conf ''one_shot'' as_bool) (\<lambda>one_sh.
         bind_out (conf_opt conf ''et'' as_bool) (\<lambda>et.
         bind_out (conf_opt conf ''max_events_count'' as_int32) (\<lambda>ev.
         bind_out (conf_opt conf ''listen_queue_count'' as_int32) (\<lambda>lq.
         if socket_ret < 0 then Abort
         else
           let s3 = opt_set et set_et (opt_set one_sh set_one_shot s2);
               s4 = opt_set ev (\<lambda>n s. s\<lparr>max_events_count := sint n\<rparr>) s3;
               s5 = opt_set lq (\<lambda>n s. s\<lparr>listen_queue_count := sint n\<rparr>) s4;
               s6 = s5\<lparr>srv_socket_fd := socket_ret\<rparr> in
           bind_out (conf_opt conf ''port_reuse'' as_bool) (\<lambda>pr.
           let s7 = (if pr = Some True then set_port_reuse True s6 else s6) in
           bind_out (conf_opt conf ''address_reuse'' as_bool) (\<lambda>ar.
           Ret (ip, port, if ar = Some True then set_addr_reuse True s7 else s7))))))))))))"

definition start_single :: "(string \<Rightarrow> string option) \<Rightarrow> int \<Rightarrow> (string \<times> 16 word \<times> 'a server) outcome" where
  "start_single files socket_ret = bind_out (configure_new files) (\<lambda>conf. conv_single_conf conf socket_ret)"

section \<open>What a configuration object says\<close>

text \<open>The entry for an optional value: absent or null, or of the right type.\<close>

definition says :: "json \<Rightarrow> string \<Rightarrow> ('b \<Rightarrow> json_val) \<Rightarrow> 'b option \<Rightarrow> bool" where
  "says conf key mk v \<longleftrightarrow> (case v of None \<Rightarrow> config_at conf key = V_null | Some x \<Rightarrow> fmlookup conf key = Some (mk x))"

definition in_int32 :: "int option \<Rightarrow> bool" where
  "in_int32 v \<longleftrightarrow> (case v of None \<Rightarrow> True | Some i \<Rightarrow> - (2 ^ 31) \<le> i \<and> i < 2 ^ 31)"

definition int_val :: "int \<Rightarrow> json_val" where
  "int_val i = V_int (word_of_int i)"

definition says_switch :: "json \<Rightarrow> string \<Rightarrow> string \<Rightarrow> int option \<Rightarrow> bool" where
  "says_switch conf key count v \<longleftrightarrow>
     (case v of None \<Rightarrow> config_at conf key = V_null
      | Some i \<Rightarrow> type_of (config_at conf key) \<noteq> JSON_NULL \<and> fmlookup conf count = Some (int_val i))"

definition configures :: "json \<Rightarrow> string \<Rightarrow> int \<Rightarrow> conf_values \<Rightarrow> bool" where
  "configures conf ip port cf \<longleftrightarrow>
     fmlookup conf ''ip'' = Some (string_val ip) \<and> NUL \<notin> set ip \<and>
     fmlookup conf ''port'' = Some (int_val port) \<and> 0 \<le> port \<and> port < 65536 \<and>
     fmlookup conf ''max_connect_count'' = Some (int_val (cf_max_connect_count cf)) \<and>
     says_switch conf ''multi_thread'' ''thread_count'' (cf_multi_thread cf) \<and>
     says_switch conf ''object_pool'' ''object_pool_size'' (cf_object_pool cf) \<and>
     says conf ''one_shot'' V_bool (cf_one_shot cf) \<and> says conf ''et'' V_bool (cf_et cf) \<and>
     says conf ''max_events_count'' int_val (cf_max_events_count cf) \<and>
     says conf ''listen_queue_count'' int_val (cf_listen_queue_count cf) \<and>
     says conf ''port_reuse'' V_bool (cf_port_reuse cf) \<and> says conf ''address_reuse'' V_bool (cf_address_reuse cf) \<and>
     list_all in_int32 [Some (cf_max_connect_count cf), cf_multi_thread cf, cf_object_pool cf,
       cf_max_events_count cf, cf_listen_queue_count cf]"

lemma sint_int32: "in_int32 (Some i) \<Longrightarrow> sint (word_of_int i :: 32 word) = i"
  by (simp add: in_int32_def sint_sbintrunc' signed_take_bit_int_eq_self)

lemma conf_opt_bool:
  "says conf key V_bool v \<Longrightarrow> conf_opt conf key as_bool = Ret v"
  by (cases v) (simp_all add: says_def conf_opt_def config_at_lookup as_bool_def)

lemma conf_opt_int:
  "says conf key int_val v \<Longrightarrow> conf_opt conf key as_int32 = Ret (map_option word_of_int v)"
  by (cases v) (simp_all add: says_def conf_opt_def config_at_lookup as_int32_def int_val_def)

lemma conf_switch_int:
  "says_switch conf key count v \<Longrightarrow> conf_switch conf key count = Ret (map_option word_of_int v)"
  by (cases v) (simp_all add: says_switch_def conf_switch_def require_lookup as_int32_def int_val_def)

lemma opt_set_int:
  "in_int32 v \<Longrightarrow> opt_set (map_option word_of_int v :: 32 word option) (\<lambda>n. f (sint n)) s = opt_set v f s"
  by (cases v) (simp_all add: opt_set_def sint_int32)

lemmas conf_reads = conf_opt_bool conf_opt_int conf_switch_int opt_set_int

section \<open>Properties\<close>

lemma conv_single_configured:
  assumes "configures m ip port cf"
  shows "conv_single_conf m socket_ret =
    (case conv_single_new cf socket_ret of None \<Rightarrow> Abort | Some s \<Rightarrow> Ret (ip, word_of_int port, s :: 'a server))"
proof -
  note c = assms [unfolded configures_def]
  have i: "in_int32 (Some (cf_max_connect_count cf))" "in_int32 (cf_multi_thread cf)" "in_int32 (cf_object_pool cf)"
      "in_int32 (cf_max_events_count cf)" "in_int32 (cf_listen_queue_count cf)" using c by simp_all
  have req: "bind_out (require m ''ip'') as_string = Ret ip"
      "bind_out (require m ''port'') as_short = Ret (word_of_int port)"
      "bind_out (require m ''max_connect_count'') as_int32 = Ret (word_of_int (cf_max_connect_count cf))"
    using c by (auto simp: require_lookup string_val_def as_string_def as_short_def as_int32_def int_val_def cstr_id
        unsigned_of_int take_bit_int_eq_self)
  have sw: "conf_switch m ''multi_thread'' ''thread_count'' = Ret (map_option word_of_int (cf_multi_thread cf))"
      "conf_switch m ''object_pool'' ''object_pool_size'' = Ret (map_option word_of_int (cf_object_pool cf))"
      "conf_opt m ''one_shot'' as_bool = Ret (cf_one_shot cf)" "conf_opt m ''et'' as_bool = Ret (cf_et cf)"
      "conf_opt m ''max_events_count'' as_int32 = Ret (map_option word_of_int (cf_max_events_count cf))"
      "conf_opt m ''listen_queue_count'' as_int32 = Ret (map_option word_of_int (cf_listen_queue_count cf))"
      "conf_opt m ''port_reuse'' as_bool = Ret (cf_port_reuse cf)"
      "conf_opt m ''address_reuse'' as_bool = Ret (cf_address_reuse cf)"
    using c by (auto intro: conf_reads)
  have mt: "(case map_option word_of_int (cf_multi_thread cf) of None \<Rightarrow> Some s
        | Some n \<Rightarrow> enable_multi_thread (sint (n :: 32 word)) 40000 s) =
      (case cf_multi_thread cf of None \<Rightarrow> Some s | Some n \<Rightarrow> enable_multi_thread n 40000 s)" for s :: "'a server"
    using i(2) by (cases "cf_multi_thread cf") (simp_all add: sint_int32)
  have os: "opt_set (map_option word_of_int (cf_object_pool cf)) (\<lambda>n. enable_object_pool (to_size_t (sint (n :: 32 word)))) s =
        opt_set (cf_object_pool cf) (\<lambda>n. enable_object_pool (to_size_t n)) s"
      "opt_set (map_option word_of_int (cf_max_events_count cf)) (\<lambda>n s. s\<lparr>max_events_count := sint (n :: 32 word)\<rparr>) s =
        opt_set (cf_max_events_count cf) (\<lambda>n s. s\<lparr>max_events_count := n\<rparr>) s"
      "opt_set (map_option word_of_int (cf_listen_queue_count cf)) (\<lambda>n s. s\<lparr>listen_queue_count := sint (n :: 32 word)\<rparr>) s =
        opt_set (cf_listen_queue_count cf) (\<lambda>n s. s\<lparr>listen_queue_count := n\<rparr>) s" for s :: "'a server"
    by (rule opt_set_int [OF i(3)], rule opt_set_int [OF i(4)], rule opt_set_int [OF i(5)])
  show ?thesis
    unfolding conv_single_conf_def conv_single_new_def req sw bind_out.simps Let_def mt os sint_int32 [OF i(1)]
    by (simp split: option.split)
qed

text \<open>C9: From the file to the server: when the configuration file starts with a text of an object that has the
  required keys, every value of the right type and a port below 65536, the single-reactor server is
  built with exactly these values; the short the port is kept in gives it back unsigned.\<close>

theorem configuration_file_configures:
  assumes "files ''conv_event/conf/conf.json'' = Some (t @ rest)"
    and "renders (V_json m) t" "configures m ip port cf"
  shows "start_single files socket_ret =
      (case conv_single_new cf socket_ret of None \<Rightarrow> Abort | Some s \<Rightarrow> Ret (ip, word_of_int port, s :: 'a server)) \<and>
    uint (word_of_int port :: 16 word) = port"
proof -
  have "configure_new files = Ret m"
    by (simp add: configure_new_def load_by_file_name_def assms(1) load_renders [OF assms(2)])
  then have "start_single files socket_ret = (conv_single_conf m socket_ret :: (string \<times> 16 word \<times> 'a server) outcome)"
    by (simp add: start_single_def)
  moreover have "uint (word_of_int port :: 16 word) = port"
    using assms(3) by (simp add: configures_def uint_word_of_int_eq take_bit_int_eq_self)
  ultimately show ?thesis using conv_single_configured [OF assms(3)] by simp
qed

definition small_json :: json where
  "small_json = fmupd ''ip'' (string_val ''0.0.0.0'') (fmupd ''port'' (int_val 60000)
     (fmupd ''max_connect_count'' (int_val 2) (fmupd ''et'' (V_bool True) (fmupd ''one_shot'' V_null fmempty))))"

definition et_conf :: conf_values where
  "et_conf = \<lparr>cf_max_connect_count = 2, cf_multi_thread = None, cf_object_pool = None, cf_one_shot = None,
     cf_et = Some True, cf_max_events_count = None, cf_listen_queue_count = None, cf_port_reuse = None,
     cf_address_reuse = None\<rparr>"

lemma small_json_configures: "configures small_json ''0.0.0.0'' 60000 et_conf"
  by (simp add: configures_def small_json_def et_conf_def says_def says_switch_def config_at_lookup in_int32_def)

lemma small_json_renders: "renders (V_json small_json) (to_string sorted_keys (V_json small_json))"
  unfolding to_string_def
  by (rule print_val_renders [OF sorted_keys_ok])
    (auto simp: small_json_def fmmap_fmupd key_ok_def plain_string_def string_val_def cstr_def int_val_def intro!: fmpred_upd)

theorem configuration_file_configures_witness:
  "start_single [''conv_event/conf/conf.json'' \<mapsto> to_string sorted_keys (V_json small_json) @ [LF]] 3 =
      (case conv_single_new et_conf 3 of None \<Rightarrow> Abort | Some s \<Rightarrow> Ret (''0.0.0.0'', word_of_int 60000, s :: unit server)) \<and>
    uint (word_of_int 60000 :: 16 word) = 60000"
  by (rule configuration_file_configures [OF _ small_json_renders small_json_configures]) simp

text \<open>The process ends before the server exists when there is no configuration file or it starts with a
  blank or a line end, and leaves the constructor by an exception when the object has no \<open>ip\<close>; an
  \<open>ip\<close> that is not a string fails an assertion.\<close>

theorem configuration_refused:
  assumes "is_ws c" "files ''conv_event/conf/conf.json'' = Some (c # str)"
    and "none ''conv_event/conf/conf.json'' = None" "fmlookup conf ''ip'' = Some (V_int i)"
  shows "start_single files fd = Abort \<and> start_single none fd = Abort \<and>
    conv_single_conf fmempty fd = Throw \<and> conv_single_conf conf fd = Abort"
proof -
  have "configure_new files = Abort"
    using load_white_space [OF assms(1), of str fmempty] by (simp add: configure_new_def load_by_file_name_def assms(2))
  moreover have "configure_new none = Abort" by (simp add: configure_new_def load_by_file_name_def assms(3))
  ultimately show ?thesis
    by (simp add: start_single_def conv_single_conf_def require_lookup assms(4) as_string_def)
qed

theorem configuration_refused_witness:
  "start_single [''conv_event/conf/conf.json'' \<mapsto> LF # ''{}''] 3 = Abort \<and> start_single Map.empty 3 = Abort \<and>
    conv_single_conf fmempty 3 = Throw \<and> conv_single_conf (fmupd ''ip'' (V_int 7) fmempty) 3 = Abort"
  by (rule configuration_refused [of LF]) (simp_all add: is_ws_def)

end
