(* ===== verification/SafeQueue.thy ===== *)
theory SafeQueue
  imports LockQueue
begin

text \<open>
  \<open>safe_queue<T>\<close> of \<open>src/core/include/safe_queue.h\<close>: a linked list with a dummy node at the head and
  a free list of nodes. Nodes live in a heap; a link is an address or null. The operations are split
  at their atomic accesses, so that those of two threads can be interleaved; run without interruption
  they are the queue of the interface \<open>fifo\<close>. \<open>blank\<close> is the value of \<open>T()\<close>.
\<close>

section \<open>The code\<close>

record 'a node =
  node_data :: 'a
  next_node :: "nat option"

record 'a safe_queue =
  nodes :: "nat \<rightharpoonup> 'a node"
  head :: nat
  tail :: nat
  node_pool :: "nat option"
  sq_pool_size :: nat
  next_fresh :: nat

text \<open>The head is at address 0, the array of the pool at 1 to \<open>pool_size\<close>.\<close>

definition sq_new :: "'a \<Rightarrow> int \<Rightarrow> 'a safe_queue outcome" where
  "sq_new blank pool_size =
     (if pool_size < 0 then Throw
      else if pool_size = 0 then Undef
      else
        let n = nat pool_size in
        Ret \<lparr>nodes = (\<lambda>a. if a = 0 \<or> a = n then Some \<lparr>node_data = blank, next_node = None\<rparr>
                        else if a < n then Some \<lparr>node_data = blank, next_node = Some (a + 1)\<rparr> else None),
             head = 0, tail = 0, node_pool = Some 1, sq_pool_size = n, next_fresh = n + 1\<rparr>)"

definition acquire_node :: "'a \<Rightarrow> 'a safe_queue \<Rightarrow> (nat \<times> 'a safe_queue) outcome" where
  "acquire_node blank q =
     (case node_pool q of
        Some a \<Rightarrow> (case nodes q a of None \<Rightarrow> Undef | Some nd \<Rightarrow> Ret (a, q\<lparr>node_pool := next_node nd\<rparr>))
      | None \<Rightarrow>
          Ret (next_fresh q, q\<lparr>nodes := (nodes q)(next_fresh q \<mapsto> \<lparr>node_data = blank, next_node = None\<rparr>),
                              next_fresh := next_fresh q + 1\<rparr>))"

definition set_next :: "nat \<Rightarrow> nat option \<Rightarrow> 'a safe_queue \<Rightarrow> 'a safe_queue outcome" where
  "set_next a p q =
     (case nodes q a of None \<Rightarrow> Undef | Some nd \<Rightarrow> Ret (q\<lparr>nodes := (nodes q)(a \<mapsto> nd\<lparr>next_node := p\<rparr>)\<rparr>))"

definition release_node :: "nat \<Rightarrow> 'a safe_queue \<Rightarrow> 'a safe_queue outcome" where
  "release_node a q = bind_out (set_next a (node_pool q) q) (\<lambda>q1. Ret (q1\<lparr>node_pool := Some a\<rparr>))"

text \<open>\<open>push\<close> up to the exchange of the tail, which gives the previous one, and the link from it.\<close>

definition push_exchange :: "'a \<Rightarrow> 'a \<Rightarrow> 'a safe_queue \<Rightarrow> (nat \<times> nat \<times> 'a safe_queue) outcome" where
  "push_exchange blank x q =
     bind_out (acquire_node blank q) (\<lambda>(a, q1).
     Ret (tail q1, a, q1\<lparr>nodes := (nodes q1)(a \<mapsto> \<lparr>node_data = x, next_node = None\<rparr>), tail := a\<rparr>))"

definition push_link :: "nat \<times> nat \<times> 'a safe_queue \<Rightarrow> 'a safe_queue outcome" where
  "push_link r = (case r of (prev, a, q) \<Rightarrow> set_next prev (Some a) q)"

definition sq_push :: "'a \<Rightarrow> 'a \<Rightarrow> 'a safe_queue \<Rightarrow> 'a safe_queue outcome" where
  "sq_push blank x q = bind_out (push_exchange blank x q) push_link"

text \<open>\<open>pop\<close> up to the exchange of the head (\<open>None\<close>: nothing behind the head), and what follows it.\<close>

definition pop_exchange :: "'a safe_queue \<Rightarrow> ((nat \<times> nat) option \<times> 'a safe_queue) outcome" where
  "pop_exchange q =
     (case nodes q (head q) of
        None \<Rightarrow> Undef
      | Some nd \<Rightarrow>
          (case next_node nd of
             None \<Rightarrow> Ret (None, q)
           | Some b \<Rightarrow> Ret (Some (head q, b), q\<lparr>head := b\<rparr>)))"

definition pop_finish :: "nat \<times> nat \<Rightarrow> 'a safe_queue \<Rightarrow> ('a \<times> 'a safe_queue) outcome" where
  "pop_finish r q =
     (case r of (prev, b) \<Rightarrow>
        (case nodes q b of
           None \<Rightarrow> Undef
         | Some nd \<Rightarrow> bind_out (release_node prev q) (\<lambda>q1. Ret (node_data nd, q1))))"

definition sq_pop :: "'a \<Rightarrow> 'a safe_queue \<Rightarrow> (bool \<times> 'a \<times> 'a safe_queue) outcome" where
  "sq_pop dflt q =
     bind_out (pop_exchange q) (\<lambda>(r, q1).
     case r of
       None \<Rightarrow> Ret (False, dflt, q1)
     | Some r \<Rightarrow> bind_out (pop_finish r q1) (\<lambda>(x, q2). Ret (True, x, q2)))"

definition sq_empty :: "'a safe_queue \<Rightarrow> bool" where
  "sq_empty q \<longleftrightarrow> head q = tail q"

text \<open>
  The destructor: \<open>delete\<close> of every node from the head on, then of \<open>pool_size\<close> nodes from the pool.
  An element of an array made by \<open>new[]\<close> must not be deleted.
\<close>

definition delete_node :: "nat \<Rightarrow> 'a safe_queue \<Rightarrow> (nat option \<times> 'a safe_queue) outcome" where
  "delete_node a q =
     (case nodes q a of
        None \<Rightarrow> Undef
      | Some nd \<Rightarrow>
          if 1 \<le> a \<and> a \<le> sq_pool_size q then Undef
          else Ret (next_node nd, q\<lparr>nodes := (nodes q)(a := None)\<rparr>))"

fun delete_list :: "nat \<Rightarrow> nat option \<Rightarrow> 'a safe_queue \<Rightarrow> 'a safe_queue outcome" where
  "delete_list k None q = Ret q"
| "delete_list 0 (Some a) q = Blocked"
| "delete_list (Suc k) (Some a) q = bind_out (delete_node a q) (\<lambda>(p, q1). delete_list k p q1)"

fun delete_pool :: "nat \<Rightarrow> nat option \<Rightarrow> 'a safe_queue \<Rightarrow> 'a safe_queue outcome" where
  "delete_pool 0 p q = Ret q"
| "delete_pool (Suc i) None q = Undef"
| "delete_pool (Suc i) (Some a) q = bind_out (delete_node a q) (\<lambda>(p, q1). delete_pool i p q1)"

definition sq_destroy :: "'a safe_queue \<Rightarrow> 'a safe_queue outcome" where
  "sq_destroy q =
     bind_out (delete_list (next_fresh q) (Some (head q)) q) (\<lambda>q1.
     delete_pool (sq_pool_size q1) (node_pool q1) q1)"

section \<open>Chains of nodes\<close>

primrec chain :: "(nat \<rightharpoonup> 'a node) \<Rightarrow> nat option \<Rightarrow> nat list \<Rightarrow> bool" where
  "chain h p [] \<longleftrightarrow> p = None"
| "chain h p (a # as) \<longleftrightarrow> p = Some a \<and> (\<exists>nd. h a = Some nd \<and> chain h (next_node nd) as)"

fun walk :: "nat \<Rightarrow> (nat \<rightharpoonup> 'a node) \<Rightarrow> nat option \<Rightarrow> nat list" where
  "walk 0 h p = []"
| "walk (Suc k) h None = []"
| "walk (Suc k) h (Some a) = a # (case h a of None \<Rightarrow> [] | Some nd \<Rightarrow> walk k h (next_node nd))"

lemma walk_chain: "chain h p as \<Longrightarrow> length as \<le> k \<Longrightarrow> walk k h p = as"
proof (induction as arbitrary: p k)
  case Nil
  then show ?case by (cases k) auto
next
  case (Cons a as)
  then obtain j where "k = Suc j" by (cases k) auto
  with Cons show ?case by auto
qed

lemma chain_frame: "chain h p as \<Longrightarrow> (\<And>a. a \<in> set as \<Longrightarrow> h' a = h a) \<Longrightarrow> chain h' p as"
  by (induction as arbitrary: p) auto

lemma chain_append:
  "chain h p (as @ [t]) \<Longrightarrow> distinct (as @ [t]) \<Longrightarrow> n \<notin> set (as @ [t]) \<Longrightarrow> h n = Some \<lparr>node_data = x, next_node = None\<rparr> \<Longrightarrow>
   chain (h(t \<mapsto> (the (h t))\<lparr>next_node := Some n\<rparr>)) p (as @ [t, n])"
proof (induction as arbitrary: p)
  case Nil
  then show ?case by auto
next
  case (Cons a as)
  then show ?case by auto
qed

definition sq_rep :: "'a safe_queue \<Rightarrow> nat list \<Rightarrow> nat list \<Rightarrow> bool" where
  "sq_rep q as ps \<longleftrightarrow>
     as \<noteq> [] \<and> chain (nodes q) (Some (head q)) as \<and> List.last as = tail q \<and>
     chain (nodes q) (node_pool q) ps \<and> distinct (as @ ps) \<and> (\<forall>a\<in>set as \<union> set ps. a < next_fresh q)"

definition sq_ok :: "'a safe_queue \<Rightarrow> bool" where
  "sq_ok q \<longleftrightarrow> (\<exists>as ps. sq_rep q as ps)"

text \<open>What the queue holds: the data of the nodes behind the head.\<close>

definition sq_contents :: "'a safe_queue \<Rightarrow> 'a list" where
  "sq_contents q = map (\<lambda>a. node_data (the (nodes q a))) (tl (walk (next_fresh q) (nodes q) (Some (head q))))"

lemma sq_contents_rep:
  assumes "sq_rep q as ps"
  shows "sq_contents q = map (\<lambda>a. node_data (the (nodes q a))) (tl as)"
proof -
  have "set as \<subseteq> {..<next_fresh q}" "distinct as" using assms by (auto simp: sq_rep_def)
  then have "length as \<le> next_fresh q" by (metis card_lessThan card_mono distinct_card finite_lessThan)
  moreover have "chain (nodes q) (Some (head q)) as" using assms by (simp add: sq_rep_def)
  ultimately have "walk (next_fresh q) (nodes q) (Some (head q)) = as" by (intro walk_chain)
  then show ?thesis by (simp add: sq_contents_def)
qed

lemma acquire_rep:
  assumes "sq_rep q as ps"
  shows "\<exists>a ps' q1. acquire_node blank q = Ret (a, q1) \<and> a \<notin> set (as @ ps') \<and> a < next_fresh q1 \<and>
    head q1 = head q \<and> tail q1 = tail q \<and> chain (nodes q1) (node_pool q1) ps' \<and> distinct (as @ ps') \<and>
    (\<forall>b\<in>set as \<union> set ps'. b < next_fresh q1 \<and> nodes q1 b = nodes q b)"
proof (cases "node_pool q")
  case None
  then have "ps = []" using assms by (cases ps) (auto simp: sq_rep_def)
  with None assms show ?thesis
    by (intro exI [of _ "next_fresh q"] exI [of _ "[]"] exI) (auto simp: acquire_node_def sq_rep_def)
next
  case (Some a)
  then obtain ps' nd where "ps = a # ps'" "nodes q a = Some nd" "chain (nodes q) (next_node nd) ps'"
    using assms by (cases ps) (auto simp: sq_rep_def)
  with Some assms show ?thesis
    by (intro exI [of _ a] exI [of _ ps'] exI [of _ "q\<lparr>node_pool := next_node nd\<rparr>"]) (auto simp: acquire_node_def sq_rep_def)
qed

lemma chain_node: "chain h p as \<Longrightarrow> a \<in> set as \<Longrightarrow> \<exists>nd. h a = Some nd"
  by (induction as arbitrary: p) auto

lemma push_rep:
  assumes "sq_rep q as ps"
  shows "\<exists>q' a ps'. sq_push blank x q = Ret q' \<and> sq_rep q' (as @ [a]) ps' \<and>
    map (\<lambda>b. node_data (the (nodes q' b))) (as @ [a]) = map (\<lambda>b. node_data (the (nodes q b))) as @ [x]"
proof -
  obtain bs where as: "as = bs @ [tail q]"
    using assms by (metis append_butlast_last_id sq_rep_def)
  from acquire_rep [OF assms, of blank] obtain a ps' q1 where
    a: "acquire_node blank q = Ret (a, q1)" "a \<notin> set (as @ ps')" "a < next_fresh q1" "head q1 = head q"
      "tail q1 = tail q" "chain (nodes q1) (node_pool q1) ps'" "distinct (as @ ps')"
      "\<forall>b\<in>set as \<union> set ps'. b < next_fresh q1 \<and> nodes q1 b = nodes q b" by blast
  have c: "chain (nodes q) (Some (head q)) as" using assms by (simp add: sq_rep_def)
  then obtain nd where nd: "nodes q (tail q) = Some nd" using chain_node [OF c, of "tail q"] as by auto
  let ?h = "(nodes q1)(a \<mapsto> \<lparr>node_data = x, next_node = None\<rparr>)"
  let ?q = "q1\<lparr>nodes := ?h(tail q \<mapsto> nd\<lparr>next_node := Some a\<rparr>), tail := a\<rparr>"
  have ne: "tail q \<noteq> a" using a(2) as by auto
  have t: "nodes q1 (tail q) = Some nd" using a(8) as nd by simp
  have push: "sq_push blank x q = Ret ?q"
    using a t ne by (simp add: sq_push_def push_exchange_def push_link_def set_next_def)
  have h: "?h b = nodes q b" if "b \<in> set as" for b using a(2,8) that by auto
  have "chain ?h (Some (head q)) as" by (rule chain_frame [OF c]) (rule h)
  from chain_append [OF this [unfolded as], of a x] a(2,7) as t ne
  have "chain (nodes ?q) (Some (head ?q)) (as @ [a])" by (simp add: a(4))
  moreover have "chain (nodes ?q) (node_pool ?q) ps'"
    using a(2,7) as by simp (rule chain_frame [OF a(6)], auto)
  ultimately have "sq_rep ?q (as @ [a]) ps'" using a by (auto simp: sq_rep_def)
  moreover have "map (\<lambda>b. node_data (the (nodes ?q b))) (as @ [a]) = map (\<lambda>b. node_data (the (nodes q b))) as @ [x]"
    using h nd ne a(2,8) by auto
  ultimately show ?thesis using push by blast
qed

lemma pop_rep:
  assumes "sq_rep q (d # as) ps"
  shows "case as of
      [] \<Rightarrow> sq_pop dflt q = Ret (False, dflt, q)
    | b # bs \<Rightarrow> \<exists>q'. sq_pop dflt q = Ret (True, node_data (the (nodes q b)), q') \<and> sq_rep q' as (d # ps) \<and>
        (\<forall>c\<in>set as. node_data (the (nodes q' c)) = node_data (the (nodes q c)))"
proof -
  from assms obtain nd where nd: "head q = d" "nodes q d = Some nd" "chain (nodes q) (next_node nd) as"
    by (auto simp: sq_rep_def)
  show ?thesis
  proof (cases as)
    case Nil
    with nd show ?thesis by (simp add: sq_pop_def pop_exchange_def)
  next
    case (Cons b bs)
    then obtain nb where nb: "next_node nd = Some b" "nodes q b = Some nb" using nd by auto
    let ?q = "q\<lparr>head := b, nodes := (nodes q)(d \<mapsto> nd\<lparr>next_node := node_pool q\<rparr>), node_pool := Some d\<rparr>"
    have pop: "sq_pop dflt q = Ret (True, node_data nb, ?q)"
      using nd nb by (simp add: sq_pop_def pop_exchange_def pop_finish_def release_node_def set_next_def)
    have d: "d \<notin> set as" "d \<notin> set ps" using assms by (auto simp: sq_rep_def)
    have "chain (nodes ?q) (Some b) as"
      by (rule chain_frame [of "nodes q" _ as]) (use d(1) nd(3) nb(1) in auto)
    moreover have "chain (nodes ?q) (node_pool q) ps"
      by (rule chain_frame [of "nodes q" _ ps]) (use d(2) assms in \<open>auto simp: sq_rep_def\<close>)
    then have "chain (nodes ?q) (Some d) (d # ps)" by simp
    ultimately have "sq_rep ?q as (d # ps)" using assms Cons by (auto simp: sq_rep_def)
    with pop nb d(1) Cons show ?thesis by auto
  qed
qed

lemma new_rep:
  assumes "sq_new blank n = Ret q"
  shows "sq_rep q [0] [1..<nat n + 1]"
proof -
  have n: "0 < n" and q: "q = \<lparr>nodes = (\<lambda>a. if a = 0 \<or> a = nat n then Some \<lparr>node_data = blank, next_node = None\<rparr>
      else if a < nat n then Some \<lparr>node_data = blank, next_node = Some (a + 1)\<rparr> else None),
      head = 0, tail = 0, node_pool = Some 1, sq_pool_size = nat n, next_fresh = nat n + 1\<rparr>"
    using assms by (auto simp: sq_new_def Let_def split: if_splits)
  have "chain (nodes q) (Some i) [i..<nat n + 1]" if "1 \<le> i" "i \<le> nat n" for i
    using that
  proof (induction "nat n - i" arbitrary: i)
    case 0
    then have "i = nat n" by simp
    then show ?case using 0 by (simp add: q)
  next
    case (Suc k)
    then have "chain (nodes q) (Some (i + 1)) [i + 1..<nat n + 1]" by (intro Suc.hyps) auto
    moreover have "[i..<nat n + 1] = i # [i + 1..<nat n + 1]" using Suc by (simp add: upt_conv_Cons)
    ultimately show ?case using Suc by (simp add: q)
  qed
  from this [of 1] n show ?thesis by (auto simp: sq_rep_def q)
qed

section \<open>The interface\<close>

definition q_push :: "int \<Rightarrow> int safe_queue \<Rightarrow> int safe_queue" where
  "q_push x q = ret_of (sq_push 0 x q)"

definition q_pop :: "int safe_queue \<Rightarrow> bool \<times> int \<times> int safe_queue" where
  "q_pop q = ret_of (sq_pop (- 1) q)"

lemma q_push_ok:
  assumes "sq_ok q"
  shows "sq_push 0 x q = Ret (q_push x q) \<and> sq_ok (q_push x q) \<and> sq_contents (q_push x q) = sq_contents q @ [x]"
proof -
  from assms obtain as ps where r: "sq_rep q as ps" by (auto simp: sq_ok_def)
  then have "as \<noteq> []" by (simp add: sq_rep_def)
  from push_rep [OF r, of 0 x] obtain q' a ps' where p: "sq_push 0 x q = Ret q'" "sq_rep q' (as @ [a]) ps'"
    "map (\<lambda>b. node_data (the (nodes q' b))) (as @ [a]) = map (\<lambda>b. node_data (the (nodes q b))) as @ [x]" by blast
  have "sq_contents q' = tl (map (\<lambda>b. node_data (the (nodes q' b))) (as @ [a]))"
    using sq_contents_rep [OF p(2)] by (simp only: map_tl)
  also have "\<dots> = tl (map (\<lambda>b. node_data (the (nodes q b))) as) @ [x]"
    unfolding p(3) using \<open>as \<noteq> []\<close> by (cases as) auto
  also have "\<dots> = sq_contents q @ [x]" using sq_contents_rep [OF r] by (simp only: map_tl)
  finally show ?thesis using p by (auto simp: q_push_def sq_ok_def)
qed

lemma q_pop_ok:
  assumes "sq_ok q"
  shows "sq_pop (- 1) q = Ret (q_pop q)" (is ?A)
    and "sq_contents q = [] \<Longrightarrow> q_pop q = (False, - 1, q)"
    and "sq_contents q = x # xs \<Longrightarrow> \<exists>q'. q_pop q = (True, x, q') \<and> sq_contents q' = xs"
    and "sq_ok (snd (snd (q_pop q)))"
proof -
  from assms obtain d as ps where r: "sq_rep q (d # as) ps"
    unfolding sq_ok_def by (metis neq_Nil_conv sq_rep_def)
  note pr = pop_rep [OF r, of "- 1"] and c = sq_contents_rep [OF r]
  have "?A \<and> (sq_contents q = [] \<longrightarrow> q_pop q = (False, - 1, q)) \<and>
      (\<forall>x xs. sq_contents q = x # xs \<longrightarrow> (\<exists>q'. q_pop q = (True, x, q') \<and> sq_contents q' = xs)) \<and>
      sq_ok (snd (snd (q_pop q)))"
  proof (cases as)
    case Nil
    with pr c assms show ?thesis by (simp add: q_pop_def)
  next
    case (Cons b bs)
    with pr obtain q' where q': "sq_pop (- 1) q = Ret (True, node_data (the (nodes q b)), q')" "sq_rep q' as (d # ps)"
      "\<forall>c\<in>set as. node_data (the (nodes q' c)) = node_data (the (nodes q c))" by auto
    have "sq_contents q' = tl (sq_contents q)"
      using sq_contents_rep [OF q'(2)] c q'(3) Cons by simp
    with q' c Cons show ?thesis by (auto simp: q_pop_def sq_ok_def)
  qed
  then show ?A "sq_contents q = [] \<Longrightarrow> q_pop q = (False, - 1, q)"
    "sq_contents q = x # xs \<Longrightarrow> \<exists>q'. q_pop q = (True, x, q') \<and> sq_contents q' = xs"
    "sq_ok (snd (snd (q_pop q)))" by blast+
qed

lemma sq_empty_iff:
  assumes "sq_ok q"
  shows "sq_empty q \<longleftrightarrow> sq_contents q = []"
proof -
  from assms obtain d as ps where r: "sq_rep q (d # as) ps"
    unfolding sq_ok_def by (metis neq_Nil_conv sq_rep_def)
  then have "head q = d" "tail q = List.last (d # as)" "distinct (d # as)" by (auto simp: sq_rep_def)
  then have "sq_empty q \<longleftrightarrow> as = []"
    by (cases as rule: rev_cases) (auto simp: sq_empty_def)
  with sq_contents_rep [OF r] show ?thesis by simp
qed

interpretation sq: fifo q_push q_pop sq_empty sq_contents sq_ok "- 1"
proof
  fix q :: "int safe_queue" and b y q' assume "sq_ok q" "q_pop q = (b, y, q')"
  then show "sq_ok q'" using q_pop_ok(4) [of q] by simp
qed (simp_all add: q_push_ok q_pop_ok(2,3) sq_empty_iff)

section \<open>Properties\<close>

text \<open>C12: Used by one thread at a time, the free-list queue is a first-in first-out queue and touches only
  its own nodes: pushing a list of values to a new queue and popping gives the first of them and
  leaves the others, whether the nodes come from the pool or from \<open>new\<close>.\<close>

theorem safe_queue_fifo:
  assumes "sq_new 0 n = Ret q"
  shows "\<exists>q'. sq_pop (- 1) (fold q_push (x # xs) q) = Ret (True, x, q') \<and> sq_contents q' = xs \<and> sq_ok q'"
proof -
  have r: "sq_rep q [0] [1..<nat n + 1]" by (rule new_rep [OF assms])
  then have ok: "sq_ok q" "sq_contents q = []" by (auto simp: sq_ok_def sq_contents_rep)
  from sq.pop_after_pushes [OF this, of x xs] q_pop_ok(1) [OF sq.invar_pushes [OF ok(1)], of "x # xs"]
  show ?thesis by auto
qed

definition queue_of_one :: "int safe_queue" where
  "queue_of_one = ret_of (sq_new 0 1)"

lemma queue_of_one_ok: "sq_ok queue_of_one \<and> sq_contents queue_of_one = []"
proof -
  have "sq_new 0 1 = Ret queue_of_one" by (simp add: queue_of_one_def sq_new_def Let_def)
  from new_rep [OF this] show ?thesis by (auto simp: sq_ok_def sq_contents_rep)
qed

theorem safe_queue_fifo_witness:
  "\<exists>q'. sq_pop (- 1) (fold q_push [5, 6, 7] queue_of_one) = Ret (True, 5, q') \<and> sq_contents q' = [6, 7] \<and> sq_ok q'"
  by (rule safe_queue_fifo [of 1]) (simp add: queue_of_one_def sq_new_def Let_def)

text \<open>Between the two steps of a \<open>push\<close> to an empty queue another thread sees a queue that is not
  empty and a \<open>pop\<close> that fails.\<close>

theorem pop_fails_during_push:
  assumes "sq_ok q" "sq_contents q = []"
  shows "\<exists>prev a q1. push_exchange 0 x q = Ret (prev, a, q1) \<and> \<not> sq_empty q1 \<and> sq_pop (- 1) q1 = Ret (False, - 1, q1)"
proof -
  from assms(1) obtain d as ps where r: "sq_rep q (d # as) ps"
    unfolding sq_ok_def by (metis neq_Nil_conv sq_rep_def)
  with assms(2) have e: "as = []" by (simp add: sq_contents_rep)
  with r obtain nd where nd: "head q = d" "nodes q d = Some nd" "next_node nd = None" by (auto simp: sq_rep_def)
  from acquire_rep [OF r, of 0] e obtain a q1 where
    "acquire_node 0 q = Ret (a, q1)" "a \<noteq> d" "head q1 = d" "nodes q1 d = Some nd" using nd by auto
  then show ?thesis
    using nd by (simp add: push_exchange_def sq_empty_def sq_pop_def pop_exchange_def)
qed

theorem pop_fails_during_push_witness:
  "\<exists>prev a q1. push_exchange 0 5 queue_of_one = Ret (prev, a, q1) \<and> \<not> sq_empty q1 \<and>
    sq_pop (- 1) q1 = Ret (False, - 1, q1)"
  by (rule pop_fails_during_push) (simp_all add: queue_of_one_ok)

lemma interleaved_pop:
  fixes q :: "int safe_queue"
  assumes "sq_ok q" "sq_contents q = x # y # xs"
  shows "\<exists>r q1 q2 q3 q4. pop_exchange q = Ret (Some r, q1) \<and> sq_pop (- 1) q1 = Ret (True, y, q2) \<and>
    sq_push 0 z q2 = Ret q3 \<and> pop_finish r q3 = Ret (z, q4) \<and> sq_contents q3 = xs @ [z]"
proof -
  from assms(1) obtain d as ps where r: "sq_rep q (d # as) ps"
    unfolding sq_ok_def by (metis neq_Nil_conv sq_rep_def)
  with assms(2) obtain b c cs where as: "as = b # c # cs" "map (\<lambda>a. node_data (the (nodes q a))) (c # cs) = y # xs"
    by (auto simp: sq_contents_rep map_eq_Cons_conv)
  from r as obtain nd nb nc where n: "head q = d" "nodes q d = Some nd" "next_node nd = Some b" "nodes q b = Some nb"
      "next_node nb = Some c" "nodes q c = Some nc" by (auto simp: sq_rep_def)
  let ?q1 = "q\<lparr>head := b\<rparr>"
  let ?q2 = "?q1\<lparr>head := c, nodes := (nodes q)(b \<mapsto> nb\<lparr>next_node := node_pool q\<rparr>), node_pool := Some b\<rparr>"
  have r1: "sq_rep ?q1 (b # c # cs) ps" using r as n by (auto simp: sq_rep_def)
  then have ok1: "sq_ok ?q1" by (auto simp: sq_ok_def)
  have c1: "sq_contents ?q1 = y # xs" using sq_contents_rep [OF r1] as(2) by simp
  have pop: "sq_pop (- 1) ?q1 = Ret (True, y, ?q2)"
    using n as(2) by (simp add: sq_pop_def pop_exchange_def pop_finish_def release_node_def set_next_def)
  from q_pop_ok(1,3,4) [OF ok1] c1 pop have ok2: "sq_ok ?q2" "sq_contents ?q2 = xs" by auto
  have "tail q = List.last (c # cs)" "distinct (d # b # c # cs)" using r as by (auto simp: sq_rep_def)
  then have t: "tail q \<in> set (c # cs)" "tail q \<noteq> b" "tail q \<noteq> d" using last_in_set [of "c # cs"] by auto
  have "chain (nodes q) (Some (head q)) (d # as)" using r by (simp add: sq_rep_def)
  from chain_node [OF this] t as obtain nt where nt: "nodes q (tail q) = Some nt" by auto
  let ?q3 = "?q2\<lparr>node_pool := node_pool q, tail := b,
    nodes := (nodes q)(b \<mapsto> \<lparr>node_data = z, next_node = None\<rparr>, tail q \<mapsto> nt\<lparr>next_node := Some b\<rparr>)\<rparr>"
  have push: "sq_push 0 z ?q2 = Ret ?q3"
    using t nt by (simp add: sq_push_def push_exchange_def acquire_node_def push_link_def set_next_def)
  with q_push_ok [OF ok2(1), of z] ok2(2) have "sq_contents ?q3 = xs @ [z]" by auto
  moreover have "b \<noteq> d" using r as by (auto simp: sq_rep_def)
  then have "\<exists>q4. pop_finish (d, b) ?q3 = Ret (z, q4)"
    using n t by (auto simp: pop_finish_def release_node_def set_next_def)
  moreover have "pop_exchange q = Ret (Some (d, b), ?q1)" using n by (simp add: pop_exchange_def)
  ultimately show ?thesis using pop push by blast
qed

text \<open>C36: Two threads can lose an element and see another twice: one thread is between the exchange of the
  head and its read of the data when the other pops the next element, which puts the first thread's
  node back into the pool, and pushes a new value, which reuses it. The first thread then returns the
  new value, which is still in the queue, and its own element is gone.\<close>

theorem interleaved_pops_lose_element:
  fixes q :: "int safe_queue"
  assumes "sq_ok q" "sq_contents q = x # y # xs"
  shows "\<exists>r q1 q2 q3 q4. pop_exchange q = Ret (Some r, q1) \<and> sq_pop (- 1) q1 = Ret (True, y, q2) \<and>
    sq_push 0 z q2 = Ret q3 \<and> pop_finish r q3 = Ret (z, q4) \<and> sq_contents q3 = xs @ [z]"
  by (rule interleaved_pop [OF assms])

theorem interleaved_pops_lose_element_witness:
  "\<exists>r q1 q2 q3 q4. pop_exchange (fold q_push [10, 20] queue_of_one) = Ret (Some r, q1) \<and>
    sq_pop (- 1) q1 = Ret (True, 20, q2) \<and> sq_push 0 30 q2 = Ret q3 \<and> pop_finish r q3 = Ret (30, q4) \<and>
    sq_contents q3 = [] @ [30]"
  by (rule interleaved_pops_lose_element [where x = 10])
    (simp_all add: queue_of_one_ok sq.invar_push sq.contents_push)

text \<open>Destroying a queue that was just made has undefined behaviour: the nodes of the pool come from one
  \<open>new[]\<close> and are deleted one by one.\<close>

theorem destroy_undefined:
  assumes "sq_new blank n = Ret q"
  shows "sq_destroy q = Undef"
proof -
  have n: "0 < n" and q: "q = \<lparr>nodes = (\<lambda>a. if a = 0 \<or> a = nat n then Some \<lparr>node_data = blank, next_node = None\<rparr>
      else if a < nat n then Some \<lparr>node_data = blank, next_node = Some (a + 1)\<rparr> else None),
      head = 0, tail = 0, node_pool = Some 1, sq_pool_size = nat n, next_fresh = nat n + 1\<rparr>"
    using assms by (auto simp: sq_new_def Let_def split: if_splits)
  obtain k where k: "nat n = Suc k" using n by (cases "nat n") auto
  show ?thesis by (simp add: sq_destroy_def q k delete_node_def)
qed

theorem destroy_undefined_witness: "sq_destroy queue_of_one = Undef"
  by (rule destroy_undefined [of 0 1]) (simp add: queue_of_one_def sq_new_def Let_def)

end
