(* ===== verification/Reactor.thy ===== *)
theory Reactor
  imports Configure
begin

unbundle bit_operations_syntax

text \<open>
  One reactor of the multi-reactor server, \<open>src/core/include/reactor.h\<close>. A reactor has its own table of
  connections, epoll set, close queue and thread pool; the connection objects, the object pool and the
  number of connections belong to the server it is part of (\<open>shared\<close>). The acceptor only adds a
  descriptor to the epoll set: the object is made at the first event. The methods of \<open>T\<close> and a freshly
  constructed one are parameters, as in \<open>ConvSingle\<close>.
\<close>

section \<open>The state\<close>

text \<open>What the reactors of a server share: \<open>parent->current_connect_count\<close>, \<open>parent->conn_pool\<close>, the heap.\<close>

record 'a shared =
  sh_count :: int
  sh_objs :: "nat \<rightharpoonup> 'a conn_scheme"
  sh_pool :: "connpool option"
  sh_next :: nat

text \<open>\<open>rx_pooled\<close>: its pointer to the pool is not null; \<open>rx_events\<close>: the length of the array \<open>events\<close>.\<close>

record reactor =
  rx_connects :: "(int, nat option) fmap"
  rx_pooled :: bool
  rx_thread_pool :: "nat pool option"
  rx_world :: world
  rx_epoll_fd :: int
  rx_ET :: bool
  rx_one_shot :: bool
  rx_max_events_count :: int
  rx_events :: nat

definition reactor_new :: "int \<Rightarrow> reactor option" where
  "reactor_new epfd =
     (if epfd < 0 then None
      else Some \<lparr>rx_connects = fmempty, rx_pooled = False, rx_thread_pool = None,
        rx_world = \<lparr>calls = [], cq = []\<rparr>, rx_epoll_fd = epfd, rx_ET = False, rx_one_shot = True,
        rx_max_events_count = 4096, rx_events = 4096\<rparr>)"

definition rx_pointer :: "reactor \<Rightarrow> int \<Rightarrow> nat option" where
  "rx_pointer r fd = (case fmlookup (rx_connects r) fd of None \<Rightarrow> None | Some p \<Rightarrow> p)"

text \<open>\<open>connects[fd] == nullptr\<close> inserts a null pointer for a missing key.\<close>

definition rx_touch :: "int \<Rightarrow> reactor \<Rightarrow> reactor" where
  "rx_touch fd r =
     (case fmlookup (rx_connects r) fd of None \<Rightarrow> r\<lparr>rx_connects := fmupd fd None (rx_connects r)\<rparr> | Some _ \<Rightarrow> r)"

definition set_reactor_max_events :: "int \<Rightarrow> reactor \<Rightarrow> reactor" where
  "set_reactor_max_events n r = (if n \<ge> 0 then r\<lparr>rx_max_events_count := n\<rparr> else r)"

definition add_conn :: "int \<Rightarrow> reactor \<Rightarrow> reactor" where
  "add_conn fd r =
     r\<lparr>rx_world := (rx_world r)\<lparr>calls := calls (rx_world r) @
         epoll_add (rx_epoll_fd r) fd (rx_ET r) (rx_one_shot r) True\<rparr>\<rparr>"

text \<open>
  \<open>init\<close>, with the flags of the parent. The value of \<open>max_events_count\<close> in the configuration is tested,
  but the reactor's own is kept.
\<close>

definition reactor_init :: "json \<Rightarrow> bool \<Rightarrow> bool \<Rightarrow> bool \<Rightarrow> bool \<Rightarrow> reactor \<Rightarrow> reactor outcome" where
  "reactor_init conf et one_sh use_threads pooled r =
     (let r1 = r\<lparr>rx_max_events_count :=
                 (if type_of (config_at conf ''max_events_count'') = JSON_NULL then 4096 else rx_max_events_count r),
               rx_ET := et, rx_one_shot := one_sh\<rparr> in
      bind_out
        (if use_threads \<and> rx_thread_pool r1 = None then
           bind_out (if type_of (config_at conf ''thread_count'') = JSON_NULL then Ret 8
                     else as_int32 (config_at conf ''thread_count'')) (\<lambda>n.
           case new_pool (sint n) 40000 of None \<Rightarrow> Abort | Some tp \<Rightarrow> Ret (r1\<lparr>rx_thread_pool := Some tp\<rparr>))
         else Ret r1) (\<lambda>r2.
      Ret (r2\<lparr>rx_world := (rx_world r2)\<lparr>cq := []\<rparr>, rx_pooled := pooled\<rparr>)))"

section \<open>Objects\<close>

definition rx_take :: "'a conn_scheme \<Rightarrow> bool \<Rightarrow> 'a shared \<Rightarrow> (nat \<times> 'a shared) outcome" where
  "rx_take fresh pooled sh =
     (if pooled then
        (case sh_pool sh of
           None \<Rightarrow> Undef
         | Some p \<Rightarrow>
             (let (t, p') = pool_acquire p in
              Ret (t, sh\<lparr>sh_pool := Some p',
                sh_objs := (case sh_objs sh t of None \<Rightarrow> (sh_objs sh)(t \<mapsto> fresh) | Some _ \<Rightarrow> sh_objs sh)\<rparr>)))
      else
        (let (t, a) = heap_get (sh_next sh) in Ret (t, sh\<lparr>sh_next := a, sh_objs := (sh_objs sh)(t \<mapsto> fresh)\<rparr>)))"

definition rx_put :: "nat \<Rightarrow> bool \<Rightarrow> 'a shared \<Rightarrow> 'a shared outcome" where
  "rx_put t pooled sh =
     (if pooled then
        (case sh_pool sh of None \<Rightarrow> Undef | Some p \<Rightarrow> Ret (sh\<lparr>sh_pool := Some (pool_release t p)\<rparr>))
      else Ret (sh\<lparr>sh_next := heap_put t (sh_next sh), sh_objs := (sh_objs sh)(t := None)\<rparr>))"

section \<open>The loop\<close>

type_synonym 'a rx_state = "reactor \<times> 'a shared"

text \<open>\<open>CONNECTS_REMOVE_FD_REACTOR\<close>: the key stays in the table, with a null pointer.\<close>

definition rx_remove :: "int \<Rightarrow> 'a rx_state \<Rightarrow> 'a rx_state outcome" where
  "rx_remove fd s =
     (case s of (r, sh) \<Rightarrow>
        (case rx_pointer r fd of
           None \<Rightarrow> Undef
         | Some t \<Rightarrow>
             (case sh_objs sh t of
                None \<Rightarrow> Undef
              | Some c \<Rightarrow>
                  (let (c', w') = conn_close c (rx_world r) in
                   bind_out (rx_put t (rx_pooled r)
                       (sh\<lparr>sh_count := sh_count sh - 1, sh_objs := (sh_objs sh)(t \<mapsto> c')\<rparr>)) (\<lambda>sh'.
                   Ret (r\<lparr>rx_connects := fmupd fd None (rx_connects r), rx_world := w'\<rparr>, sh'))))))"

text \<open>The object for the first event of a descriptor; \<open>addr\<close> is what \<open>getsockname\<close> gives.\<close>

definition rx_open :: "'a conn_scheme \<Rightarrow> int \<Rightarrow> string \<Rightarrow> 'a rx_state \<Rightarrow> 'a rx_state outcome" where
  "rx_open fresh fd addr s =
     (case s of (r, sh) \<Rightarrow>
        if rx_pointer r fd \<noteq> None then Ret s
        else
          bind_out (rx_take fresh (rx_pooled r) sh) (\<lambda>(t, sh1).
          case sh_objs sh1 t of
            None \<Rightarrow> Undef
          | Some c \<Rightarrow>
              (let (c', w') = conn_init fd addr (rx_epoll_fd r) (rx_ET r) (rx_one_shot r) True False c (rx_world r) in
               Ret (r\<lparr>rx_connects := fmupd fd (Some t) (rx_connects r), rx_world := w'\<rparr>,
                    sh1\<lparr>sh_objs := (sh_objs sh1)(t \<mapsto> c'), sh_count := sh_count sh1 + 1\<rparr>))))"

definition rx_dispatch :: "'a methods \<Rightarrow> Status \<Rightarrow> bool \<Rightarrow> int \<Rightarrow> 'a rx_state \<Rightarrow> 'a rx_state outcome" where
  "rx_dispatch H st always fd s =
     (case s of (r, sh) \<Rightarrow>
        (case rx_pointer r fd of
           None \<Rightarrow> Undef
         | Some t \<Rightarrow>
             (case sh_objs sh t of
                None \<Rightarrow> Undef
              | Some c \<Rightarrow>
                  (case rx_thread_pool r of
                     Some tp \<Rightarrow>
                       (let (ok, tp') = add t tp;
                            s1 = (r\<lparr>rx_thread_pool := Some tp'\<rparr>, sh\<lparr>sh_objs := (sh_objs sh)(t \<mapsto> c\<lparr>status := st\<rparr>)\<rparr>)
                        in if ok then Ret s1 else rx_remove fd s1)
                   | None \<Rightarrow>
                       (let (ret, c', w') = process H (c\<lparr>status := st\<rparr>) (rx_world r);
                            s1 = (r\<lparr>rx_world := w'\<rparr>, sh\<lparr>sh_objs := (sh_objs sh)(t \<mapsto> c')\<rparr>)
                        in if always \<or> \<not> ret then rx_remove fd s1 else Ret s1)))))"

definition rx_event :: "'a methods \<Rightarrow> 'a conn_scheme \<Rightarrow> event \<Rightarrow> 'a rx_state \<Rightarrow> 'a rx_state outcome" where
  "rx_event H fresh e s =
     bind_out (rx_open fresh (ev_fd e) (ev_addr e) s) (\<lambda>s1.
     if ev_events e AND EPOLLRDHUP \<noteq> 0 then rx_dispatch H RDHUP True (ev_fd e) s1
     else if ev_events e AND EPOLLERR \<noteq> 0 then rx_dispatch H ERROR True (ev_fd e) s1
     else if ev_events e AND EPOLLOUT \<noteq> 0 then rx_dispatch H OUT False (ev_fd e) s1
     else if ev_events e AND EPOLLIN \<noteq> 0 then rx_dispatch H IN False (ev_fd e) s1
     else rx_remove (ev_fd e) s1)"

fun rx_events_loop :: "'a methods \<Rightarrow> 'a conn_scheme \<Rightarrow> event list \<Rightarrow> 'a rx_state \<Rightarrow> 'a rx_state outcome" where
  "rx_events_loop H fresh [] s = Ret s"
| "rx_events_loop H fresh (e # es) s = bind_out (rx_event H fresh e s) (rx_events_loop H fresh es)"

text \<open>One descriptor of the close queue, and the queue emptied.\<close>

definition rx_close_one :: "int \<Rightarrow> 'a rx_state \<Rightarrow> 'a rx_state outcome" where
  "rx_close_one fd s =
     (if fd = - 1 then Ret s
      else if rx_pointer (fst s) fd = None then Ret (rx_touch fd (fst s), snd s)
      else rx_remove fd s)"

lemma rx_remove_cq: "rx_remove fd s = Ret s' \<Longrightarrow> cq (rx_world (fst s')) = cq (rx_world (fst s))"
  by (auto simp: rx_remove_def conn_close_def Let_def bind_out_Ret_iff split: prod.splits option.splits if_splits)

lemma rx_close_one_cq: "rx_close_one fd s = Ret s' \<Longrightarrow> cq (rx_world (fst s')) = cq (rx_world (fst s))"
  by (auto simp: rx_close_one_def rx_touch_def dest: rx_remove_cq split: if_splits option.splits)

definition rx_set_cq :: "int lock_queue \<Rightarrow> 'a rx_state \<Rightarrow> 'a rx_state" where
  "rx_set_cq q s = ((fst s)\<lparr>rx_world := (rx_world (fst s))\<lparr>cq := q\<rparr>\<rparr>, snd s)"

function rx_drain :: "'a rx_state \<Rightarrow> 'a rx_state outcome" where
  "rx_drain s =
     (if lq_empty (cq (rx_world (fst s))) then Ret s
      else
        let (_, fd, q) = lq_pop_int (cq (rx_world (fst s))) in
        bind_out (rx_close_one fd (rx_set_cq q s)) rx_drain)"
  by pat_completeness auto

termination
  by (relation "measure (\<lambda>s. length (cq (rx_world (fst s))))")
     (auto simp: queue_simps rx_set_cq_def neq_Nil_conv dest!: rx_close_one_cq)

declare rx_drain.simps [simp del]

definition rx_close :: "reactor \<Rightarrow> reactor" where
  "rx_close r =
     r\<lparr>rx_world := \<lparr>calls = calls (rx_world r) @ (if rx_epoll_fd r \<noteq> - 1 then [Close_fd (rx_epoll_fd r)] else []), cq = []\<rparr>,
       rx_epoll_fd := - 1, rx_events := 0, rx_thread_pool := None\<rparr>"

text \<open>
  The loop, over what \<open>epoll_wait\<close> gives; a time-out is an empty list. \<open>epoll_wait\<close> gives at most
  \<open>max_events_count\<close> events and writes them into the array.
\<close>

fun rx_work :: "'a methods \<Rightarrow> 'a conn_scheme \<Rightarrow> poll list \<Rightarrow> 'a rx_state \<Rightarrow> (bool \<times> 'a rx_state) outcome" where
  "rx_work H fresh [] s = Ret (True, s)"
| "rx_work H fresh (Run_cleared # ps) s = Ret (False, rx_close (fst s), snd s)"
| "rx_work H fresh (Poll_interrupted # ps) s = bind_out (rx_drain s) (rx_work H fresh ps)"
| "rx_work H fresh (Poll_failed # ps) s = bind_out (rx_drain s) (\<lambda>s1. Ret (False, rx_close (fst s1), snd s1))"
| "rx_work H fresh (Poll_events es # ps) s =
     bind_out (rx_drain s) (\<lambda>s1.
     if rx_events (fst s1) < length es then Undef
     else bind_out (rx_events_loop H fresh es s1) (rx_work H fresh ps))"

end
