(* ===== verification/ConvMulti.thy ===== *)
theory ConvMulti
  imports Reactor
begin

text \<open>
  The multi-reactor server: the acceptor of \<open>src/core/include/acceptor.h\<close>, which gives each new descriptor
  to the reactor with the smallest table, and \<open>conv_multi<T>\<close> of \<open>src/core/conv_multi.h\<close>. Each reactor runs in
  a thread of its own; the server's behaviour is an interleaving of turns of the acceptor and the reactors.
\<close>

section \<open>The acceptor\<close>

text \<open>\<open>ac_event\<close>: the array of events was allocated. \<open>Abort\<close>: the process exits.\<close>

record acceptor =
  ac_ip :: string
  ac_port :: "16 word"
  ac_socket_fd :: int
  ac_epoll_fd :: int
  ac_listen_queue_count :: int
  ac_max_event_count :: int
  ac_event :: bool
  ac_calls :: "sys_call list"

definition acceptor_new :: acceptor where
  "acceptor_new = \<lparr>ac_ip = [], ac_port = 0, ac_socket_fd = - 1, ac_epoll_fd = - 1, ac_listen_queue_count = 1024,
     ac_max_event_count = 4096, ac_event = False, ac_calls = []\<rparr>"

text \<open>\<open>close\<close>: the array is given to \<open>delete\<close>, not to \<open>delete[]\<close>.\<close>

definition acceptor_close :: "acceptor \<Rightarrow> acceptor outcome" where
  "acceptor_close a =
     (let a1 = a\<lparr>ac_calls := ac_calls a @
                  (if ac_socket_fd a \<noteq> - 1 then [Close_fd (ac_socket_fd a)] else []) @
                  (if ac_epoll_fd a \<noteq> - 1 then [Close_fd (ac_epoll_fd a)] else []),
                ac_socket_fd := - 1, ac_epoll_fd := - 1\<rparr>
      in if ac_event a1 then Undef else Ret a1)"

text \<open>The set-up calls on the listening socket.\<close>

definition acceptor_addr_reuse :: "bool \<Rightarrow> acceptor \<Rightarrow> acceptor" where
  "acceptor_addr_reuse b a = a\<lparr>ac_calls := ac_calls a @ [Set_reuse_addr (ac_socket_fd a) b]\<rparr>"

definition acceptor_port_reuse :: "bool \<Rightarrow> acceptor \<Rightarrow> acceptor" where
  "acceptor_port_reuse b a = a\<lparr>ac_calls := ac_calls a @ [Set_reuse_port (ac_socket_fd a) b]\<rparr>"

definition acceptor_listen_queue :: "int \<Rightarrow> acceptor \<Rightarrow> acceptor" where
  "acceptor_listen_queue n a = (if n \<ge> 0 then a\<lparr>ac_listen_queue_count := n\<rparr> else a)"

text \<open>\<open>_create_socket_\<close>, with the result of \<open>socket\<close>.\<close>

definition acceptor_socket :: "int \<Rightarrow> acceptor \<Rightarrow> acceptor outcome" where
  "acceptor_socket ret a =
     (if ret < 0 then bind_out (acceptor_close a) (\<lambda>_. Abort) else Ret (a\<lparr>ac_socket_fd := ret\<rparr>))"

definition conf_int_or :: "json \<Rightarrow> string \<Rightarrow> int \<Rightarrow> int outcome" where
  "conf_int_or conf key dflt =
     (if type_of (config_at conf key) = JSON_NULL then Ret dflt
      else bind_out (as_int32 (config_at conf key)) (\<lambda>n. Ret (sint n)))"

definition acceptor_init :: "json \<Rightarrow> string \<Rightarrow> 16 word \<Rightarrow> int \<Rightarrow> acceptor \<Rightarrow> acceptor outcome" where
  "acceptor_init conf ip port socket_ret a =
     bind_out (conf_int_or conf ''listen_queue_count'' 1024) (\<lambda>lq.
     bind_out (conf_int_or conf ''max_events_count'' 4096) (\<lambda>ev.
     acceptor_socket socket_ret (a\<lparr>ac_ip := ip, ac_port := port, ac_listen_queue_count := lq, ac_max_event_count := ev\<rparr>)))"

text \<open>What \<open>work\<close> does before its loop: bind, epoll set, registration, listen.\<close>

definition acceptor_start :: "startup \<Rightarrow> acceptor \<Rightarrow> acceptor outcome" where
  "acceptor_start r a =
     (if bind_ret r < 0 then bind_out (acceptor_close a) (\<lambda>_. Abort)
      else
        let a1 = a\<lparr>ac_event := True,
                   ac_epoll_fd := (if ac_epoll_fd a = - 1 then epoll_create_ret r else ac_epoll_fd a)\<rparr> in
        if ac_epoll_fd a1 < 0 \<or> register_ret r < 0 \<or> listen_ret r < 0
        then bind_out (acceptor_close a1) (\<lambda>_. Abort)
        else Ret (a1\<lparr>ac_calls := ac_calls a1 @ epoll_add (ac_epoll_fd a1) (ac_socket_fd a1) False False False\<rparr>))"

text \<open>The search in \<open>_accept_\<close>: the first reactor whose table has the fewest keys.\<close>

definition table_size :: "reactor \<Rightarrow> nat" where
  "table_size r = fcard (fmdom (rx_connects r))"

definition least_step :: "nat \<times> reactor \<Rightarrow> nat \<times> nat \<Rightarrow> nat \<times> nat" where
  "least_step p best =
     (case p of (i, r) \<Rightarrow> if fst best > table_size r then (table_size r, i) else best)"

definition least_loaded :: "reactor list \<Rightarrow> nat" where
  "least_loaded rs = snd (fold least_step (List.enumerate 0 rs) (2147483647, 0))"

definition accept_conn :: "int \<Rightarrow> reactor list \<Rightarrow> reactor list outcome" where
  "accept_conn fd rs =
     (if fd < 0 then Ret rs
      else
        let i = least_loaded rs in
        if i < length rs then Ret (rs[i := add_conn fd (rs ! i)]) else Undef)"

section \<open>The server\<close>

record 'a multi =
  m_ET :: bool
  m_one_shot :: bool
  m_max_connect_count :: int
  m_thread_pool :: bool
  m_run :: bool
  m_acceptor :: acceptor
  m_shared :: "'a shared"
  m_reactors :: "reactor list"

definition blank_multi :: "'a multi" where
  "blank_multi = \<lparr>m_ET = False, m_one_shot = True, m_max_connect_count = 200000, m_thread_pool = False, m_run = True,
     m_acceptor = acceptor_new, m_shared = \<lparr>sh_count = 0, sh_objs = Map.empty, sh_pool = None, sh_next = 0\<rparr>,
     m_reactors = []\<rparr>"

definition multi_enable_object_pool :: "size_t \<Rightarrow> 'a multi \<Rightarrow> 'a multi" where
  "multi_enable_object_pool sz m =
     (case sh_pool (m_shared m) of
        Some _ \<Rightarrow> m
      | None \<Rightarrow> m\<lparr>m_shared := (m_shared m)\<lparr>sh_pool := Some (connpool_new (unat sz) (sh_next (m_shared m)))\<rparr>\<rparr>)"

definition multi_disable_object_pool :: "'a multi \<Rightarrow> 'a multi" where
  "multi_disable_object_pool m =
     m\<lparr>m_shared := (m_shared m)\<lparr>sh_pool := None, sh_objs := delete_pool_objects (sh_pool (m_shared m)) (sh_objs (m_shared m))\<rparr>\<rparr>"

definition multi_set_threads :: "bool \<Rightarrow> 'a multi \<Rightarrow> 'a multi" where
  "multi_set_threads b m = m\<lparr>m_thread_pool := b\<rparr>"

definition multi_set_et :: "bool \<Rightarrow> 'a multi \<Rightarrow> 'a multi" where
  "multi_set_et b m = m\<lparr>m_ET := b\<rparr>"

definition multi_set_one_shot :: "bool \<Rightarrow> 'a multi \<Rightarrow> 'a multi" where
  "multi_set_one_shot b m = m\<lparr>m_one_shot := b\<rparr>"

definition multi_set_max_events :: "int \<Rightarrow> 'a multi \<Rightarrow> 'a multi" where
  "multi_set_max_events n m =
     (if n \<ge> 0 then m\<lparr>m_reactors := map (set_reactor_max_events n) (m_reactors m)\<rparr> else m)"

definition multi_set_max_connect :: "int \<Rightarrow> 'a multi \<Rightarrow> 'a multi" where
  "multi_set_max_connect n m = (if n \<ge> 0 then m\<lparr>m_max_connect_count := n\<rparr> else m)"

definition multi_set_listen_queue :: "int \<Rightarrow> 'a multi \<Rightarrow> 'a multi" where
  "multi_set_listen_queue n m = (if n \<ge> 0 then m\<lparr>m_acceptor := acceptor_listen_queue n (m_acceptor m)\<rparr> else m)"

definition multi_set_addr_reuse :: "bool \<Rightarrow> 'a multi \<Rightarrow> 'a multi" where
  "multi_set_addr_reuse b m = m\<lparr>m_acceptor := acceptor_addr_reuse b (m_acceptor m)\<rparr>"

definition multi_set_port_reuse :: "bool \<Rightarrow> 'a multi \<Rightarrow> 'a multi" where
  "multi_set_port_reuse b m = m\<lparr>m_acceptor := acceptor_port_reuse b (m_acceptor m)\<rparr>"

text \<open>\<open>reactors.resize\<close>: each new reactor makes its epoll set, with the given results.\<close>

fun make_reactors :: "nat \<Rightarrow> int list \<Rightarrow> reactor list outcome" where
  "make_reactors 0 fds = Ret []"
| "make_reactors (Suc n) [] = Blocked"
| "make_reactors (Suc n) (fd # fds) =
     (case reactor_new fd of
        None \<Rightarrow> Abort
      | Some r \<Rightarrow> bind_out (make_reactors n fds) (\<lambda>rs. Ret (r # rs)))"

text \<open>
  The constructor; \<open>epoll_fds\<close> are the results of \<open>epoll_create\<close>. A negative number of reactors is a huge
  \<open>size_t\<close>, for which \<open>resize\<close> throws.
\<close>

definition conv_multi_conf :: "json \<Rightarrow> int \<Rightarrow> int list \<Rightarrow> int \<Rightarrow> 'a multi outcome" where
  "conv_multi_conf conf reactor_count epoll_fds socket_ret =
     bind_out (bind_out (require conf ''ip'') as_string) (\<lambda>ip.
     bind_out (bind_out (require conf ''port'') as_short) (\<lambda>port.
     bind_out (bind_out (require conf ''max_connect_count'') as_int32) (\<lambda>n.
     let m0 = blank_multi\<lparr>m_max_connect_count := sint n,
                m_thread_pool := (type_of (config_at conf ''multi_thread'') \<noteq> JSON_NULL)\<rparr> in
     bind_out (conf_switch conf ''object_pool'' ''object_pool_size'') (\<lambda>ps.
     let m1 = opt_set ps (\<lambda>n. multi_enable_object_pool (to_size_t (sint n))) m0 in
     bind_out (conf_opt conf ''one_shot'' as_bool) (\<lambda>one_sh.
     bind_out (conf_opt conf ''et'' as_bool) (\<lambda>et.
     bind_out (conf_int_or conf ''reactor_count'' reactor_count) (\<lambda>count.
     let m2 = opt_set et multi_set_et (opt_set one_sh multi_set_one_shot m1) in
     if count < 0 then Throw
     else
       bind_out (make_reactors (nat count) epoll_fds) (\<lambda>rs.
       bind_out (acceptor_init conf ip port socket_ret (m_acceptor m2)) (\<lambda>ac.
       let m3 = m2\<lparr>m_reactors := rs, m_acceptor := ac\<rparr> in
       bind_out (conf_opt conf ''port_reuse'' as_bool) (\<lambda>pr.
       let m4 = (if pr = Some True then multi_set_port_reuse True m3 else m3) in
       bind_out (conf_opt conf ''address_reuse'' as_bool) (\<lambda>ar.
       Ret (if ar = Some True then multi_set_addr_reuse True m4 else m4))))))))))))"

text \<open>\<open>wait\<close>: the reactors are initialised and started, then the acceptor begins its work.\<close>

definition multi_start :: "json \<Rightarrow> startup \<Rightarrow> 'a multi \<Rightarrow> 'a multi outcome" where
  "multi_start conf su m =
     bind_out (seq_out (map (reactor_init conf (m_ET m) (m_one_shot m) (m_thread_pool m)
         (sh_pool (m_shared m) \<noteq> None)) (m_reactors m))) (\<lambda>rs.
     bind_out (acceptor_start su (m_acceptor m)) (\<lambda>ac.
     Ret (m\<lparr>m_reactors := rs, m_acceptor := ac\<rparr>)))"

text \<open>\<open>close\<close> of the server, after the acceptor's; the flags of the loops are part of the schedule.\<close>

definition multi_close :: "'a multi \<Rightarrow> 'a multi" where
  "multi_close m = multi_disable_object_pool m"

definition acceptor_end :: "'a multi \<Rightarrow> 'a multi outcome" where
  "acceptor_end m =
     bind_out (acceptor_close (m_acceptor m)) (\<lambda>ac. Ret (multi_close (m\<lparr>m_acceptor := ac\<rparr>)))"

text \<open>The loop of the acceptor over the results of \<open>epoll_wait\<close>, with what each \<open>accept\<close> gives, and what \<open>wait\<close>
  does after it. The flag cleared by a signal and a failed \<open>epoll_wait\<close> end it.\<close>

datatype apoll = Accepts "int list" | Accept_interrupted | Accept_failed | Accept_cleared

fun accept_all :: "int list \<Rightarrow> reactor list \<Rightarrow> reactor list outcome" where
  "accept_all [] rs = Ret rs"
| "accept_all (fd # fds) rs = bind_out (accept_conn fd rs) (accept_all fds)"

fun acceptor_work :: "apoll list \<Rightarrow> 'a multi \<Rightarrow> 'a multi outcome" where
  "acceptor_work [] m = Ret m"
| "acceptor_work (Accepts fds # ps) m =
     bind_out (accept_all fds (m_reactors m)) (\<lambda>rs. acceptor_work ps (m\<lparr>m_reactors := rs\<rparr>))"
| "acceptor_work (Accept_interrupted # ps) m = acceptor_work ps m"
| "acceptor_work (Accept_failed # ps) m = acceptor_end m"
| "acceptor_work (Accept_cleared # ps) m = acceptor_end m"

text \<open>Turns of the threads: an accept, an event or the close queue of a reactor.\<close>

datatype mturn = M_accept int | M_event nat event | M_drain nat

definition on_reactor :: "nat \<Rightarrow> ('a rx_state \<Rightarrow> 'a rx_state outcome) \<Rightarrow> 'a multi \<Rightarrow> 'a multi outcome" where
  "on_reactor i f m =
     (if i < length (m_reactors m) then
        bind_out (f (m_reactors m ! i, m_shared m)) (\<lambda>(r, sh).
        Ret (m\<lparr>m_reactors := (m_reactors m)[i := r], m_shared := sh\<rparr>))
      else Ret m)"

definition multi_turn :: "'a methods \<Rightarrow> 'a conn_scheme \<Rightarrow> mturn \<Rightarrow> 'a multi \<Rightarrow> 'a multi outcome" where
  "multi_turn H fresh t m =
     (case t of
        M_accept fd \<Rightarrow> bind_out (accept_conn fd (m_reactors m)) (\<lambda>rs. Ret (m\<lparr>m_reactors := rs\<rparr>))
      | M_event i e \<Rightarrow> on_reactor i (rx_event H fresh e) m
      | M_drain i \<Rightarrow> on_reactor i rx_drain m)"

fun multi_turns :: "'a methods \<Rightarrow> 'a conn_scheme \<Rightarrow> mturn list \<Rightarrow> 'a multi \<Rightarrow> 'a multi outcome" where
  "multi_turns H fresh [] m = Ret m"
| "multi_turns H fresh (t # ts) m = bind_out (multi_turn H fresh t m) (multi_turns H fresh ts)"

text \<open>
  The workers of the reactors' own thread pools run beside all of these. A worker calls \<open>process\<close> on the
  object of its task, whatever that object is used for by then: its calls and its close queue are those
  of the reactor it was last initialised by, which is the one with its epoll descriptor.
\<close>

definition home_reactor :: "'a multi \<Rightarrow> nat \<Rightarrow> 'a conn_scheme \<Rightarrow> nat" where
  "home_reactor m i c =
     (case filter (\<lambda>j. rx_epoll_fd (m_reactors m ! j) = epoll_fd c) [0..<length (m_reactors m)] of
        [] \<Rightarrow> i | j # _ \<Rightarrow> j)"

definition multi_worker :: "'a methods \<Rightarrow> nat \<Rightarrow> nat \<Rightarrow> 'a multi \<Rightarrow> 'a multi outcome" where
  "multi_worker H i w m =
     (if i < length (m_reactors m) then
        (case rx_thread_pool (m_reactors m ! i) of
           None \<Rightarrow> Ret m
         | Some tp \<Rightarrow>
             if length (threads tp) \<le> w then Ret m
             else
               (case worker_step w tp of
                  None \<Rightarrow> Ret m
                | Some tp' \<Rightarrow>
                    let m1 = m\<lparr>m_reactors := (m_reactors m)[i := (m_reactors m ! i)\<lparr>rx_thread_pool := Some tp'\<rparr>]\<rparr> in
                    (case threads tp ! w of
                       Running t \<Rightarrow>
                         (case sh_objs (m_shared m) t of
                            None \<Rightarrow> Undef
                          | Some c \<Rightarrow>
                              let j = home_reactor m i c;
                                  r = m_reactors m1 ! j;
                                  (ret, c', w') = process H c (rx_world r) in
                              Ret (m1\<lparr>m_reactors := (m_reactors m1)[j := r\<lparr>rx_world := w'\<rparr>],
                                      m_shared := (m_shared m)\<lparr>sh_objs := (sh_objs (m_shared m))(t \<mapsto> c')\<rparr>\<rparr>))
                     | _ \<Rightarrow> Ret m1)))
      else Ret m)"

datatype mstep = Turn mturn | Work nat nat

definition multi_step :: "'a methods \<Rightarrow> 'a conn_scheme \<Rightarrow> mstep \<Rightarrow> 'a multi \<Rightarrow> 'a multi outcome" where
  "multi_step H fresh st m = (case st of Turn t \<Rightarrow> multi_turn H fresh t m | Work i w \<Rightarrow> multi_worker H i w m)"

fun multi_steps :: "'a methods \<Rightarrow> 'a conn_scheme \<Rightarrow> mstep list \<Rightarrow> 'a multi \<Rightarrow> 'a multi outcome" where
  "multi_steps H fresh [] m = Ret m"
| "multi_steps H fresh (st # sts) m = bind_out (multi_step H fresh st m) (multi_steps H fresh sts)"

end
