(* ===== verification/ReactorProps.thy ===== *)
theory ReactorProps
  imports ConvMulti ConvSingleProps
begin

text \<open>
  The invariant of the multi-reactor server: over all reactors, \<open>current_connect_count\<close> is the number of
  descriptors with an object, no object serves two of them, and every object handed out by the pool or
  the heap is one of these. Each operation of a reactor keeps it and follows no null or dangling pointer.
\<close>

section \<open>The table of all reactors\<close>

text \<open>From reactor and descriptor to the object.\<close>

type_synonym table = "nat \<times> int \<rightharpoonup> nat"

definition shared_source :: "'a shared \<Rightarrow> nat set \<Rightarrow> bool" where
  "shared_source sh U = (case sh_pool sh of Some p \<Rightarrow> pool_uses p U | None \<Rightarrow> heap_uses (sh_next sh) U)"

definition table_ok :: "table \<Rightarrow> 'a shared \<Rightarrow> bool" where
  "table_ok P sh \<longleftrightarrow>
     finite (dom P) \<and> sh_count sh = int (card (dom P)) \<and>
     (\<forall>k k' t. P k = Some t \<longrightarrow> P k' = Some t \<longrightarrow> k = k') \<and>
     (\<forall>k t. P k = Some t \<longrightarrow> (\<exists>c. sh_objs sh t = Some c \<and> socket_fd c = snd k)) \<and>
     shared_source sh (ran P)"

lemma table_inj: "table_ok P sh \<Longrightarrow> P k = Some t \<Longrightarrow> P k' = Some t \<Longrightarrow> k' = k"
  unfolding table_ok_def by blast

lemma table_obj: "table_ok P sh \<Longrightarrow> P k = Some t \<Longrightarrow> \<exists>c. sh_objs sh t = Some c \<and> socket_fd c = snd k"
  unfolding table_ok_def by blast

lemma table_facts:
  "table_ok P sh \<Longrightarrow> finite (dom P)" "table_ok P sh \<Longrightarrow> sh_count sh = int (card (dom P))"
  "table_ok P sh \<Longrightarrow> shared_source sh (ran P)"
  by (simp_all add: table_ok_def)

lemma table_okI:
  assumes "finite (dom P)" "sh_count sh = int (card (dom P))"
    "\<And>k k' t. P k = Some t \<Longrightarrow> P k' = Some t \<Longrightarrow> k = k'"
    "\<And>k t. P k = Some t \<Longrightarrow> \<exists>c. sh_objs sh t = Some c \<and> socket_fd c = snd k" "shared_source sh (ran P)"
  shows "table_ok P sh"
  unfolding table_ok_def using assms by blast

lemma rx_take_ok:
  assumes "shared_source sh U" "pooled = (sh_pool sh \<noteq> None)"
  obtains t sh1 c where "rx_take fresh pooled sh = Ret (t, sh1)" "t \<notin> U" "shared_source sh1 (insert t U)"
    "sh_objs sh1 t = Some c" "\<And>u. u \<noteq> t \<Longrightarrow> sh_objs sh1 u = sh_objs sh u" "sh_count sh1 = sh_count sh"
    "(sh_pool sh1 \<noteq> None) = pooled"
proof (cases "sh_pool sh")
  case None
  with assms hs.get_fresh [of "sh_next sh" U] that show ?thesis
    by (cases "heap_get (sh_next sh)") (auto simp: rx_take_def shared_source_def)
next
  case (Some p)
  obtain t p' where a: "pool_acquire p = (t, p')" by fastforce
  with Some assms ps.get_fresh [of p U t p'] have "t \<notin> U" "pool_uses p' (insert t U)"
    by (auto simp: shared_source_def)
  let ?sh = "sh\<lparr>sh_pool := Some p',
    sh_objs := (case sh_objs sh t of None \<Rightarrow> (sh_objs sh)(t \<mapsto> fresh) | Some _ \<Rightarrow> sh_objs sh)\<rparr>"
  have "rx_take fresh pooled sh = Ret (t, ?sh)" using Some a assms(2) by (simp add: rx_take_def)
  moreover have "shared_source ?sh (insert t U)" using \<open>pool_uses p' (insert t U)\<close> by (simp add: shared_source_def)
  moreover have "sh_objs ?sh t = Some (case sh_objs sh t of None \<Rightarrow> fresh | Some c \<Rightarrow> c)" by (simp split: option.split)
  moreover have "sh_objs ?sh u = sh_objs sh u" if "u \<noteq> t" for u using that by (simp split: option.split)
  ultimately show ?thesis using that \<open>t \<notin> U\<close> assms(2) Some by simp
qed

lemma rx_put_ok:
  assumes "shared_source sh U" "pooled = (sh_pool sh \<noteq> None)" "t \<in> U"
  obtains sh1 where "rx_put t pooled sh = Ret sh1" "shared_source sh1 (U - {t})"
    "\<And>u. u \<noteq> t \<Longrightarrow> sh_objs sh1 u = sh_objs sh u" "sh_count sh1 = sh_count sh"
    "(sh_pool sh1 \<noteq> None) = pooled"
  using assms hs.put_back [of "sh_next sh" U t] ps.put_back [of "the (sh_pool sh)" U t]
  by (cases "sh_pool sh") (auto simp: rx_put_def shared_source_def)

lemma shared_source_frame [simp]:
  "shared_source (sh\<lparr>sh_objs := x\<rparr>) = shared_source sh" "shared_source (sh\<lparr>sh_count := n\<rparr>) = shared_source sh"
  by (simp_all add: shared_source_def fun_eq_iff cong: option.case_cong)

lemma table_ok_objs:
  assumes "table_ok P sh" "\<And>u. u \<noteq> t \<Longrightarrow> f u = sh_objs sh u" "sh_objs sh t = Some c" "f t = Some c'"
    "socket_fd c' = socket_fd c"
  shows "table_ok P (sh\<lparr>sh_objs := f\<rparr>)"
proof -
  have obj: "\<exists>d. f u = Some d \<and> socket_fd d = snd k" if "P k = Some u" for k u
    using table_obj [OF assms(1) that] assms(2-) by (cases "u = t") auto
  have uniq: "k = k'" if "P k = Some u" "P k' = Some u" for k k' u
    by (rule table_inj [OF assms(1) that(2,1)])
  show ?thesis
    by (rule table_okI [OF _ _ uniq])
      (simp_all only: table_facts [OF assms(1)] shared_source_frame, simp add: table_facts [OF assms(1)], simp add: obj)
qed

lemma table_drop:
  assumes ok: "table_ok P sh" and k: "P k = Some t"
    and sh': "sh_count sh' = sh_count sh - 1" "\<And>u. u \<noteq> t \<Longrightarrow> sh_objs sh' u = sh_objs sh u"
      "shared_source sh' (ran P - {t})"
  shows "table_ok (P(k := None)) sh'"
proof -
  note inj = table_inj [OF ok k]
  have r: "ran (P(k := None)) = ran P - {t}"
  proof (intro set_eqI iffI)
    fix u assume "u \<in> ran (P(k := None))"
    then obtain k' where "P k' = Some u" "k' \<noteq> k" by (auto simp: ran_def split: if_splits)
    moreover from this inj have "u \<noteq> t" by blast
    ultimately show "u \<in> ran P - {t}" by (simp add: ranI)
  next
    fix u assume "u \<in> ran P - {t}"
    then obtain k' where "P k' = Some u" "u \<noteq> t" by (auto simp: ran_def)
    with k have "(P(k := None)) k' = Some u" by auto
    then show "u \<in> ran (P(k := None))" by (rule ranI)
  qed
  have "k \<in> dom P" using k by auto
  then have "card (dom P - {k}) = card (dom P) - 1" "0 < card (dom P)"
    using table_facts(1) [OF ok] by (auto simp: card_gt_0_iff)
  then have cnt: "sh_count sh' = int (card (dom (P(k := None))))" using table_facts(2) [OF ok] sh'(1) by simp
  have obj: "\<exists>c. sh_objs sh' u = Some c \<and> socket_fd c = snd k'" if "(P(k := None)) k' = Some u" for k' u
  proof -
    from that have P: "P k' = Some u" "k' \<noteq> k" by (simp_all split: if_splits)
    with inj have "u \<noteq> t" by blast
    with table_obj [OF ok P(1)] sh'(2) show ?thesis by simp
  qed
  have uniq: "k1 = k2" if "(P(k := None)) k1 = Some u" "(P(k := None)) k2 = Some u" for k1 k2 u
    using that table_inj [OF ok, of k2 u k1] by (simp split: if_splits)
  show ?thesis
    by (rule table_okI [OF _ cnt uniq obj]) (simp_all only: r sh'(3) dom_fun_upd table_facts(1) [OF ok] finite_Diff simp_thms if_True)
qed

lemma table_add:
  assumes ok: "table_ok P sh" and k: "P k = None" and t: "t \<notin> ran P"
    and sh': "sh_count sh' = sh_count sh + 1" "\<And>u. u \<noteq> t \<Longrightarrow> sh_objs sh' u = sh_objs sh u"
      "sh_objs sh' t = Some c" "socket_fd c = snd k" "shared_source sh' (insert t (ran P))"
  shows "table_ok (P(k \<mapsto> t)) sh'"
proof -
  have r: "ran (P(k \<mapsto> t)) = insert t (ran P)" using k by (rule ran_map_upd)
  have nt: "P k' \<noteq> Some t" for k' using t by (meson ranI)
  have obj: "\<exists>d. sh_objs sh' u = Some d \<and> socket_fd d = snd k'" if "(P(k \<mapsto> t)) k' = Some u" for k' u
  proof (cases "k' = k")
    case True
    with that sh'(3,4) show ?thesis by simp
  next
    case False
    with that have P: "P k' = Some u" by simp
    with nt have "u \<noteq> t" by blast
    with table_obj [OF ok P] sh'(2) show ?thesis by simp
  qed
  have cnt: "sh_count sh' = int (card (dom (P(k \<mapsto> t))))"
    using table_facts(1,2) [OF ok] sh'(1) k by (simp add: domIff)
  have uniq: "k1 = k2" if "(P(k \<mapsto> t)) k1 = Some u" "(P(k \<mapsto> t)) k2 = Some u" for k1 k2 u
    using that nt table_inj [OF ok, of k2 u k1] by (simp split: if_splits)
  show ?thesis
    by (rule table_okI [OF _ cnt uniq obj]) (simp_all only: r sh'(5) dom_fun_upd table_facts(1) [OF ok] finite_insert option.simps if_False)
qed

section \<open>The operations of one reactor\<close>

definition rx_inv :: "nat \<Rightarrow> table \<Rightarrow> 'a rx_state \<Rightarrow> bool" where
  "rx_inv i P s \<longleftrightarrow>
     (\<forall>fd. P (i, fd) = rx_pointer (fst s) fd) \<and> table_ok P (snd s) \<and>
     rx_pooled (fst s) = (sh_pool (snd s) \<noteq> None)"

text \<open>A piece of code that returns, changes only the entries of reactor \<open>i\<close> and keeps the invariant.\<close>

definition rx_safe :: "nat \<Rightarrow> table \<Rightarrow> bool \<Rightarrow> 'a rx_state outcome \<Rightarrow> bool" where
  "rx_safe i P b m \<longleftrightarrow>
     (\<exists>s' P'. m = Ret s' \<and> rx_inv i P' s' \<and> (\<forall>k. fst k \<noteq> i \<longrightarrow> P' k = P k) \<and> (sh_pool (snd s') \<noteq> None) = b)"

lemma rx_safe_bind:
  assumes "rx_safe i P b m"
    and "\<And>s P'. m = Ret s \<Longrightarrow> rx_inv i P' s \<Longrightarrow> (sh_pool (snd s) \<noteq> None) = b \<Longrightarrow> rx_safe i P' b (f s)"
  shows "rx_safe i P b (bind_out m f)"
proof -
  from assms(1) obtain s P' where s: "m = Ret s" "rx_inv i P' s" "\<forall>k. fst k \<noteq> i \<longrightarrow> P' k = P k"
    "(sh_pool (snd s) \<noteq> None) = b" by (auto simp: rx_safe_def)
  from assms(2) [OF s(1,2,4)] s show ?thesis by (fastforce simp: rx_safe_def)
qed

lemma rx_safe_Ret:
  "rx_inv i P' s \<Longrightarrow> (\<And>k. fst k \<noteq> i \<Longrightarrow> P' k = P k) \<Longrightarrow> (sh_pool (snd s) \<noteq> None) = b \<Longrightarrow> rx_safe i P b (Ret s)"
  by (auto simp: rx_safe_def)

lemma rx_pointer_upd [simp]:
  "rx_pointer (r\<lparr>rx_connects := fmupd fd p m\<rparr>) fd' = (if fd' = fd then p else rx_pointer (r\<lparr>rx_connects := m\<rparr>) fd')"
  by (simp add: rx_pointer_def)

lemma rx_pointer_frame [simp]:
  "rx_pointer (r\<lparr>rx_connects := rx_connects r\<rparr>) = rx_pointer r" "rx_pointer (r\<lparr>rx_world := w\<rparr>) = rx_pointer r"
  "rx_pointer (r\<lparr>rx_thread_pool := tp\<rparr>) = rx_pointer r" "rx_pointer (rx_touch fd r) = rx_pointer r"
  by (auto simp: rx_pointer_def rx_touch_def fun_eq_iff split: option.split)

lemma rx_touch_frame [simp]: "rx_pooled (rx_touch fd r) = rx_pooled r"
  by (simp add: rx_touch_def split: option.split)

lemma rx_remove_safe:
  assumes inv: "rx_inv i P s" and fd: "rx_pointer (fst s) fd \<noteq> None"
  shows "rx_safe i P (sh_pool (snd s) \<noteq> None) (rx_remove fd s)"
proof -
  obtain r sh where s: "s = (r, sh)" by (cases s)
  from fd obtain t where t: "rx_pointer r fd = Some t" by (auto simp: s)
  with inv have P: "P (i, fd) = Some t" and ok: "table_ok P sh" by (simp_all add: rx_inv_def s)
  from table_obj [OF ok P] obtain c where c: "sh_objs sh t = Some c" by blast
  obtain c' w' where cl: "conn_close c (rx_world r) = (c', w')" by fastforce
  let ?sh = "sh\<lparr>sh_count := sh_count sh - 1, sh_objs := (sh_objs sh)(t \<mapsto> c')\<rparr>"
  have "shared_source ?sh (ran P)" "t \<in> ran P" using table_facts(3) [OF ok] P by (auto intro: ranI)
  moreover have "rx_pooled r = (sh_pool ?sh \<noteq> None)" using inv by (simp add: rx_inv_def s)
  ultimately obtain sh1 where sh1: "rx_put t (rx_pooled r) ?sh = Ret sh1" "shared_source sh1 (ran P - {t})"
    "\<And>u. u \<noteq> t \<Longrightarrow> sh_objs sh1 u = sh_objs ?sh u" "sh_count sh1 = sh_count ?sh" "(sh_pool sh1 \<noteq> None) = rx_pooled r"
    using rx_put_ok [of ?sh "ran P" "rx_pooled r" t] by metis
  have "table_ok (P((i, fd) := None)) sh1" by (rule table_drop [OF ok P]) (use sh1 in auto)
  then have "rx_inv i (P((i, fd) := None)) (r\<lparr>rx_connects := fmupd fd None (rx_connects r), rx_world := w'\<rparr>, sh1)"
    using inv sh1(5) by (auto simp: rx_inv_def s rx_pointer_def)
  from rx_safe_Ret [OF this, of P "sh_pool sh \<noteq> None"] inv sh1(1,5)
  show ?thesis by (auto simp: rx_remove_def s t c cl rx_inv_def)
qed

lemma rx_open_safe:
  assumes inv: "rx_inv i P s"
  shows "rx_safe i P (sh_pool (snd s) \<noteq> None) (rx_open fresh fd addr s)"
    and "rx_open fresh fd addr s = Ret s' \<Longrightarrow> rx_pointer (fst s') fd \<noteq> None"
proof -
  obtain r sh where s: "s = (r, sh)" by (cases s)
  have both: "rx_safe i P (sh_pool (snd s) \<noteq> None) (rx_open fresh fd addr s) \<and>
      (rx_open fresh fd addr s = Ret s' \<longrightarrow> rx_pointer (fst s') fd \<noteq> None)"
  proof (cases "rx_pointer r fd")
    case (Some t)
    with inv show ?thesis by (auto simp: rx_open_def s intro!: rx_safe_Ret)
  next
    case None
    from inv have ok: "table_ok P sh" and P: "P (i, fd) = None" and pool: "rx_pooled r = (sh_pool sh \<noteq> None)"
      by (simp_all add: rx_inv_def s None)
    from rx_take_ok [OF table_facts(3) [OF ok] pool, of fresh] obtain t sh1 c where t: "rx_take fresh (rx_pooled r) sh = Ret (t, sh1)"
      "t \<notin> ran P" "shared_source sh1 (insert t (ran P))" "sh_objs sh1 t = Some c"
      "\<And>u. u \<noteq> t \<Longrightarrow> sh_objs sh1 u = sh_objs sh u" "sh_count sh1 = sh_count sh" "(sh_pool sh1 \<noteq> None) = rx_pooled r"
      by metis
    obtain c' w' where ci: "conn_init fd addr (rx_epoll_fd r) (rx_ET r) (rx_one_shot r) True False c (rx_world r) = (c', w')"
      by fastforce
    have fd: "socket_fd c' = fd"
      using conn_init_facts(1) [of fd addr "rx_epoll_fd r" "rx_ET r" "rx_one_shot r" True False c "rx_world r"] ci by simp
    let ?sh = "sh1\<lparr>sh_objs := (sh_objs sh1)(t \<mapsto> c'), sh_count := sh_count sh1 + 1\<rparr>"
    have "table_ok (P((i, fd) \<mapsto> t)) ?sh" by (rule table_add [OF ok P t(2)]) (use t fd in auto)
    then have "rx_inv i (P((i, fd) \<mapsto> t)) (r\<lparr>rx_connects := fmupd fd (Some t) (rx_connects r), rx_world := w'\<rparr>, ?sh)"
      using inv t(7) by (auto simp: rx_inv_def s rx_pointer_def)
    from rx_safe_Ret [OF this, of P "sh_pool sh \<noteq> None"] pool t
    show ?thesis by (auto simp: rx_open_def s None ci)
  qed
  then show "rx_safe i P (sh_pool (snd s) \<noteq> None) (rx_open fresh fd addr s)"
    "rx_open fresh fd addr s = Ret s' \<Longrightarrow> rx_pointer (fst s') fd \<noteq> None" by simp_all
qed

lemma rx_inv_objs:
  assumes inv: "rx_inv i P (r, sh)" and t: "rx_pointer r fd = Some t" "sh_objs sh t = Some c" "socket_fd c' = socket_fd c"
    and r': "rx_pointer r' = rx_pointer r" "rx_pooled r' = rx_pooled r"
  shows "rx_inv i P (r', sh\<lparr>sh_objs := (sh_objs sh)(t \<mapsto> c')\<rparr>)"
proof -
  from inv have "table_ok P sh" by (simp add: rx_inv_def)
  from table_ok_objs [OF this, of t "(sh_objs sh)(t \<mapsto> c')" c c'] t inv r'
  show ?thesis by (simp add: rx_inv_def)
qed

lemma rx_safe_here: "rx_inv i P s \<Longrightarrow> (sh_pool (snd s) \<noteq> None) = b \<Longrightarrow> rx_safe i P b (Ret s)"
  by (rule rx_safe_Ret) simp_all

lemma rx_dispatch_safe:
  assumes inv: "rx_inv i P s" and H: "keeps_fd H" and fd: "rx_pointer (fst s) fd \<noteq> None"
  shows "rx_safe i P (sh_pool (snd s) \<noteq> None) (rx_dispatch H st always fd s)"
proof -
  obtain r sh where s: "s = (r, sh)" by (cases s)
  note inv = inv [unfolded s]
  from fd obtain t where t: "rx_pointer r fd = Some t" by (auto simp: s)
  with inv have "P (i, fd) = Some t" "table_ok P sh" by (simp_all add: rx_inv_def)
  with table_obj obtain c where c: "sh_objs sh t = Some c" by blast
  show ?thesis
  proof (cases "rx_thread_pool r")
    case (Some tp)
    obtain b tp' where a: "add t tp = (b, tp')" by fastforce
    let ?s = "(r\<lparr>rx_thread_pool := Some tp'\<rparr>, sh\<lparr>sh_objs := (sh_objs sh)(t \<mapsto> c\<lparr>status := st\<rparr>)\<rparr>)"
    have i: "rx_inv i P ?s" by (rule rx_inv_objs [OF inv t c]) simp_all
    from rx_remove_safe [OF this, of fd] rx_safe_here [OF i, of "sh_pool sh \<noteq> None"]
    show ?thesis using t by (cases b) (simp_all add: rx_dispatch_def s c Some a)
  next
    case None
    obtain ret c' w' where p: "process H (c\<lparr>status := st\<rparr>) (rx_world r) = (ret, c', w')"
      by (cases "process H (c\<lparr>status := st\<rparr>) (rx_world r)")
    have "socket_fd c' = socket_fd c" using process_keeps_fd [OF H p] by simp
    let ?s = "(r\<lparr>rx_world := w'\<rparr>, sh\<lparr>sh_objs := (sh_objs sh)(t \<mapsto> c')\<rparr>)"
    have i: "rx_inv i P ?s" by (rule rx_inv_objs [OF inv t c]) (simp_all add: \<open>socket_fd c' = socket_fd c\<close>)
    from rx_remove_safe [OF this, of fd] rx_safe_here [OF i, of "sh_pool sh \<noteq> None"]
    show ?thesis using t by (simp add: rx_dispatch_def s c None p Let_def)
  qed
qed

lemma rx_event_safe:
  assumes inv: "rx_inv i P s" and H: "keeps_fd H"
  shows "rx_safe i P (sh_pool (snd s) \<noteq> None) (rx_event H fresh e s)"
  unfolding rx_event_def
proof (rule rx_safe_bind [OF rx_open_safe(1) [OF inv]])
  fix s1 P1
  assume o: "rx_open fresh (ev_fd e) (ev_addr e) s = Ret s1" and i: "rx_inv i P1 s1"
    and b: "(sh_pool (snd s1) \<noteq> None) = (sh_pool (snd s) \<noteq> None)"
  have fd: "rx_pointer (fst s1) (ev_fd e) \<noteq> None" by (rule rx_open_safe(2) [OF inv o])
  show "rx_safe i P1 (sh_pool (snd s) \<noteq> None)
     (if ev_events e AND EPOLLRDHUP \<noteq> 0 then rx_dispatch H RDHUP True (ev_fd e) s1
      else if ev_events e AND EPOLLERR \<noteq> 0 then rx_dispatch H ERROR True (ev_fd e) s1
      else if ev_events e AND EPOLLOUT \<noteq> 0 then rx_dispatch H OUT False (ev_fd e) s1
      else if ev_events e AND EPOLLIN \<noteq> 0 then rx_dispatch H IN False (ev_fd e) s1
      else rx_remove (ev_fd e) s1)"
    using rx_dispatch_safe [OF i H fd] rx_remove_safe [OF i fd] unfolding b by (simp only: if_splits) blast
qed

lemma rx_inv_world: "rx_inv i P (rx_set_cq q s) \<longleftrightarrow> rx_inv i P s"
  by (simp add: rx_inv_def rx_set_cq_def)

lemma rx_close_one_safe:
  assumes "rx_inv i P s"
  shows "rx_safe i P (sh_pool (snd s) \<noteq> None) (rx_close_one fd s)"
proof -
  have "rx_inv i P (rx_touch fd (fst s), snd s)" using assms by (simp add: rx_inv_def)
  from rx_safe_here [OF this] rx_safe_here [OF assms] rx_remove_safe [OF assms, of fd]
  show ?thesis by (simp add: rx_close_one_def)
qed

lemma rx_drain_safe:
  assumes "rx_inv i P s"
  shows "rx_safe i P (sh_pool (snd s) \<noteq> None) (rx_drain s)"
  using assms
proof (induction "length (cq (rx_world (fst s)))" arbitrary: s P rule: less_induct)
  case less
  show ?case
  proof (cases "cq (rx_world (fst s))")
    case Nil
    then show ?thesis using less.prems by (subst rx_drain.simps) (simp add: queue_simps rx_safe_here)
  next
    case (Cons fd q)
    have "rx_drain s = bind_out (rx_close_one fd (rx_set_cq q s)) rx_drain"
      by (subst rx_drain.simps) (simp add: queue_simps Cons)
    moreover have "rx_safe i P (sh_pool (snd s) \<noteq> None) (bind_out (rx_close_one fd (rx_set_cq q s)) rx_drain)"
    proof (rule rx_safe_bind)
      show "rx_safe i P (sh_pool (snd s) \<noteq> None) (rx_close_one fd (rx_set_cq q s))"
        using rx_close_one_safe [of i P "rx_set_cq q s" fd] less.prems by (simp add: rx_inv_world) (simp add: rx_set_cq_def)
    next
      fix s1 P1
      assume c: "rx_close_one fd (rx_set_cq q s) = Ret s1" and i: "rx_inv i P1 s1"
        and b: "(sh_pool (snd s1) \<noteq> None) = (sh_pool (snd s) \<noteq> None)"
      have "length (cq (rx_world (fst s1))) < length (cq (rx_world (fst s)))"
        using rx_close_one_cq [OF c] Cons by (simp add: rx_set_cq_def)
      from less.hyps [OF this i] b show "rx_safe i P1 (sh_pool (snd s) \<noteq> None) (rx_drain s1)" by simp
    qed
    ultimately show ?thesis by simp
  qed
qed

section \<open>The whole server\<close>

definition m_table :: "'a multi \<Rightarrow> table" where
  "m_table m k = (if fst k < length (m_reactors m) then rx_pointer (m_reactors m ! fst k) (snd k) else None)"

definition multi_ok :: "'a multi \<Rightarrow> bool" where
  "multi_ok m \<longleftrightarrow>
     table_ok (m_table m) (m_shared m) \<and> m_reactors m \<noteq> [] \<and>
     (\<forall>r\<in>set (m_reactors m). rx_pooled r = (sh_pool (m_shared m) \<noteq> None))"

lemma least_loaded_bound:
  assumes "rs \<noteq> []"
  shows "least_loaded rs < length rs"
proof -
  have "snd (fold least_step ps b) < n" if "\<And>p. p \<in> set ps \<Longrightarrow> fst p < n" "snd b < n" for ps b and n :: nat
    using that
  proof (induction ps arbitrary: b)
    case (Cons p ps)
    have "snd (least_step p b) < n" using Cons.prems(1) [of p] Cons.prems(2) by (cases p) (simp add: least_step_def)
    with Cons show ?case by simp
  qed simp
  from this [of "List.enumerate 0 rs" "length rs" "(2147483647, 0)"] assms
  show ?thesis by (auto simp: least_loaded_def in_set_enumerate_eq)
qed

lemma add_conn_frame [simp]:
  "rx_pointer (add_conn fd r) = rx_pointer r" "rx_pooled (add_conn fd r) = rx_pooled r"
  by (simp_all add: add_conn_def)

lemma accept_safe:
  assumes "multi_ok m"
  shows "\<exists>rs. accept_conn fd (m_reactors m) = Ret rs \<and> multi_ok (m\<lparr>m_reactors := rs\<rparr>) \<and>
    m_table (m\<lparr>m_reactors := rs\<rparr>) = m_table m"
proof -
  let ?i = "least_loaded (m_reactors m)"
  have i: "?i < length (m_reactors m)" using assms least_loaded_bound by (simp add: multi_ok_def)
  let ?rs = "(m_reactors m)[?i := add_conn fd (m_reactors m ! ?i)]"
  have "m_table (m\<lparr>m_reactors := ?rs\<rparr>) k = m_table m k" for k
    using i by (cases "fst k = ?i") (simp_all add: m_table_def)
  then have t: "m_table (m\<lparr>m_reactors := ?rs\<rparr>) = m_table m" by (rule ext)
  have "rx_pooled r = (sh_pool (m_shared m) \<noteq> None)" if "r \<in> set ?rs" for r
    using set_update_subset_insert [of "m_reactors m" ?i "add_conn fd (m_reactors m ! ?i)"] that assms nth_mem [OF i]
    unfolding multi_ok_def by (auto simp del: nth_mem)
  with assms t have "multi_ok (m\<lparr>m_reactors := ?rs\<rparr>)" by (simp add: multi_ok_def)
  then show ?thesis using t i assms by (cases "fd < 0") (simp_all add: accept_conn_def Let_def)
qed

lemma on_reactor_safe:
  assumes ok: "multi_ok m"
    and f: "\<And>P s. rx_inv i P s \<Longrightarrow> rx_safe i P (sh_pool (snd s) \<noteq> None) (f s)"
  shows "\<exists>m'. on_reactor i f m = Ret m' \<and> multi_ok m'"
proof (cases "i < length (m_reactors m)")
  case False
  with ok show ?thesis by (simp add: on_reactor_def)
next
  case True
  let ?s = "(m_reactors m ! i, m_shared m)"
  have "rx_inv i (m_table m) ?s" using ok True by (simp add: rx_inv_def multi_ok_def m_table_def)
  from f [OF this] obtain r sh P where s: "f ?s = Ret (r, sh)" "rx_inv i P (r, sh)" "\<forall>k. fst k \<noteq> i \<longrightarrow> P k = m_table m k"
    "(sh_pool sh \<noteq> None) = (sh_pool (m_shared m) \<noteq> None)" by (auto simp: rx_safe_def)
  let ?m = "m\<lparr>m_reactors := (m_reactors m)[i := r], m_shared := sh\<rparr>"
  have "m_table ?m k = P k" for k
  proof (cases "fst k = i")
    case True
    then have "P k = rx_pointer r (snd k)" using s(2) by (cases k) (simp add: rx_inv_def)
    with True \<open>i < length (m_reactors m)\<close> show ?thesis by (simp add: m_table_def)
  next
    case False
    with s(3) have "P k = m_table m k" by blast
    with False show ?thesis by (simp add: m_table_def)
  qed
  then have "m_table ?m = P" by (rule ext)
  moreover have "rx_pooled q = (sh_pool sh \<noteq> None)" if "q \<in> set ((m_reactors m)[i := r])" for q
    using set_update_subset_insert [of "m_reactors m" i r] that ok s(2,4) unfolding multi_ok_def rx_inv_def by auto
  ultimately have "multi_ok ?m" using ok s(2) by (simp add: multi_ok_def rx_inv_def)
  then show ?thesis using True s(1) by (simp add: on_reactor_def)
qed

lemma multi_turn_safe:
  assumes "multi_ok m" "keeps_fd H"
  shows "\<exists>m'. multi_turn H fresh t m = Ret m' \<and> multi_ok m'"
proof (cases t)
  case (M_accept fd)
  with accept_safe [OF assms(1), of fd] show ?thesis by (auto simp: multi_turn_def)
next
  case (M_event i e)
  with on_reactor_safe [OF assms(1) rx_event_safe [OF _ assms(2)]] show ?thesis by (simp add: multi_turn_def)
next
  case (M_drain i)
  with on_reactor_safe [OF assms(1) rx_drain_safe] show ?thesis by (simp add: multi_turn_def)
qed

lemma multi_turns_safe:
  assumes "keeps_fd H"
  shows "multi_ok m \<Longrightarrow> \<exists>m'. multi_turns H fresh ts m = Ret m' \<and> multi_ok m'"
proof (induction ts arbitrary: m)
  case (Cons t ts)
  from multi_turn_safe [OF Cons.prems assms, of fresh t] obtain m1 where
    "multi_turn H fresh t m = Ret m1" "multi_ok m1" by blast
  with Cons.IH show ?case by simp
qed simp

text \<open>What the constructor and \<open>wait\<close> make satisfies the invariant.\<close>

lemma make_reactors_new:
  "make_reactors n fds = Ret rs \<Longrightarrow> length rs = n \<and> (\<forall>r\<in>set rs. rx_connects r = fmempty)"
proof (induction n fds arbitrary: rs rule: make_reactors.induct)
  case (3 n fd fds)
  from "3.prems" obtain r rs' where r: "reactor_new fd = Some r" "make_reactors n fds = Ret rs'" "rs = r # rs'"
    by (cases "reactor_new fd") (auto simp: bind_out_Ret_iff)
  then have "rx_connects r = fmempty" by (auto simp: reactor_new_def split: if_splits)
  with "3.IH" [OF r(1,2)] r(3) show ?case by simp
qed simp_all

lemma reactor_init_frame:
  "reactor_init conf et os th pl r = Ret r' \<Longrightarrow> rx_connects r' = rx_connects r \<and> rx_pooled r' = pl"
proof -
  have "ensures (\<lambda>r'. rx_connects r' = rx_connects r \<and> rx_pooled r' = pl) (reactor_init conf et os th pl r)"
    unfolding reactor_init_def Let_def
    by (intro ensures_after [where P = "\<lambda>r2. rx_connects r2 = rx_connects r"] ensures_bind ensures_if ensures_Ret)
      (simp_all add: ensures_def split: option.split)
  then show "reactor_init conf et os th pl r = Ret r' \<Longrightarrow> ?thesis" by (simp add: ensures_def)
qed

lemma seq_out_Ret_set: "seq_out (map f xs) = Ret ys \<Longrightarrow> y \<in> set ys \<Longrightarrow> \<exists>x\<in>set xs. f x = Ret y"
  by (induction xs arbitrary: ys) (auto simp: bind_out_Ret_iff)

lemma seq_out_length: "seq_out ms = Ret ys \<Longrightarrow> length ys = length ms"
  by (induction ms arbitrary: ys) (auto simp: bind_out_Ret_iff)

definition unstarted :: "'a multi \<Rightarrow> bool" where
  "unstarted m \<longleftrightarrow>
     sh_count (m_shared m) = 0 \<and> (\<forall>r\<in>set (m_reactors m). rx_connects r = fmempty) \<and>
     shared_source (m_shared m) {}"

lemma multi_start_ok:
  assumes "unstarted m" "m_reactors m \<noteq> []" "multi_start conf su m = Ret m'"
  shows "multi_ok m'"
proof -
  let ?f = "reactor_init conf (m_ET m) (m_one_shot m) (m_thread_pool m) (sh_pool (m_shared m) \<noteq> None)"
  from assms(3) obtain rs ac where rs: "seq_out (map ?f (m_reactors m)) = Ret rs"
    "m' = m\<lparr>m_reactors := rs, m_acceptor := ac\<rparr>" by (auto simp: multi_start_def bind_out_Ret_iff)
  have r: "rx_connects r = fmempty \<and> rx_pooled r = (sh_pool (m_shared m) \<noteq> None)" if "r \<in> set rs" for r
  proof -
    from seq_out_Ret_set [OF rs(1) that] obtain q where "q \<in> set (m_reactors m)" "?f q = Ret r" by blast
    with reactor_init_frame [OF this(2)] assms(1) show ?thesis by (auto simp: unstarted_def)
  qed
  have "m_table m' k = None" for k
    using r nth_mem [of "fst k" rs] by (auto simp: m_table_def rs(2) rx_pointer_def simp del: nth_mem)
  then have "m_table m' = Map.empty" by (rule ext)
  moreover have "rs \<noteq> []" using seq_out_length [OF rs(1)] assms(2) by auto
  ultimately show ?thesis
    using assms(1) r by (simp add: multi_ok_def rs(2) table_ok_def unstarted_def)
qed

lemma unstarted_frame [simp]:
  "unstarted (m\<lparr>m_ET := b\<rparr>) = unstarted m" "unstarted (m\<lparr>m_one_shot := b\<rparr>) = unstarted m"
  "unstarted (m\<lparr>m_acceptor := a\<rparr>) = unstarted m" "unstarted (m\<lparr>m_max_connect_count := n\<rparr>) = unstarted m"
  "unstarted (m\<lparr>m_thread_pool := b\<rparr>) = unstarted m"
  by (simp_all add: unstarted_def)

lemma unstarted_calls [simp]:
  "unstarted (multi_set_port_reuse b m) = unstarted m" "unstarted (multi_set_addr_reuse b m) = unstarted m"
  by (simp_all add: multi_set_port_reuse_def multi_set_addr_reuse_def)

lemma conv_multi_conf_unstarted:
  fixes m :: "'a multi"
  assumes "conv_multi_conf conf n fds sock = Ret m"
  shows "unstarted m"
proof -
  have blank: "unstarted blank_multi" by (simp add: unstarted_def blank_multi_def shared_source_def heap_uses_def)
  have pool: "unstarted (multi_enable_object_pool sz q)" if "unstarted q" for sz and q :: "'a multi"
    using that connpool_new_uses by (auto simp: unstarted_def multi_enable_object_pool_def shared_source_def split: option.split)
  have opt: "unstarted (opt_set v f q)" if "unstarted q" "\<And>x q. unstarted q \<Longrightarrow> unstarted (f x q)" for v :: "'b option" and f and q :: "'a multi"
    using that by (cases v) (simp_all add: opt_set_def)
  have re: "unstarted (m1\<lparr>m_reactors := rs\<rparr>)"
    if "unstarted m1" "\<And>r. r \<in> set rs \<Longrightarrow> rx_connects r = fmempty" for m1 :: "'a multi" and rs
    using that by (simp add: unstarted_def)
  have "ensures unstarted (conv_multi_conf conf n fds sock :: 'a multi outcome)"
    unfolding conv_multi_conf_def Let_def
    by (intro ensures_bind ensures_if ensures_Throw ensures_Ret)
      (auto simp: blank pool opt re make_reactors_new multi_set_et_def multi_set_one_shot_def)
  with assms show ?thesis by (simp add: ensures_def)
qed

section \<open>Properties\<close>

text \<open>C5: Whatever the interleaving of accepts, events and emptied close queues, the reactors follow no null or
  dangling pointer and return; after it the shared counter is the number of descriptors that have an
  object, no object serves two descriptors, each object has its descriptor, and pool or heap account
  for exactly these objects. Every server that the constructor and \<open>wait\<close> make starts in such a state.\<close>

theorem multi_reactor_invariant:
  assumes "conv_multi_conf conf n fds sock = Ret m0" "m_reactors m0 \<noteq> []" "multi_start conf su m0 = Ret m"
    and "keeps_fd H"
  shows "\<exists>m'. multi_turns H fresh ts m = Ret m' \<and> multi_ok m' \<and>
    sh_count (m_shared m') = int (card (dom (m_table m')))"
proof -
  have "multi_ok m" by (rule multi_start_ok [OF conv_multi_conf_unstarted [OF assms(1)] assms(2,3)])
  from multi_turns_safe [OF assms(4) this] obtain m' where "multi_turns H fresh ts m = Ret m'" "multi_ok m'" by blast
  then show ?thesis by (auto simp: multi_ok_def table_facts(2))
qed

definition two_reactors :: json where
  "two_reactors = fmupd ''reactor_count'' (int_val 2) small_json"

definition good_start :: startup where
  "good_start = \<lparr>bind_ret = 0, epoll_create_ret = 9, listen_ret = 0, register_ret = 0\<rparr>"

definition multi_sample :: "unit multi" where
  "multi_sample = ret_of (conv_multi_conf two_reactors 4 [20, 21] 3)"

definition multi_started :: "unit multi" where
  "multi_started = ret_of (multi_start two_reactors good_start multi_sample)"

lemmas sample_simps = conv_multi_conf_def two_reactors_def small_json_def require_lookup config_at_lookup
  conf_switch_def conf_opt_def conf_int_or_def acceptor_socket_def as_string_def as_short_def as_int32_def as_bool_def int_val_def
  string_val_def opt_set_def reactor_new_def acceptor_init_def

lemma two_new_reactors: "make_reactors 2 [20, 21] = Ret (map (\<lambda>fd. the (reactor_new fd)) [20, 21])"
  by (simp add: numeral_2_eq_2 reactor_new_def)

lemma multi_sample:
  "conv_multi_conf two_reactors 4 [20, 21] 3 = Ret multi_sample"
  "m_reactors multi_sample = map (\<lambda>fd. the (reactor_new fd)) [20, 21]"
  by (simp_all add: multi_sample_def sample_simps two_new_reactors Let_def)

lemma multi_started: "multi_start two_reactors good_start multi_sample = Ret multi_started"
  by (simp add: multi_started_def multi_sample_def multi_start_def sample_simps two_new_reactors Let_def
      blank_multi_def multi_set_et_def acceptor_start_def good_start_def acceptor_new_def reactor_init_def)

lemma quiet_fd_kept: "keeps_fd quiet_methods"
  by (simp add: keeps_fd_def quiet_methods_def default_rdhup_def default_error_def notify_close_facts)

theorem multi_reactor_invariant_witness:
  "\<exists>m'. multi_turns quiet_methods new_conn
      [M_accept 7, M_event 0 \<lparr>ev_fd = 7, ev_events = EPOLLIN, ev_client = 0, ev_addr = []\<rparr>, M_accept 8,
       M_event 1 \<lparr>ev_fd = 8, ev_events = EPOLLRDHUP, ev_client = 0, ev_addr = []\<rparr>, M_drain 0] multi_started = Ret m' \<and>
    multi_ok m' \<and> sh_count (m_shared m') = int (card (dom (m_table m')))"
  by (rule multi_reactor_invariant [OF multi_sample(1) _ multi_started quiet_fd_kept]) (simp add: multi_sample(2))

lemma least_fold:
  "case fold least_step (List.enumerate n rs) (b, i) of (b', i') \<Rightarrow>
     b' \<le> b \<and> (\<forall>j<length rs. b' \<le> table_size (rs ! j)) \<and>
     ((b', i') = (b, i) \<or>
      (\<exists>j<length rs. i' = n + j \<and> b' = table_size (rs ! j) \<and> b' < b \<and> (\<forall>l<j. b' < table_size (rs ! l))))"
proof (induction rs arbitrary: n b i)
  case (Cons r rs)
  define b1 i1 where "b1 = (if b > table_size r then table_size r else b)" and "i1 = (if b > table_size r then n else i)"
  have step: "least_step (n, r) (b, i) = (b1, i1)" by (simp add: least_step_def b1_def i1_def)
  obtain b' i' where f: "fold least_step (List.enumerate (Suc n) rs) (b1, i1) = (b', i')" by fastforce
  from Cons.IH [of b1 i1 "Suc n"] f have ih: "b' \<le> b1" "\<forall>j<length rs. b' \<le> table_size (rs ! j)"
    "(b', i') = (b1, i1) \<or> (\<exists>j<length rs. i' = Suc n + j \<and> b' = table_size (rs ! j) \<and> b' < b1 \<and>
       (\<forall>l<j. b' < table_size (rs ! l)))" by auto
  have le: "b1 \<le> b" "b1 \<le> table_size r" by (simp_all add: b1_def)
  have all: "\<forall>j<length (r # rs). b' \<le> table_size ((r # rs) ! j)"
    using ih(1,2) le by (auto simp: nth_Cons split: nat.split)
  from ih(3) have "(b', i') = (b, i) \<or> (\<exists>j<length (r # rs). i' = n + j \<and> b' = table_size ((r # rs) ! j) \<and> b' < b \<and>
      (\<forall>l<j. b' < table_size ((r # rs) ! l)))"
  proof (elim disjE exE conjE)
    assume "(b', i') = (b1, i1)"
    then show ?thesis by (cases "b > table_size r") (auto simp: b1_def i1_def intro: exI [of _ 0])
  next
    fix j assume "j < length rs" "i' = Suc n + j" "b' = table_size (rs ! j)" "b' < b1" "\<forall>l<j. b' < table_size (rs ! l)"
    then show ?thesis using le by (intro disjI2 exI [of _ "Suc j"]) (auto simp: nth_Cons split: nat.split)
  qed
  with all ih(1) le show ?case by (simp add: step f)
qed simp

text \<open>C21: The acceptor gives a new descriptor to the first of the reactors whose table has the fewest keys and
  to no other; the tables are not changed by it, only the epoll set of the chosen one.\<close>

theorem accept_chooses_least:
  assumes "0 \<le> fd" "rs \<noteq> []" "list_all (\<lambda>r. table_size r < 2147483647) rs"
  shows "\<exists>i<length rs. accept_conn fd rs = Ret (rs[i := add_conn fd (rs ! i)]) \<and>
    (\<forall>j<length rs. table_size (rs ! i) \<le> table_size (rs ! j)) \<and> (\<forall>j<i. table_size (rs ! i) < table_size (rs ! j))"
proof -
  obtain b i where f: "fold least_step (List.enumerate 0 rs) (2147483647, 0) = (b, i)" by fastforce
  then have i: "least_loaded rs = i" by (simp add: least_loaded_def)
  from least_fold [of 2147483647 rs 0 0] f have l: "\<forall>j<length rs. b \<le> table_size (rs ! j)"
    "(b, i) = (2147483647, 0) \<or> (\<exists>j<length rs. i = j \<and> b = table_size (rs ! j) \<and> (\<forall>l<j. b < table_size (rs ! l)))" by auto
  have "b \<le> table_size (rs ! 0)" "table_size (rs ! 0) < 2147483647"
    using l(1) assms(2,3) by (auto simp: list_all_length)
  with l have "i < length rs" "b = table_size (rs ! i)" "\<forall>l<i. b < table_size (rs ! l)" by auto
  with l(1) assms(1) i show ?thesis by (intro exI [of _ i]) (simp add: accept_conn_def Let_def)
qed

definition busy_reactor :: reactor where
  "busy_reactor = (the (reactor_new 5))\<lparr>rx_connects := fmupd 7 None fmempty\<rparr>"

theorem accept_chooses_least_witness:
  "\<exists>i<length [busy_reactor, the (reactor_new 6)]. accept_conn 9 [busy_reactor, the (reactor_new 6)] =
      Ret ([busy_reactor, the (reactor_new 6)][i := add_conn 9 ([busy_reactor, the (reactor_new 6)] ! i)]) \<and>
    (\<forall>j<length [busy_reactor, the (reactor_new 6)].
       table_size ([busy_reactor, the (reactor_new 6)] ! i) \<le> table_size ([busy_reactor, the (reactor_new 6)] ! j)) \<and>
    (\<forall>j<i. table_size ([busy_reactor, the (reactor_new 6)] ! i) < table_size ([busy_reactor, the (reactor_new 6)] ! j))"
  by (rule accept_chooses_least) (simp_all add: busy_reactor_def reactor_new_def table_size_def fcard_finsert_if fcard_fempty)

text \<open>The multi-reactor server does not enforce \<open>max_connect_count\<close>: no turn of any thread depends on it.\<close>

theorem max_connect_count_unused:
  "multi_turns H fresh ts (m\<lparr>m_max_connect_count := k\<rparr>) =
     bind_out (multi_turns H fresh ts m) (\<lambda>m'. Ret (m'\<lparr>m_max_connect_count := k\<rparr>))"
proof (induction ts arbitrary: m)
  case (Cons t ts)
  have r: "on_reactor i f (m\<lparr>m_max_connect_count := k\<rparr>) =
      bind_out (on_reactor i f m) (\<lambda>m'. Ret (m'\<lparr>m_max_connect_count := k\<rparr>))" for i and f :: "'a rx_state \<Rightarrow> 'a rx_state outcome"
    by (cases "f (m_reactors m ! i, m_shared m)") (simp_all add: on_reactor_def split: prod.split)
  have "multi_turn H fresh t (m\<lparr>m_max_connect_count := k\<rparr>) =
      bind_out (multi_turn H fresh t m) (\<lambda>m'. Ret (m'\<lparr>m_max_connect_count := k\<rparr>))"
  proof (cases t)
    case (M_accept fd)
    then show ?thesis by (cases "accept_conn fd (m_reactors m)") (simp_all add: multi_turn_def)
  qed (simp_all add: multi_turn_def r)
  with Cons.IH show ?case by (cases "multi_turn H fresh t m") simp_all
qed simp

text \<open>The number \<open>max_events_count\<close> of the configuration has no effect on a reactor: with any two of them the
  reactor is the same, and it keeps the limit it was constructed with.\<close>

theorem reactor_ignores_max_events:
  "reactor_init (fmupd ''max_events_count'' (V_int k) conf) et os th pl r =
     reactor_init (fmupd ''max_events_count'' (V_int k') conf) et os th pl r \<and>
   (\<exists>r'. reactor_init (fmupd ''max_events_count'' (V_int k) conf) et os False pl r = Ret r' \<and>
     rx_max_events_count r' = rx_max_events_count r)"
  by (simp add: reactor_init_def config_at_lookup Let_def)

text \<open>Raising the limit of events after construction makes \<open>epoll_wait\<close> write outside the array, which was
  allocated with the first limit: a batch of more than 4096 events is undefined behaviour.\<close>

theorem raised_limit_overflows:
  assumes "reactor_new fd = Some r" "4096 < length es" "int (length es) \<le> n"
  shows "rx_max_events_count (set_reactor_max_events n r) = n \<and>
    rx_work H fresh (Poll_events es # ps) (set_reactor_max_events n r, sh) = Undef"
  using assms
  by (auto simp: reactor_new_def set_reactor_max_events_def rx_drain.simps queue_simps split: if_splits)

theorem raised_limit_overflows_witness:
  "rx_max_events_count (set_reactor_max_events 5000 (the (reactor_new 5))) = 5000 \<and>
    rx_work quiet_methods new_conn
      [Poll_events (replicate 4097 \<lparr>ev_fd = 7, ev_events = EPOLLIN, ev_client = 0, ev_addr = []\<rparr>)]
      (set_reactor_max_events 5000 (the (reactor_new 5)), m_shared blank_multi) = Undef"
  by (rule raised_limit_overflows [of 5]) (simp_all add: reactor_new_def)

lemma accept_all_cases: "accept_all fds rs = Undef \<or> (\<exists>rs'. accept_all fds rs = Ret rs')"
  by (induction fds arbitrary: rs) (auto simp: accept_conn_def Let_def split: if_splits)

lemma acceptor_work_ends:
  assumes "ac_event (m_acceptor m)" "p = Accept_failed \<or> p = Accept_cleared"
  shows "acceptor_work (ps @ p # qs) m = Undef"
  using assms(1)
proof (induction ps arbitrary: m)
  case Nil
  then show ?case using assms(2) by (auto simp: acceptor_end_def acceptor_close_def Let_def)
next
  case (Cons q ps)
  have "acceptor_end m = Undef" using Cons.prems by (simp add: acceptor_end_def acceptor_close_def Let_def)
  then show ?case
  proof (cases q)
    case (Accepts fds)
    from accept_all_cases [of fds "m_reactors m"] show ?thesis by (auto simp: Accepts Cons)
  qed (simp_all add: Cons)
qed

text \<open>The acceptor's loop is a sequence of accept turns: what it does to the server is what the interleaving of
  turns does for the same descriptors in the same order.\<close>

theorem acceptor_loop_is_turns:
  "acceptor_work (map Accepts fdss) m = multi_turns H fresh (map M_accept (concat fdss)) m"
proof (induction fdss arbitrary: m)
  case (Cons fds fdss)
  have app: "multi_turns H fresh (map M_accept fds @ ts) m =
      bind_out (accept_all fds (m_reactors m)) (\<lambda>rs. multi_turns H fresh ts (m\<lparr>m_reactors := rs\<rparr>))" for ts
    by (induction fds arbitrary: m) (simp_all add: multi_turn_def bind_out_assoc)
  show ?case by (simp add: app Cons)
qed simp


definition pooled_multi :: "unit multi" where
  "pooled_multi = blank_multi\<lparr>m_reactors := [(the (reactor_new 5))\<lparr>rx_pooled := True\<rparr>],
     m_acceptor := ret_of (acceptor_start good_start acceptor_new)\<rparr>"


end
