(* ===== verification/ReactorWorkers.thy ===== *)
theory ReactorWorkers
  imports ReactorProps
begin

text \<open>
  The reactors with the workers of their thread pools. With an object pool no object is ever deleted, so
  a task is never a dangling pointer, and the invariant of \<open>ReactorProps\<close> holds under every interleaving.
  Without one a worker can follow a deleted object.
\<close>

section \<open>Tasks and objects\<close>

definition tasks :: "'a pool \<Rightarrow> 'a set" where
  "tasks p = {t. Some t \<in> set (process_pool p)} \<union> {t. Running t \<in> set (threads p)}"

lemma tasks_add: "add t p = (b, p') \<Longrightarrow> tasks p' \<subseteq> insert t (tasks p)"
  by (auto simp: add_def add_enter_def add_push_def add_release_def tasks_def queue_simps split: if_splits)

lemma tasks_worker:
  assumes "worker_step w p = Some p'"
  shows "tasks p' \<subseteq> tasks p"
proof -
  have th: "set ((threads p)[w := x]) \<subseteq> insert x (set (threads p))" for x by (rule set_update_subset_insert)
  have pop: "Some c \<in> set q" "set q' \<subseteq> set q" if "lq_pop_ptr q = (b, Some c, q')" for q :: "'a option list" and b c q'
    using that by (cases q; auto simp: queue_simps)+
  have pop': "set q' \<subseteq> set q" if "lq_pop_ptr q = (b, None, q')" for q :: "'a option list" and b q'
    using that by (cases q; auto simp: queue_simps)
  show ?thesis
  proof (cases "threads p ! w")
    case At_pop
    obtain b con q where "lq_pop_ptr (process_pool p) = (b, con, q)" by (cases "lq_pop_ptr (process_pool p)")
    with assms At_pop show ?thesis
      using pop [of "process_pool p" b _ q] pop' [of "process_pool p" b q]
      by (cases con) (auto simp: worker_step.simps tasks_def dest!: subsetD [OF th])
  qed (use assms in \<open>auto simp: worker_step.simps tasks_def dest!: subsetD [OF th] split: if_splits\<close>)
qed

definition rx_tasks :: "reactor \<Rightarrow> nat set" where
  "rx_tasks r = (case rx_thread_pool r of None \<Rightarrow> {} | Some tp \<Rightarrow> tasks tp)"

text \<open>No object is deleted, and a new task has an object.\<close>

definition keeps_objects :: "'a rx_state \<Rightarrow> 'a rx_state \<Rightarrow> bool" where
  "keeps_objects s s' \<longleftrightarrow> dom (sh_objs (snd s)) \<subseteq> dom (sh_objs (snd s')) \<and> rx_pooled (fst s') = rx_pooled (fst s) \<and>
     rx_tasks (fst s') \<subseteq> rx_tasks (fst s) \<union> dom (sh_objs (snd s'))"

lemma keeps_refl: "keeps_objects s s"
  by (simp add: keeps_objects_def)

lemma keeps_trans: "keeps_objects s s1 \<Longrightarrow> keeps_objects s1 s2 \<Longrightarrow> keeps_objects s s2"
  unfolding keeps_objects_def by blast

lemma keeps_after:
  assumes "ensures (keeps_objects s) m" "\<And>s1. keeps_objects s s1 \<Longrightarrow> ensures (keeps_objects s1) (f s1)"
  shows "ensures (keeps_objects s) (bind_out m f)"
  by (rule ensures_after [OF assms(1)]) (use assms(2) keeps_trans in \<open>fastforce simp: ensures_def\<close>)

lemma rx_put_keeps: "ensures (\<lambda>sh'. sh_objs sh' = sh_objs sh) (rx_put t True sh)"
  by (simp add: ensures_def rx_put_def split: option.split)

lemma rx_remove_keeps:
  assumes "rx_pooled (fst s)"
  shows "ensures (keeps_objects s) (rx_remove fd s)"
proof -
  obtain r sh where s: "s = (r, sh)" by (cases s)
  have "keeps_objects s s'" if s': "rx_remove fd s = Ret s'" for s'
  proof -
    from s' s assms obtain t c c' w' sh' where r: "sh_objs sh t = Some c"
        "rx_put t True (sh\<lparr>sh_count := sh_count sh - 1, sh_objs := (sh_objs sh)(t \<mapsto> c')\<rparr>) = Ret sh'"
        "s' = (r\<lparr>rx_connects := fmupd fd None (rx_connects r), rx_world := w'\<rparr>, sh')"
      by (auto simp: rx_remove_def Let_def bind_out_Ret_iff split: option.splits prod.splits)
    with rx_put_keeps [of "sh\<lparr>sh_count := sh_count sh - 1, sh_objs := (sh_objs sh)(t \<mapsto> c')\<rparr>" t]
    show ?thesis by (auto simp: ensures_def keeps_objects_def s rx_tasks_def)
  qed
  then show ?thesis by (simp add: ensures_def)
qed

lemma rx_take_keeps: "rx_take fresh True sh = Ret (t, sh1) \<Longrightarrow> dom (sh_objs sh) \<subseteq> dom (sh_objs sh1)"
  by (auto simp: rx_take_def split: option.splits prod.splits)

lemma rx_open_keeps:
  assumes "rx_pooled (fst s)"
  shows "ensures (keeps_objects s) (rx_open fresh fd addr s)"
proof -
  obtain r sh where s: "s = (r, sh)" by (cases s)
  have "keeps_objects s s'" if s': "rx_open fresh fd addr s = Ret s'" for s'
  proof (cases "rx_pointer r fd")
    case None
    with s' s assms obtain t sh1 where t: "rx_take fresh True sh = Ret (t, sh1)" by (auto simp: rx_open_def bind_out_Ret_iff)
    with None s' s assms obtain c where c: "sh_objs sh1 t = Some c" by (auto simp: rx_open_def split: option.splits)
    obtain c' w' where ci: "conn_init fd addr (rx_epoll_fd r) (rx_ET r) (rx_one_shot r) True False c (rx_world r) = (c', w')"
      by fastforce
    have "s' = (r\<lparr>rx_connects := fmupd fd (Some t) (rx_connects r), rx_world := w'\<rparr>,
        sh1\<lparr>sh_objs := (sh_objs sh1)(t \<mapsto> c'), sh_count := sh_count sh1 + 1\<rparr>)"
      using s' s assms None t c ci by (simp add: rx_open_def)
    with rx_take_keeps [OF t] show ?thesis by (auto simp: keeps_objects_def s rx_tasks_def)
  qed (use s' s in \<open>simp add: rx_open_def keeps_refl\<close>)
  then show ?thesis by (simp add: ensures_def)
qed

lemma rx_dispatch_keeps:
  assumes "rx_pooled (fst s)"
  shows "ensures (keeps_objects s) (rx_dispatch H st always fd s)"
proof -
  obtain r sh where s: "s = (r, sh)" by (cases s)
  show ?thesis
  proof (cases "rx_pointer r fd")
    case (Some t)
    note t = this
    show ?thesis
    proof (cases "sh_objs sh t")
      case (Some c)
      note c = this
      show ?thesis
      proof (cases "rx_thread_pool r")
        case (Some tp)
        obtain b tp' where a: "add t tp = (b, tp')" by fastforce
        let ?s = "(r\<lparr>rx_thread_pool := Some tp'\<rparr>, sh\<lparr>sh_objs := (sh_objs sh)(t \<mapsto> c\<lparr>status := st\<rparr>)\<rparr>)"
        have k: "keeps_objects s ?s" using tasks_add [OF a] c by (auto simp: keeps_objects_def s rx_tasks_def Some)
        have "ensures (keeps_objects ?s) (rx_remove fd ?s)" by (rule rx_remove_keeps) (use assms s in simp)
        with k have "ensures (keeps_objects s) (rx_remove fd ?s)" by (auto simp: ensures_def intro: keeps_trans)
        with k show ?thesis by (simp add: s rx_dispatch_def t c Some a ensures_def Let_def)
      next
        case None
        obtain ret c' w' where p: "process H (c\<lparr>status := st\<rparr>) (rx_world r) = (ret, c', w')"
          by (cases "process H (c\<lparr>status := st\<rparr>) (rx_world r)")
        let ?s = "(r\<lparr>rx_world := w'\<rparr>, sh\<lparr>sh_objs := (sh_objs sh)(t \<mapsto> c')\<rparr>)"
        have k: "keeps_objects s ?s" using c by (auto simp: keeps_objects_def s rx_tasks_def)
        have "ensures (keeps_objects ?s) (rx_remove fd ?s)" by (rule rx_remove_keeps) (use assms s in simp)
        with k have "ensures (keeps_objects s) (rx_remove fd ?s)" by (auto simp: ensures_def intro: keeps_trans)
        with k show ?thesis by (simp add: s rx_dispatch_def t c None p ensures_def Let_def)
      qed
    qed (simp add: s rx_dispatch_def t ensures_def)
  qed (simp add: s rx_dispatch_def ensures_def)
qed

lemma keeps_pooled: "keeps_objects s s1 \<Longrightarrow> rx_pooled (fst s) \<Longrightarrow> rx_pooled (fst s1)"
  by (simp add: keeps_objects_def)

lemma rx_event_keeps:
  assumes "rx_pooled (fst s)"
  shows "ensures (keeps_objects s) (rx_event H fresh e s)"
  unfolding rx_event_def
proof (rule keeps_after [OF rx_open_keeps [OF assms]])
  fix s1 assume "keeps_objects s s1"
  then have "rx_pooled (fst s1)" using assms by (rule keeps_pooled)
  then show "ensures (keeps_objects s1)
     (if ev_events e AND EPOLLRDHUP \<noteq> 0 then rx_dispatch H RDHUP True (ev_fd e) s1
      else if ev_events e AND EPOLLERR \<noteq> 0 then rx_dispatch H ERROR True (ev_fd e) s1
      else if ev_events e AND EPOLLOUT \<noteq> 0 then rx_dispatch H OUT False (ev_fd e) s1
      else if ev_events e AND EPOLLIN \<noteq> 0 then rx_dispatch H IN False (ev_fd e) s1
      else rx_remove (ev_fd e) s1)"
    by (intro ensures_if rx_dispatch_keeps rx_remove_keeps)
qed

lemma rx_close_one_keeps:
  assumes "rx_pooled (fst s)"
  shows "ensures (keeps_objects s) (rx_close_one fd s)"
proof -
  have "keeps_objects s (rx_touch fd (fst s), snd s)"
    by (simp add: keeps_objects_def rx_tasks_def rx_touch_def split: option.split)
  then show ?thesis
    unfolding rx_close_one_def by (intro ensures_if ensures_Ret rx_remove_keeps [OF assms] keeps_refl)
qed

lemma rx_set_cq_keeps: "keeps_objects s (rx_set_cq q s)"
  by (simp add: keeps_objects_def rx_set_cq_def rx_tasks_def)

lemma rx_drain_keeps:
  assumes "rx_pooled (fst s)"
  shows "ensures (keeps_objects s) (rx_drain s)"
  using assms
proof (induction "length (cq (rx_world (fst s)))" arbitrary: s rule: less_induct)
  case less
  show ?case
  proof (cases "cq (rx_world (fst s))")
    case Nil
    then show ?thesis by (subst rx_drain.simps) (simp add: queue_simps ensures_def keeps_refl)
  next
    case (Cons fd q)
    have "rx_drain s = bind_out (rx_close_one fd (rx_set_cq q s)) rx_drain"
      by (subst rx_drain.simps) (simp add: queue_simps Cons)
    moreover have "ensures (keeps_objects (rx_set_cq q s)) (bind_out (rx_close_one fd (rx_set_cq q s)) rx_drain)"
    proof -
      have p: "rx_pooled (fst (rx_set_cq q s))" using less.prems by (simp add: rx_set_cq_def)
      have "ensures (keeps_objects (rx_set_cq q s)) (rx_drain s1)" if s1: "rx_close_one fd (rx_set_cq q s) = Ret s1" for s1
      proof -
        from s1 rx_close_one_keeps [OF p, of fd] have k: "keeps_objects (rx_set_cq q s) s1" by (simp add: ensures_def)
        have "length (cq (rx_world (fst s1))) < length (cq (rx_world (fst s)))"
          using rx_close_one_cq [OF s1] Cons by (simp add: rx_set_cq_def)
        from less.hyps [OF this keeps_pooled [OF k p]] k show ?thesis by (auto simp: ensures_def intro: keeps_trans)
      qed
      then show ?thesis by (rule ensures_bind)
    qed
    ultimately show ?thesis using rx_set_cq_keeps [of s q] by (auto simp: ensures_def intro: keeps_trans)
  qed
qed

section \<open>The whole server\<close>

definition multi_tasks_ok :: "'a multi \<Rightarrow> bool" where
  "multi_tasks_ok m \<longleftrightarrow> multi_ok m \<and> sh_pool (m_shared m) \<noteq> None \<and>
     (\<forall>r\<in>set (m_reactors m). rx_tasks r \<subseteq> dom (sh_objs (m_shared m)))"

lemma on_reactor_tasks:
  assumes ok: "multi_tasks_ok m" and m': "on_reactor i f m = Ret m'" "multi_ok m'"
    and f: "\<And>s. rx_pooled (fst s) \<Longrightarrow> ensures (keeps_objects s) (f s)"
  shows "multi_tasks_ok m'"
proof (cases "i < length (m_reactors m)")
  case False
  with ok m' show ?thesis by (simp add: on_reactor_def)
next
  case True
  let ?s = "(m_reactors m ! i, m_shared m)"
  from m'(1) True obtain r sh where s: "f ?s = Ret (r, sh)" "m' = m\<lparr>m_reactors := (m_reactors m)[i := r], m_shared := sh\<rparr>"
    by (auto simp: on_reactor_def bind_out_Ret_iff)
  have p: "\<forall>q\<in>set (m_reactors m). rx_pooled q" using ok by (simp add: multi_tasks_ok_def multi_ok_def)
  then have k: "keeps_objects ?s (r, sh)" using f [of ?s] s(1) True by (simp add: ensures_def)
  have "rx_pooled r" using k p True by (simp add: keeps_objects_def)
  moreover have "r \<in> set (m_reactors m')" using s(2) True by (simp add: set_update_memI)
  ultimately have pool: "sh_pool (m_shared m') \<noteq> None" using m'(2) by (auto simp: multi_ok_def)
  have "rx_tasks q \<subseteq> dom (sh_objs sh)" if "q \<in> set ((m_reactors m)[i := r])" for q
    using set_update_subset_insert [of "m_reactors m" i r] that k ok nth_mem [OF True]
    unfolding keeps_objects_def multi_tasks_ok_def by (simp del: nth_mem) blast
  with m'(2) pool s(2) show ?thesis by (simp add: multi_tasks_ok_def)
qed

lemma multi_turn_tasks:
  assumes "multi_tasks_ok m" "keeps_fd H"
  shows "\<exists>m'. multi_turn H fresh t m = Ret m' \<and> multi_tasks_ok m'"
proof -
  have ok: "multi_ok m" using assms(1) by (simp add: multi_tasks_ok_def)
  obtain m' where m': "multi_turn H fresh t m = Ret m'" "multi_ok m'" using multi_turn_safe [OF ok assms(2)] by blast
  have "multi_tasks_ok m'"
  proof (cases t)
    case (M_accept fd)
    from accept_safe [OF ok, of fd] M_accept m' obtain rs where rs: "accept_conn fd (m_reactors m) = Ret rs" "m' = m\<lparr>m_reactors := rs\<rparr>"
      by (auto simp: multi_turn_def)
    have "rx_tasks (add_conn fd r) = rx_tasks r" for r by (simp add: add_conn_def rx_tasks_def)
    moreover have "set rs \<subseteq> set (m_reactors m) \<union> add_conn fd ` set (m_reactors m)"
      using rs(1) set_update_subset_insert [of "m_reactors m" "least_loaded (m_reactors m)"]
      by (fastforce simp: accept_conn_def Let_def split: if_splits)
    ultimately have "rx_tasks r \<subseteq> dom (sh_objs (m_shared m))" if "r \<in> set rs" for r
      using that assms(1) unfolding multi_tasks_ok_def by blast
    with assms(1) m'(2) rs(2) show ?thesis by (simp add: multi_tasks_ok_def)
  next
    case (M_event i e)
    with m' on_reactor_tasks [OF assms(1) _ m'(2) rx_event_keeps] show ?thesis by (simp add: multi_turn_def)
  next
    case (M_drain i)
    with m' on_reactor_tasks [OF assms(1) _ m'(2) rx_drain_keeps] show ?thesis by (simp add: multi_turn_def)
  qed
  with m'(1) show ?thesis by blast
qed

lemma home_reactor_bound:
  assumes "i < length (m_reactors m)"
  shows "home_reactor m i c < length (m_reactors m)"
proof (cases "filter (\<lambda>j. rx_epoll_fd (m_reactors m ! j) = epoll_fd c) [0..<length (m_reactors m)]")
  case Nil
  with assms show ?thesis by (simp add: home_reactor_def)
next
  case (Cons j js)
  have "set (j # js) \<subseteq> {0..<length (m_reactors m)}" unfolding Cons [symmetric] by auto
  then show ?thesis unfolding home_reactor_def Cons by simp
qed

text \<open>A change of the worlds and thread pools of reactors that gives no task without an object.\<close>

lemma multi_tasks_frame:
  assumes "multi_tasks_ok m" "length rs = length (m_reactors m)"
    and "\<And>j. j < length rs \<Longrightarrow> rx_pointer (rs ! j) = rx_pointer (m_reactors m ! j) \<and>
      rx_pooled (rs ! j) = rx_pooled (m_reactors m ! j) \<and> rx_tasks (rs ! j) \<subseteq> rx_tasks (m_reactors m ! j)"
  shows "multi_tasks_ok (m\<lparr>m_reactors := rs\<rparr>)"
proof -
  have "m_table (m\<lparr>m_reactors := rs\<rparr>) = m_table m" using assms(2,3) by (auto simp: m_table_def fun_eq_iff)
  moreover have "rx_pooled r = (sh_pool (m_shared m) \<noteq> None)" "rx_tasks r \<subseteq> dom (sh_objs (m_shared m))" if "r \<in> set rs" for r
    using that assms by (fastforce simp: multi_tasks_ok_def multi_ok_def in_set_conv_nth)+
  moreover have "rs \<noteq> []" using assms(1,2) by (auto simp: multi_tasks_ok_def multi_ok_def)
  ultimately show ?thesis using assms(1) by (simp add: multi_tasks_ok_def multi_ok_def)
qed

lemma multi_worker_tasks:
  assumes ok: "multi_tasks_ok m" and H: "keeps_fd H"
  shows "\<exists>m'. multi_worker H i w m = Ret m' \<and> multi_tasks_ok m'"
proof (cases "i < length (m_reactors m)")
  case False
  with ok show ?thesis by (simp add: multi_worker_def)
next
  case i: True
  show ?thesis
  proof (cases "rx_thread_pool (m_reactors m ! i)")
    case None
    with ok i show ?thesis by (simp add: multi_worker_def)
  next
    case tp: (Some tp)
    show ?thesis
    proof (cases "length (threads tp) \<le> w \<or> worker_step w tp = None")
      case True
      with ok i tp show ?thesis by (auto simp: multi_worker_def)
    next
      case False
      then obtain tp' where w: "w < length (threads tp)" "worker_step w tp = Some tp'" by auto
      let ?rs = "(m_reactors m)[i := (m_reactors m ! i)\<lparr>rx_thread_pool := Some tp'\<rparr>]"
      have "rx_pointer (?rs ! j) = rx_pointer (m_reactors m ! j) \<and> rx_pooled (?rs ! j) = rx_pooled (m_reactors m ! j) \<and>
          rx_tasks (?rs ! j) \<subseteq> rx_tasks (m_reactors m ! j)" if "j < length ?rs" for j
        using that tasks_worker [OF w(2)] tp by (cases "j = i") (simp_all add: rx_tasks_def)
      then have m1: "multi_tasks_ok (m\<lparr>m_reactors := ?rs\<rparr>)" by (intro multi_tasks_frame [OF ok]) simp_all
      show ?thesis
      proof (cases "\<exists>t. threads tp ! w = Running t")
        case False
        with i tp w m1 show ?thesis by (cases "threads tp ! w") (auto simp: multi_worker_def Let_def)
      next
        case True
        then obtain t where t: "threads tp ! w = Running t" by blast
        then have "t \<in> rx_tasks (m_reactors m ! i)" using w(1) nth_mem [OF w(1)] by (simp add: rx_tasks_def tp tasks_def)
        then obtain c where c: "sh_objs (m_shared m) t = Some c" using ok nth_mem [OF i] by (auto simp: multi_tasks_ok_def simp del: nth_mem)
        define j where "j = home_reactor m i c"
        have j: "j < length (m_reactors m)" using i by (simp add: j_def home_reactor_bound)
        obtain ret c' w' where p: "process H c (rx_world (?rs ! j)) = (ret, c', w')" by (cases "process H c (rx_world (?rs ! j))")
        let ?qs = "?rs[j := (?rs ! j)\<lparr>rx_world := w'\<rparr>]"
        let ?sh = "(m_shared m)\<lparr>sh_objs := (sh_objs (m_shared m))(t \<mapsto> c')\<rparr>"
        have "rx_pointer (?qs ! l) = rx_pointer (?rs ! l) \<and> rx_pooled (?qs ! l) = rx_pooled (?rs ! l) \<and> rx_tasks (?qs ! l) \<subseteq> rx_tasks (?rs ! l)"
          if "l < length ?qs" for l
          using that j by (cases "l = j") (simp_all add: rx_tasks_def)
        then have m2: "multi_tasks_ok (m\<lparr>m_reactors := ?qs\<rparr>)"
          using multi_tasks_frame [OF m1, of ?qs] by simp
        have "table_ok (m_table (m\<lparr>m_reactors := ?qs\<rparr>)) ?sh"
          using m2 c process_keeps_fd [OF H p]
          by (intro table_ok_objs [where t = t and c = c and c' = c']) (simp_all add: multi_tasks_ok_def multi_ok_def)
        moreover have "m_table (m\<lparr>m_reactors := ?qs, m_shared := ?sh\<rparr>) = m_table (m\<lparr>m_reactors := ?qs\<rparr>)"
          by (simp add: m_table_def fun_eq_iff)
        ultimately have "multi_tasks_ok (m\<lparr>m_reactors := ?qs, m_shared := ?sh\<rparr>)"
          using m2 by (auto simp: multi_tasks_ok_def multi_ok_def)
        moreover have "multi_worker H i w m = Ret (m\<lparr>m_reactors := ?qs, m_shared := ?sh\<rparr>)"
          using i tp w t c p by (simp add: multi_worker_def Let_def flip: j_def)
        ultimately show ?thesis by blast
      qed
    qed
  qed
qed

lemma multi_steps_tasks:
  assumes "keeps_fd H"
  shows "multi_tasks_ok m \<Longrightarrow> \<exists>m'. multi_steps H fresh sts m = Ret m' \<and> multi_tasks_ok m'"
proof (induction sts arbitrary: m)
  case (Cons st sts)
  have "\<exists>m1. multi_step H fresh st m = Ret m1 \<and> multi_tasks_ok m1"
    using multi_turn_tasks [OF Cons.prems assms] multi_worker_tasks [OF Cons.prems assms]
    by (cases st) (simp_all add: multi_step_def)
  with Cons.IH show ?case by auto
qed simp

text \<open>The thread pools that the constructor and \<open>wait\<close> make have no task.\<close>

lemma make_reactors_idle: "make_reactors n fds = Ret rs \<Longrightarrow> r \<in> set rs \<Longrightarrow> rx_thread_pool r = None"
proof (induction n fds arbitrary: rs rule: make_reactors.induct)
  case (3 n fd fds)
  from "3.prems"(1) obtain q qs where q: "reactor_new fd = Some q" "make_reactors n fds = Ret qs" "rs = q # qs"
    by (cases "reactor_new fd") (auto simp: bind_out_Ret_iff)
  then have "rx_thread_pool q = None" by (auto simp: reactor_new_def split: if_splits)
  with "3.IH" [OF q(1,2)] "3.prems"(2) q(3) show ?case by auto
qed simp_all

definition idle_reactors :: "'a multi \<Rightarrow> bool" where
  "idle_reactors m \<longleftrightarrow> (\<forall>r\<in>set (m_reactors m). rx_thread_pool r = None)"

lemma conv_multi_conf_idle:
  fixes m :: "'a multi"
  assumes "conv_multi_conf conf n fds sock = Ret m"
  shows "idle_reactors m"
proof -
  have calls: "idle_reactors (multi_set_port_reuse b q) = idle_reactors q" "idle_reactors (multi_set_addr_reuse b q) = idle_reactors q"
    for b and q :: "'a multi"
    by (simp_all add: idle_reactors_def multi_set_port_reuse_def multi_set_addr_reuse_def)
  have re: "idle_reactors (q\<lparr>m_reactors := rs, m_acceptor := ac\<rparr>) = (\<forall>r\<in>set rs. rx_thread_pool r = None)"
    for rs ac and q :: "'a multi"
    by (simp add: idle_reactors_def)
  have "ensures idle_reactors (conv_multi_conf conf n fds sock :: 'a multi outcome)"
    unfolding conv_multi_conf_def Let_def
    by (intro ensures_bind ensures_if ensures_Throw ensures_Ret)
      (auto simp: calls re make_reactors_idle)
  with assms show ?thesis by (simp add: ensures_def)
qed

lemma reactor_init_idle:
  assumes "reactor_init conf et os th pl r = Ret r'" "rx_thread_pool r = None"
  shows "rx_tasks r' = {}"
proof -
  have "tasks p = {}" if "new_pool n k = Some p" for n k and p :: "nat pool"
    using that by (auto simp: new_pool_def tasks_def split: if_splits)
  then have "ensures (\<lambda>r'. rx_tasks r' = {}) (reactor_init conf et os th pl r)"
    unfolding reactor_init_def Let_def
    by (intro ensures_after [where P = "\<lambda>r2. rx_tasks r2 = {}"] ensures_bind ensures_if ensures_Ret)
      (use assms(2) in \<open>auto simp: ensures_def rx_tasks_def split: option.split\<close>)
  with assms(1) show ?thesis by (simp add: ensures_def)
qed

lemma multi_start_tasks:
  assumes "conv_multi_conf conf n fds sock = Ret m0" "m_reactors m0 \<noteq> []" "multi_start conf su m0 = Ret m"
    and "sh_pool (m_shared m0) \<noteq> None"
  shows "multi_tasks_ok m"
proof -
  have ok: "multi_ok m" by (rule multi_start_ok [OF conv_multi_conf_unstarted [OF assms(1)] assms(2,3)])
  let ?f = "reactor_init conf (m_ET m0) (m_one_shot m0) (m_thread_pool m0) (sh_pool (m_shared m0) \<noteq> None)"
  from assms(3) obtain rs ac where rs: "seq_out (map ?f (m_reactors m0)) = Ret rs"
    "m = m0\<lparr>m_reactors := rs, m_acceptor := ac\<rparr>" by (auto simp: multi_start_def bind_out_Ret_iff)
  have "rx_tasks r = {}" if "r \<in> set rs" for r
    using seq_out_Ret_set [OF rs(1) that] reactor_init_idle conv_multi_conf_idle [OF assms(1)] unfolding idle_reactors_def by blast
  with ok rs(2) assms(4) show ?thesis by (simp add: multi_tasks_ok_def)
qed

section \<open>Properties\<close>

text \<open>C6: With an object pool the reactors and the workers of their thread pools follow no null or dangling
  pointer in any interleaving, and the shared counter stays the number of descriptors with an object:
  objects go back to the pool and are never deleted, so every task still has one.\<close>

theorem pooled_workers_safe:
  assumes "conv_multi_conf conf n fds sock = Ret m0" "m_reactors m0 \<noteq> []" "multi_start conf su m0 = Ret m"
    and "sh_pool (m_shared m0) \<noteq> None" "keeps_fd H"
  shows "\<exists>m'. multi_steps H fresh sts m = Ret m' \<and> multi_ok m' \<and>
    sh_count (m_shared m') = int (card (dom (m_table m')))"
proof -
  from multi_steps_tasks [OF assms(5) multi_start_tasks [OF assms(1-4)], of fresh sts] obtain m' where
    "multi_steps H fresh sts m = Ret m'" "multi_ok m'" unfolding multi_tasks_ok_def by blast
  then show ?thesis by (auto simp: multi_ok_def table_facts(2))
qed

definition threads_json :: json where
  "threads_json = fmupd ''one_shot'' (V_bool False) (fmupd ''multi_thread'' (V_bool True)
     (fmupd ''thread_count'' (V_int 2) (fmupd ''reactor_count'' (V_int 1) small_json)))"

definition pooled_json :: json where
  "pooled_json = fmupd ''object_pool'' (V_bool True) (fmupd ''object_pool_size'' (V_int 1) threads_json)"

definition some_work :: "mstep list" where
  "some_work = [Turn (M_accept 7), Turn (M_event 0 (in_event 7 0)), Turn (M_event 0 (in_event 7 0))] @
     replicate 4 (Work 0 0) @ replicate 4 (Work 0 1) @ [Work 0 0]"

lemma one_new_reactor: "make_reactors 1 [20] = Ret [the (reactor_new 20)]"
  by (simp add: reactor_new_def)

definition pooled_new :: "unit multi" where
  "pooled_new = ret_of (conv_multi_conf pooled_json 4 [20] 3)"

definition pooled_start :: "unit multi" where
  "pooled_start = ret_of (multi_start pooled_json good_start pooled_new)"

lemma pooled_new:
  "conv_multi_conf pooled_json 4 [20] 3 = Ret pooled_new" "m_reactors pooled_new = [the (reactor_new 20)]"
  "sh_pool (m_shared pooled_new) \<noteq> None"
  by (simp_all add: pooled_new_def pooled_json_def threads_json_def sample_simps one_new_reactor [simplified] Let_def
      blank_multi_def multi_enable_object_pool_def multi_set_et_def multi_set_one_shot_def)

lemma pooled_start: "multi_start pooled_json good_start pooled_new = Ret pooled_start"
  by (simp add: pooled_start_def pooled_new_def multi_start_def pooled_json_def threads_json_def sample_simps one_new_reactor [simplified] Let_def
      blank_multi_def multi_set_et_def multi_set_one_shot_def multi_enable_object_pool_def acceptor_start_def good_start_def
      acceptor_new_def reactor_init_def new_pool_def)

theorem pooled_workers_safe_witness:
  "\<exists>m'. multi_steps quiet_methods new_conn (some_work @ [Turn (M_drain 0), Work 0 1]) pooled_start = Ret m' \<and> multi_ok m' \<and>
    sh_count (m_shared m') = int (card (dom (m_table m')))"
  by (rule pooled_workers_safe [OF pooled_new(1) _ pooled_start pooled_new(3) quiet_fd_kept]) (simp add: pooled_new(2))

text \<open>A server without an object pool, and a descriptor with two events that are both with the workers.\<close>

definition threads_new :: "unit multi" where
  "threads_new = ret_of (conv_multi_conf threads_json 4 [20] 3)"

lemma threads_new:
  "conv_multi_conf threads_json 4 [20] 3 = Ret threads_new"
  by (simp_all add: threads_new_def threads_json_def sample_simps one_new_reactor [simplified] Let_def
      blank_multi_def multi_enable_object_pool_def multi_set_et_def multi_set_one_shot_def)

definition pool_of :: "nat option list \<Rightarrow> nat \<Rightarrow> nat wpc list \<Rightarrow> nat list \<Rightarrow> nat list \<Rightarrow> nat pool" where
  "pool_of q n ths ps ss = \<lparr>max_process_count = 40000, process_pool = q, sem = n, stop = False, threads = ths,
     producer = Outside, pushed = ps, started = ss\<rparr>"

definition loop_of :: "(int, nat option) fmap \<Rightarrow> nat pool \<Rightarrow> world \<Rightarrow> reactor" where
  "loop_of cs p w = \<lparr>rx_connects = cs, rx_pooled = False, rx_thread_pool = Some p, rx_world = w, rx_epoll_fd = 20,
     rx_ET = True, rx_one_shot = False, rx_max_events_count = 4096, rx_events = 4096\<rparr>"

definition server_of :: "reactor \<Rightarrow> unit shared \<Rightarrow> unit multi" where
  "server_of r sh = threads_new\<lparr>m_acceptor := m_acceptor (ret_of (multi_start threads_json good_start threads_new)),
     m_reactors := [r], m_shared := sh\<rparr>"

lemma replicate_two: "replicate 2 x = [x, x]"
  by (simp add: numeral_2_eq_2)

lemma threads_started: "multi_start threads_json good_start threads_new =
    Ret (server_of (loop_of fmempty (pool_of [] 0 [At_loop, At_loop] [] []) \<lparr>calls = [], cq = []\<rparr>)
      \<lparr>sh_count = 0, sh_objs = \<lambda>x. None, sh_pool = None, sh_next = 0\<rparr>)"
  by (simp add: server_of_def loop_of_def pool_of_def threads_new_def multi_start_def threads_json_def sample_simps
      one_new_reactor [simplified] Let_def blank_multi_def multi_set_et_def multi_set_one_shot_def multi_enable_object_pool_def
      acceptor_start_def good_start_def acceptor_new_def reactor_init_def new_pool_def replicate_two)

lemma server_accept: "multi_turn H fresh (M_accept 7) (server_of (loop_of fmempty p w) sh) =
    Ret (server_of (add_conn 7 (loop_of fmempty p w)) sh)"
  by (simp add: multi_turn_def accept_conn_def server_of_def least_loaded_def least_step_def loop_of_def)

lemma server_event: "multi_turn H fresh (M_event 0 e) (server_of r sh) =
    bind_out (rx_event H fresh e (r, sh)) (\<lambda>(r, sh). Ret (server_of r sh))"
  by (simp add: multi_turn_def on_reactor_def server_of_def)

lemma server_drain: "multi_turn H fresh (M_drain 0) (server_of r sh) =
    bind_out (rx_drain (r, sh)) (\<lambda>(r, sh). Ret (server_of r sh))"
  by (simp add: multi_turn_def on_reactor_def server_of_def)

lemma server_takes:
  assumes "w < length ths" "ths ! w = At_loop"
  shows "multi_steps H fresh (replicate 4 (Work 0 w)) (server_of (loop_of cs (pool_of (Some t # q) (Suc k) ths ps ss) wd) sh) =
    Ret (server_of (loop_of cs (pool_of q k (ths[w := Running t]) ps (ss @ [t])) wd) sh)"
  using assms by (simp add: numeral_eq_Suc multi_step_def multi_worker_def worker_step.simps server_of_def loop_of_def pool_of_def
      queue_simps sem_acquire_def)

definition told :: world where
  "told = \<lparr>calls = epoll_add 20 7 True False True, cq = []\<rparr>"

definition client :: conn where
  "client = fst (conn_init 7 [] 20 True False True False new_conn told)"

definition one_client :: "conn \<Rightarrow> unit shared" where
  "one_client c = \<lparr>sh_count = 1, sh_objs = [0 \<mapsto> c], sh_pool = None, sh_next = 1\<rparr>"

lemma server_first: "rx_event H new_conn (in_event 7 0) (loop_of fmempty (pool_of [] 0 ths [] []) told,
      \<lparr>sh_count = 0, sh_objs = \<lambda>x. None, sh_pool = None, sh_next = 0\<rparr>) =
    Ret (loop_of (fmupd 7 (Some 0) fmempty) (pool_of [Some 0] (Suc 0) ths [0] []) told, one_client (client\<lparr>status := IN\<rparr>))"
  by (simp add: rx_event_def rx_open_def rx_take_def heap_get_def rx_dispatch_def rx_pointer_def loop_of_def
      epoll_bits add_def add_enter_def add_push_def add_release_def pool_of_def queue_simps sem_release_def one_client_def client_def
      conn_init_def Let_def)

lemma server_second: "rx_event H new_conn (in_event 7 0) (loop_of (fmupd 7 (Some 0) fmempty) (pool_of [Some 0] (Suc 0) ths [0] []) told,
      one_client c) =
    Ret (loop_of (fmupd 7 (Some 0) fmempty) (pool_of [Some 0, Some 0] (Suc (Suc 0)) ths [0, 0] []) told, one_client (c\<lparr>status := IN\<rparr>))"
  by (simp add: rx_event_def rx_open_def rx_take_def rx_dispatch_def rx_pointer_def loop_of_def
      epoll_bits add_def add_enter_def add_push_def add_release_def pool_of_def queue_simps sem_release_def one_client_def Let_def)

lemma server_runs: "multi_worker quiet_methods 0 0 (server_of (loop_of cs (pool_of [] 0 [Running 0, y] ps ss) told)
      (one_client (client\<lparr>status := IN\<rparr>))) =
    Ret (server_of (loop_of cs (pool_of [] 0 [At_loop, y] ps ss) (told\<lparr>cq := [7]\<rparr>)) (one_client (client\<lparr>status := CLOSE\<rparr>)))"
  by (simp add: multi_worker_def server_of_def worker_step.simps loop_of_def pool_of_def one_client_def home_reactor_def
      process_def process_base_def quiet_methods_def notify_close_def queue_simps client_def conn_init_def told_def)

lemma multi_steps_append: "multi_steps H fresh (xs @ ys) m = bind_out (multi_steps H fresh xs m) (multi_steps H fresh ys)"
  proof (induction xs arbitrary: m)
  case (Cons st xs)
  then show ?case by (cases "multi_step H fresh st m") simp_all
qed simp

lemma some_work: "bind_out (multi_start threads_json good_start threads_new) (multi_steps quiet_methods new_conn some_work) =
    Ret (server_of (loop_of (fmupd 7 (Some 0) fmempty) (pool_of [] 0 [At_loop, Running 0] [0, 0] [0, 0]) (told\<lparr>cq := [7]\<rparr>))
      (one_client (client\<lparr>status := CLOSE\<rparr>)))"
proof -
  have told: "add_conn 7 (loop_of cs p \<lparr>calls = [], cq = []\<rparr>) = loop_of cs p told" for cs p
    by (simp add: add_conn_def loop_of_def told_def)
  show ?thesis
    by (simp add: threads_started some_work_def multi_steps_append multi_step_def server_accept server_event server_first
        server_second told server_takes server_runs)
qed

text \<open>C23: Without an object pool a worker of a reactor's thread pool that was given a connection follows a
  deleted object, when the reactor empties its close queue between the worker taking the task and running it.\<close>

theorem worker_follows_deleted_object:
  assumes "i < length (m_reactors m)" "rx_thread_pool (m_reactors m ! i) = Some tp" "w < length (threads tp)"
    and "threads tp ! w = Running t" "\<not> rx_pooled (m_reactors m ! i)" "cq (rx_world (m_reactors m ! i)) = [fd]"
    and "fd \<noteq> -1" "rx_pointer (m_reactors m ! i) fd = Some t" "sh_objs (m_shared m) t = Some c"
  shows "multi_steps H fresh [Turn (M_drain i), Work i w] m = Undef"
proof -
  let ?r = "m_reactors m ! i"
  obtain c' w' where c: "conn_close c ((rx_world ?r)\<lparr>cq := []\<rparr>) = (c', w')" "cq w' = []"
    by (cases "conn_close c ((rx_world ?r)\<lparr>cq := []\<rparr>)") (auto simp: conn_close_def split: if_splits)
  obtain tp' where "worker_step w tp = Some tp'" using assms(4) by (simp add: worker_step.simps)
  with assms c show ?thesis
    by (simp add: multi_step_def multi_turn_def on_reactor_def rx_drain.simps rx_close_one_def rx_set_cq_def rx_remove_def
        rx_put_def rx_pointer_def queue_simps multi_worker_def)
qed

theorem worker_follows_deleted_object_witness:
  "bind_out (multi_start threads_json good_start threads_new)
     (multi_steps quiet_methods new_conn (some_work @ [Turn (M_drain 0), Work 0 1])) = Undef"
proof -
  let ?m = "server_of (loop_of (fmupd 7 (Some 0) fmempty) (pool_of [] 0 [At_loop, Running 0] [0, 0] [0, 0]) (told\<lparr>cq := [7]\<rparr>))
    (one_client (client\<lparr>status := CLOSE\<rparr>))"
  have "multi_steps quiet_methods new_conn [Turn (M_drain 0), Work 0 1] ?m = Undef"
    by (rule worker_follows_deleted_object [where fd = 7 and t = 0 and tp = "pool_of [] 0 [At_loop, Running 0] [0, 0] [0, 0]"])
      (simp_all add: server_of_def loop_of_def pool_of_def rx_pointer_def one_client_def)
  with some_work show ?thesis by (simp add: multi_steps_append threads_started)
qed

end
