(* ===== verification/DetectConn.thy ===== *)
theory DetectConn
  imports JsonProps ConvSingle
begin

text \<open>
  The connection of the object detection server, \<open>src/detect/detect_conn.h\<close>. A client sends a framed JSON
  object with the keys \<open>type\<close> and \<open>size\<close> and then an image, which is written to the file \<open>tmp.jpg\<close>; the
  answer is a JSON object. The detectors rest on libtorch and OpenCV: \<open>predict\<close> is a parameter, from the
  name of a detector and the bytes of an image to a label and a percentage. \<open>img\<close> is the content of
  \<open>tmp.jpg\<close>, one file for all connections.
\<close>

record detect = conn + detect_data :: json

record detect_env =
  detectors :: "string list"
  predict :: "string \<Rightarrow> string \<Rightarrow> string \<times> double"
  hash_order :: key_order

type_synonym detect_result = "(bool \<times> detect \<times> net \<times> world \<times> string) outcome"

text \<open>\<open>process_in\<close>; the result of \<open>load\<close> is not looked at.\<close>

definition detect_in :: "detect \<Rightarrow> net \<Rightarrow> world \<Rightarrow> string \<Rightarrow> detect_result" where
  "detect_in c n w img =
     bind_out (recv_with_header [] c n) (\<lambda>(ok, data, c1, n1).
     if \<not> ok then Ret (False, c1, n1, w, img)
     else
       bind_out (load data (detect_data c1)) (\<lambda>(_, m).
       if has_key m ''type'' then
         let (v, m1) = json_at m ''size'' in
         bind_out (as_int32 v) (\<lambda>sz.
         bind_out (recv_file (to_size_t (sint sz)) (c1\<lparr>detect_data := m1\<rparr>) n1) (\<lambda>(ok, _, written, c2, n2).
         if ok then Ret (True, c2, n2, next_event EPOLLOUT c2 w, written)
         else Ret (False, c2, n2, w, written)))
       else Ret (False, c1\<lparr>detect_data := m\<rparr>, n1, w, img)))"

definition detect_out :: "detect_env \<Rightarrow> detect \<Rightarrow> net \<Rightarrow> world \<Rightarrow> string \<Rightarrow> detect_result" where
  "detect_out env c n w img =
     (let (v, m) = json_at (detect_data c) ''type'' in
      bind_out (as_string v) (\<lambda>name.
      if name \<in> set (detectors env) then
        let (label, percent) = predict env name img;
            m1 = fmupd label (V_double percent) (json_clear m) in
        bind_out (dump (hash_order env) m1) (\<lambda>answer.
        bind_out (send_with_header answer (c\<lparr>detect_data := m1\<rparr>) n) (\<lambda>(ok, c1, n1).
        Ret (ok, c1, n1, w, img)))
      else Ret (False, c\<lparr>detect_data := m\<rparr>, n, w, img)))"

section \<open>What receiving a file leaves alone\<close>

lemma recv_file_loop_frame:
  "recv_file_loop written s n = Ret (ok, cl, out, s', n') \<Longrightarrow> \<exists>k. s' = s\<lparr>read_cursor := k\<rparr>"
proof (induction written s n rule: recv_file_loop.induct)
  case (1 written s n)
  show ?case
  proof (cases "read_cursor s < read_total_bytes s")
    case False
    then have "s' = s\<lparr>read_cursor := read_cursor s\<rparr>" using "1.prems" by (simp add: recv_file_loop.simps)
    then show ?thesis by blast
  next
    case True
    then obtain ret buf n1 where r: "sys_recv (unat (chunk_len (read_total_bytes s - read_cursor s))) n = Ret (ret, buf, n1)"
      using "1.prems"
      by (cases "sys_recv (unat (chunk_len (read_total_bytes s - read_cursor s))) n") (auto simp: recv_file_loop.simps)
    show ?thesis
    proof (cases "to_size_t ret \<le> 0 \<or> to_size_t ret > BUF")
      case True': True
      then have "s' = s\<lparr>read_cursor := read_cursor s\<rparr>" using "1.prems" True r
        by (auto simp: recv_file_loop.simps Let_def split: if_splits)
      then show ?thesis by blast
    next
      case False
      with "1.prems" [unfolded recv_file_loop.simps [of written s n]] True r
      have "recv_file_loop (written @ buf) (s\<lparr>read_cursor := read_cursor s + to_size_t ret\<rparr>) n1 =
          Ret (ok, cl, out, s', n')" by (simp add: Let_def)
      from "1.IH" [OF True r refl refl refl _ _ this] False show ?thesis by auto
    qed
  qed
qed

lemma recv_file_frame:
  fixes c :: detect
  assumes "recv_file sz c n = Ret (ok, cl, out, c', n')"
  shows "detect_data c' = detect_data c"
  using recv_file_loop_frame [OF assms [unfolded recv_file_def]] by auto

section \<open>Properties\<close>

text \<open>C30: A well-formed request is remembered, and the answer, sent when the socket is writable, is the dump of
  what the named detector says of the image that is in \<open>tmp.jpg\<close> then: the client's own, unless
  another connection has received an image in between. Nothing asks for the next event after it.\<close>

theorem detection_answers_latest_image:
  assumes "recv_with_header [] c n = Ret (True, t @ rest, c1, n1)" "renders (V_json m) t"
    and "fmlookup m ''type'' = Some (string_val name)" "NUL \<notin> set name" "fmlookup m ''size'' = Some (V_int sz)"
    and "recv_file (to_size_t (sint sz)) (c1\<lparr>detect_data := m\<rparr>) n1 = Ret (True, cl, mine, c2, n2)"
    and "name \<in> set (detectors env)" "predict env name img = (label, percent)" "key_order_ok (hash_order env)"
  shows "detect_in c n w old = Ret (True, c2, n2, next_event EPOLLOUT c2 w, mine) \<and>
    detect_out env c2 k w' img =
      bind_out (send_with_header (CHR ''{'' # DQ # label @ DQ # CHR '':'' # show_double percent @ ''}'')
        (c2\<lparr>detect_data := fmupd label (V_double percent) fmempty\<rparr>) k) (\<lambda>(ok, c3, k'). Ret (ok, c3, k', w', img))"
proof -
  have d: "detect_data c2 = m" using recv_file_frame [OF assms(6)] by simp
  have "iterate (hash_order env) (fmupd label (V_double percent) fmempty) = [(label, V_double percent)]"
    by (simp add: iterate_def single_key_order [OF assms(9)])
  then have "dump (hash_order env) (fmupd label (V_double percent) fmempty) =
      Ret (CHR ''{'' # DQ # label @ DQ # CHR '':'' # show_double percent @ ''}'')"
    by (simp add: dump_def dump_value_def to_string_def object_text_def entry_text_def comma_join_def)
  moreover have "detect_in c n w old = Ret (True, c2, n2, next_event EPOLLOUT c2 w, mine)"
    using assms(1,3,5,6) load_renders [OF assms(2), of rest]
    by (simp add: detect_in_def has_key_def fmlookup_dom_iff json_at_def as_int32_def)
  ultimately show ?thesis
    using assms(3,4,7,8) d by (simp add: detect_out_def json_at_def string_val_def cstr_id as_string_def json_clear_def)
qed

definition request :: json where
  "request = json_of_list [(''type'', string_val ''cat''), (''size'', V_int 2)]"

definition request_text :: string where
  "request_text = ''{\"type\":\"cat\",\"size\":2}''"

lemma request_renders: "renders (V_json request) request_text"
proof -
  have s2: "show_int 2 = ''2''" by (simp add: show_int_def show_nat.simps char_of_def bit_Suc_0_iff)
  have "number_text (V_int 2) ''2''" using number_text_int [of 2] s2 by simp
  then have e2: "entry ''size'' (\<lambda>u. renders (V_int 2) u) (entry_text '':'' (''size'', ''2''))"
    by (intro entry_sep r_number) (simp_all add: key_ok_def)
  have "renders (string_val ''cat'') (DQ # ''cat'' @ [DQ])"
    using renders_string [of "''cat''"] by (simp add: plain_string_def string_val_def cstr_def)
  then have e1: "entry ''type'' (\<lambda>u. renders (string_val ''cat'') u) (entry_text '':'' (''type'', DQ # ''cat'' @ [DQ]))"
    by (intro entry_sep) (simp_all add: key_ok_def)
  have "renders (V_json request)
      (CHR ''{'' # comma_join [entry_text '':'' (''type'', DQ # ''cat'' @ [DQ]), entry_text '':'' (''size'', ''2'')] @ ''}'')"
    unfolding request_def by (rule r_object) (use e1 e2 in simp_all)
  then show ?thesis by (simp add: request_text_def comma_join_def entry_text_def)
qed

text \<open>A connection in the middle of a message of \<open>k\<close> bytes.\<close>

definition receiving :: "size_t \<Rightarrow> detect" where
  "receiving k = conn.extend (new_conn\<lparr>already := False, read_total_bytes := k\<rparr>) \<lparr>detect_data = fmempty\<rparr>"

definition cat_env :: detect_env where
  "cat_env = \<lparr>detectors = [''cat''], predict = (\<lambda>_ img. (img, Inf False)), hash_order = sorted_keys\<rparr>"

lemmas receive_simps = recv_with_header_def finish_recv_def recv_base_def recv_loop.simps recv_file_def
  recv_file_loop.simps sys_recv_def chunk_len_def BUF_def to_size_t_def receiving_def new_conn_def new_sock_def
  conn.extend_def sock.extend_def Let_def

definition heard :: "bool \<times> string \<times> detect \<times> net" where
  "heard = ret_of (recv_with_header [] (receiving 23) (idle_net [] [Arrived 100, Arrived 9] (request_text @ ''IM'')))"

definition got_image :: "bool \<times> bool \<times> string \<times> detect \<times> net" where
  "got_image = ret_of (recv_file (to_size_t (sint (2 :: 32 word)))
     (fst (snd (snd heard))\<lparr>detect_data := request\<rparr>) (snd (snd (snd heard))))"

lemma heard: "recv_with_header [] (receiving 23) (idle_net [] [Arrived 100, Arrived 9] (request_text @ ''IM'')) =
    Ret (True, request_text @ [], fst (snd (snd heard)), snd (snd (snd heard)))"
  by (simp add: heard_def request_text_def idle_net_def receive_simps)

lemma got_image: "recv_file (to_size_t (sint (2 :: 32 word))) (fst (snd (snd heard))\<lparr>detect_data := request\<rparr>) (snd (snd (snd heard))) =
    Ret (True, True, ''IM'', fst (snd (snd (snd got_image))), snd (snd (snd (snd got_image))))"
  by (simp add: got_image_def heard_def request_text_def idle_net_def receive_simps)

theorem detection_answers_latest_image_witness:
  "detect_in (receiving 23) (idle_net [] [Arrived 100, Arrived 9] (request_text @ ''IM'')) \<lparr>calls = [], cq = []\<rparr> [] =
      Ret (True, fst (snd (snd (snd got_image))), snd (snd (snd (snd got_image))),
        next_event EPOLLOUT (fst (snd (snd (snd got_image)))) \<lparr>calls = [], cq = []\<rparr>, ''IM'') \<and>
    detect_out cat_env (fst (snd (snd (snd got_image)))) (idle_net [] [] []) \<lparr>calls = [], cq = []\<rparr> ''other'' =
      bind_out (send_with_header (CHR ''{'' # DQ # ''other'' @ DQ # CHR '':'' # show_double (Inf False) @ ''}'')
        (fst (snd (snd (snd got_image)))\<lparr>detect_data := fmupd ''other'' (V_double (Inf False)) fmempty\<rparr>) (idle_net [] [] []))
        (\<lambda>(ok, c3, k'). Ret (ok, c3, k', \<lparr>calls = [], cq = []\<rparr>, ''other''))"
  by (rule detection_answers_latest_image [OF heard request_renders _ _ _ got_image, where name = "''cat''"])
    (simp_all add: request_def json_of_list_def json_emplace_def cat_env_def sorted_keys_ok)

text \<open>One message ends the server: an object with a key \<open>type\<close> but no integer as \<open>size\<close> fails an assertion
  in \<open>process_in\<close>.\<close>

theorem detection_request_aborts:
  assumes "recv_with_header [] c n = Ret (True, t @ rest, c1, n1)" "renders (V_json m) t"
    and "has_key m ''type''" "type_of (fst (json_at m ''size'')) \<noteq> JSON_INT"
  shows "detect_in c n w img = Abort"
proof -
  obtain v m1 where v: "json_at m ''size'' = (v, m1)" by fastforce
  with assms(4) have "as_int32 v = Abort" by (cases v) (simp_all add: as_int32_def)
  with v assms(1,3) load_renders [OF assms(2), of rest] show ?thesis by (simp add: detect_in_def)
qed

definition bad_request :: string where
  "bad_request = ''{\"type\":null}''"

lemma bad_request_renders: "renders (V_json (fmupd ''type'' V_null fmempty)) bad_request"
  using print_val_renders [OF sorted_keys_ok, of "'':''" "V_json (fmupd ''type'' V_null fmempty)"]
    single_key_order [OF sorted_keys_ok, of "''type''"]
  by (simp add: bad_request_def fmmap_fmupd iterate_def object_text_def comma_join_def entry_text_def fmpred_upd key_ok_def)

definition heard_bad :: "bool \<times> string \<times> detect \<times> net" where
  "heard_bad = ret_of (recv_with_header [] (receiving 13) (idle_net [] [Arrived 100] bad_request))"

theorem detection_request_aborts_witness:
  "detect_in (receiving 13) (idle_net [] [Arrived 100] bad_request) \<lparr>calls = [], cq = []\<rparr> [] = Abort"
proof (rule detection_request_aborts [OF _ bad_request_renders])
  show "recv_with_header [] (receiving 13) (idle_net [] [Arrived 100] bad_request) =
      Ret (True, bad_request @ [], fst (snd (snd heard_bad)), snd (snd (snd heard_bad)))"
    by (simp add: heard_bad_def bad_request_def idle_net_def receive_simps)
qed (simp_all add: has_key_def json_at_def)

end
